(* ===== verification/Pbns_Prelude.thy ===== *)
theory Pbns_Prelude
  imports Main "HOL-Library.Word"
begin

unbundle bit_operations_syntax

text \<open>
  Shared vocabulary of the development.

  \<^item> Machine types: a \<open>byte\<close> is an 8 bit word; \<open>u16\<close>, \<open>u32\<close> and \<open>u64\<close> keep the width of
    the fixed-size C integers.  \<open>size_t\<close> and \<open>uintptr_t\<close> values are natural numbers, with
    the limit \<open>SIZE_MAX\<close> of the 64 bit host written out wherever the C code tests for it.
  \<^item> \<open>pbns_status\<close> is the enumeration of \<open>include/pbns/status.h\<close>.
  \<^item> \<open>pbns_view\<close> and \<open>pbns_buffer\<close> are the borrowed memory ranges of \<open>include/pbns/buffer.h\<close>.
    A range is its address (0 is the null pointer) together with the bytes stored there;
    the length of a view and the capacity of a buffer are the length of that list.
    A pointer to a single object is an option (\<open>None\<close> is the null pointer).
  \<^item> Big-endian integer stores and loads, with both round trips.
  \<^item> A loop combinator for loops that leave by \<open>return\<close> from their body and that may not
    terminate (the result is then \<open>None\<close>), with a partial and a total correctness rule.
\<close>

subsection \<open>Machine types\<close>

type_synonym byte = "8 word"
type_synonym bytes = "byte list"
type_synonym u16 = "16 word"
type_synonym u32 = "32 word"
type_synonym u64 = "64 word"
type_synonym 'a ptr = "'a option"

definition SIZE_MAX :: nat where
  "SIZE_MAX = 2 ^ 64 - 1"

definition UINTPTR_MAX :: nat where
  "UINTPTR_MAX = 2 ^ 64 - 1"

named_theorems pbns_simps \<open>unfolding rules for the small predicates of the sources\<close>

subsection \<open>Status codes\<close>

datatype pbns_status =
    PBNS_OK
  | PBNS_ERR_ARGUMENT
  | PBNS_ERR_LIMIT
  | PBNS_ERR_FORMAT
  | PBNS_ERR_CRC
  | PBNS_ERR_VERSION
  | PBNS_ERR_SERVICE
  | PBNS_ERR_MESSAGE_TYPE
  | PBNS_ERR_SEQUENCE
  | PBNS_ERR_STATE
  | PBNS_ERR_WOULD_BLOCK
  | PBNS_ERR_TIMEOUT
  | PBNS_ERR_TRANSPORT
  | PBNS_ERR_CRYPTO
  | PBNS_ERR_AUTHENTICATION
  | PBNS_ERR_REPLAY
  | PBNS_ERR_UNSUPPORTED
  | PBNS_ERR_UNIMPLEMENTED
  | PBNS_ERR_ENTROPY
  | PBNS_ERR_AMBIGUOUS
  | PBNS_ERR_RESOURCE
  | PBNS_ERR_IO
  | PBNS_ERR_BUSY

text \<open>The enumeration by the magnitude of its C value: entry \<open>n\<close> is the code \<open>-n\<close>.\<close>

definition pbns_status_table :: "pbns_status list" where
  "pbns_status_table =
     [PBNS_OK, PBNS_ERR_ARGUMENT, PBNS_ERR_LIMIT, PBNS_ERR_FORMAT, PBNS_ERR_CRC,
      PBNS_ERR_VERSION, PBNS_ERR_SERVICE, PBNS_ERR_MESSAGE_TYPE, PBNS_ERR_SEQUENCE,
      PBNS_ERR_STATE, PBNS_ERR_WOULD_BLOCK, PBNS_ERR_TIMEOUT, PBNS_ERR_TRANSPORT,
      PBNS_ERR_CRYPTO, PBNS_ERR_AUTHENTICATION, PBNS_ERR_REPLAY, PBNS_ERR_UNSUPPORTED,
      PBNS_ERR_UNIMPLEMENTED, PBNS_ERR_ENTROPY, PBNS_ERR_AMBIGUOUS, PBNS_ERR_RESOURCE,
      PBNS_ERR_IO, PBNS_ERR_BUSY]"

text \<open>
  The status values are the enumerators, so the \<open>default\<close> branch of the C function (\<open>unknown\<close>,
  for an integer that is none of them) has no counterpart.
\<close>

fun pbns_status_string :: "pbns_status \<Rightarrow> string" where
  "pbns_status_string PBNS_OK = ''ok''"
| "pbns_status_string PBNS_ERR_ARGUMENT = ''argument''"
| "pbns_status_string PBNS_ERR_LIMIT = ''limit''"
| "pbns_status_string PBNS_ERR_FORMAT = ''format''"
| "pbns_status_string PBNS_ERR_CRC = ''crc''"
| "pbns_status_string PBNS_ERR_VERSION = ''version''"
| "pbns_status_string PBNS_ERR_SERVICE = ''service''"
| "pbns_status_string PBNS_ERR_MESSAGE_TYPE = ''message-type''"
| "pbns_status_string PBNS_ERR_SEQUENCE = ''sequence''"
| "pbns_status_string PBNS_ERR_STATE = ''state''"
| "pbns_status_string PBNS_ERR_WOULD_BLOCK = ''would-block''"
| "pbns_status_string PBNS_ERR_TIMEOUT = ''timeout''"
| "pbns_status_string PBNS_ERR_TRANSPORT = ''transport''"
| "pbns_status_string PBNS_ERR_CRYPTO = ''crypto''"
| "pbns_status_string PBNS_ERR_AUTHENTICATION = ''authentication''"
| "pbns_status_string PBNS_ERR_REPLAY = ''replay''"
| "pbns_status_string PBNS_ERR_UNSUPPORTED = ''unsupported''"
| "pbns_status_string PBNS_ERR_UNIMPLEMENTED = ''unimplemented''"
| "pbns_status_string PBNS_ERR_ENTROPY = ''entropy''"
| "pbns_status_string PBNS_ERR_AMBIGUOUS = ''ambiguous''"
| "pbns_status_string PBNS_ERR_RESOURCE = ''resource''"
| "pbns_status_string PBNS_ERR_IO = ''io''"
| "pbns_status_string PBNS_ERR_BUSY = ''busy''"

subsection \<open>Views and buffers\<close>

record pbns_view =
  v_ptr :: nat
  v_bytes :: bytes

record pbns_buffer =
  b_ptr :: nat
  b_len :: nat
  b_mem :: bytes

abbreviation v_len :: "pbns_view \<Rightarrow> nat" where
  "v_len v \<equiv> length (v_bytes v)"

abbreviation b_cap :: "pbns_buffer \<Rightarrow> nat" where
  "b_cap b \<equiv> length (b_mem b)"

definition null_view :: pbns_view where
  "null_view = \<lparr>v_ptr = 0, v_bytes = []\<rparr>"

definition null_buffer :: pbns_buffer where
  "null_buffer = \<lparr>b_ptr = 0, b_len = 0, b_mem = []\<rparr>"

definition view_is_valid :: "pbns_view \<Rightarrow> bool" where
  [pbns_simps]: "view_is_valid v \<longleftrightarrow> v_ptr v \<noteq> 0 \<or> v_len v = 0"

definition buffer_is_valid :: "pbns_buffer \<Rightarrow> bool" where
  [pbns_simps]: "buffer_is_valid b \<longleftrightarrow> b_len b = 0 \<and> (b_ptr b \<noteq> 0 \<or> b_cap b = 0)"

definition ranges_overlap :: "nat \<Rightarrow> nat \<Rightarrow> nat \<Rightarrow> nat \<Rightarrow> bool" where
  "ranges_overlap left left_len right right_len =
     (if left_len = 0 \<or> right_len = 0 then False
      else if left_len > UINTPTR_MAX - left \<or> right_len > UINTPTR_MAX - right then True
      else left < right + right_len \<and> right < left + left_len)"

text \<open>\<open>store_at out i bs\<close> is the memory after a copy of \<open>bs\<close> to index \<open>i\<close> of \<open>out\<close>.\<close>

definition store_at :: "bytes \<Rightarrow> nat \<Rightarrow> bytes \<Rightarrow> bytes" where
  "store_at out i bs = take i out @ bs @ drop (i + length bs) out"

text \<open>
  \<open>filled mem w\<close> is the memory after a callback has written \<open>w\<close> to its start, cut to its size.
  \<open>byte_at p mem v i\<close> is byte \<open>i\<close> of a view when the memory at address \<open>p\<close> now holds \<open>mem\<close>, and
  \<open>copy_to p mem i v\<close> the memory after the view has been copied to index \<open>i\<close>, byte by byte from the
  front, whether or not the ranges overlap.
\<close>

definition filled :: "bytes \<Rightarrow> bytes \<Rightarrow> bytes" where
  "filled mem w = take (length mem) (w @ drop (length w) mem)"

definition byte_at :: "nat \<Rightarrow> bytes \<Rightarrow> pbns_view \<Rightarrow> nat \<Rightarrow> byte" where
  "byte_at p mem v i =
     (if p \<le> v_ptr v + i \<and> v_ptr v + i < p + length mem then mem ! (v_ptr v + i - p) else v_bytes v ! i)"

definition copy_to :: "nat \<Rightarrow> bytes \<Rightarrow> nat \<Rightarrow> pbns_view \<Rightarrow> bytes" where
  "copy_to p mem i v = foldl (\<lambda>mem k. mem[i + k := byte_at p mem v k]) mem [0..<v_len v]"

subsection \<open>Big-endian integers\<close>

definition write_u16_be :: "u16 \<Rightarrow> bytes" where
  "write_u16_be v = [ucast (drop_bit 8 v), ucast v]"

definition read_u16_be :: "bytes \<Rightarrow> u16" where
  "read_u16_be s = push_bit 8 (ucast (s ! 0)) OR ucast (s ! 1)"

definition write_u32_be :: "u32 \<Rightarrow> bytes" where
  "write_u32_be v =
     [ucast (drop_bit 24 v), ucast (drop_bit 16 v), ucast (drop_bit 8 v), ucast v]"

definition read_u32_be :: "bytes \<Rightarrow> u32" where
  "read_u32_be s =
     push_bit 24 (ucast (s ! 0)) OR push_bit 16 (ucast (s ! 1)) OR
     push_bit 8 (ucast (s ! 2)) OR ucast (s ! 3)"

definition write_u64_be :: "u64 \<Rightarrow> bytes" where
  "write_u64_be v = map (\<lambda>i. ucast (drop_bit (56 - i * 8) v)) [0..<8]"

definition read_u64_be :: "bytes \<Rightarrow> u64" where
  "read_u64_be s = foldl (\<lambda>v b. push_bit 8 v OR ucast b) 0 (take 8 s)"

subsection \<open>Loops that leave by returning\<close>

text \<open>
  The body of a loop yields either the state of the next iteration (\<open>Inl\<close>) or the value
  the function returns (\<open>Inr\<close>).
\<close>

partial_function (option) loop :: "('s \<Rightarrow> 's + 'r) \<Rightarrow> 's \<Rightarrow> 'r option" where
  "loop body s = (case body s of Inl s' \<Rightarrow> loop body s' | Inr r \<Rightarrow> Some r)"

subsection \<open>Lemmas on ranges and memory\<close>

lemma store_at_length [simp]: "i + length bs \<le> length out \<Longrightarrow> length (store_at out i bs) = length out"
  by (simp add: store_at_def)

lemma store_at_nth:
  "i + length bs \<le> length out \<Longrightarrow> k < length out \<Longrightarrow>
   store_at out i bs ! k = (if k < i then out ! k else if k < i + length bs then bs ! (k - i) else out ! k)"
  by (auto simp: store_at_def nth_append min_def)

lemma take_store_at: "i + length bs \<le> length out \<Longrightarrow> take (i + length bs) (store_at out i bs) = take i out @ bs"
  by (simp add: store_at_def)

lemma store_at_append:
  "i = length pre \<Longrightarrow> store_at (pre @ rest) i bs = (pre @ bs) @ drop (length bs) rest"
  by (simp add: store_at_def)

lemma update_append:
  "i = length pre \<Longrightarrow> rest \<noteq> [] \<Longrightarrow> (pre @ rest)[i := v] = (pre @ [v]) @ drop 1 rest"
  by (cases rest) simp_all

lemma take_drop_chain: "i \<le> j \<Longrightarrow> take i xs @ take (j - i) (drop i xs) = take j xs"
  by (metis add_diff_inverse_nat not_less take_add)

lemma ranges_overlap_sym: "ranges_overlap a m b n = ranges_overlap b n a m"
  by (auto simp: ranges_overlap_def)

lemma ranges_overlap_disjoint:
  "\<not> ranges_overlap a m b n \<Longrightarrow> {a..<a + m} \<inter> {b..<b + n} = {}"
  by (auto simp: ranges_overlap_def split: if_splits)

lemma length_filled [simp]: "length (filled mem w) = length mem"
  by (simp add: filled_def)

lemma filled_fits: "length w = length mem \<Longrightarrow> filled mem w = w"
  by (simp add: filled_def)

lemma byte_at_apart:
  assumes "\<not> ranges_overlap (v_ptr v) (v_len v) p (length mem)" and "i < v_len v"
  shows "byte_at p mem v i = v_bytes v ! i"
  using ranges_overlap_disjoint [OF assms(1)] assms(2) by (force simp: byte_at_def disjoint_iff)

lemma store_at_snoc:
  assumes "i + length bs < length mem"
  shows "(store_at mem i bs)[i + length bs := x] = store_at mem i (bs @ [x])"
  using assms by (simp add: store_at_def list_update_append Cons_nth_drop_Suc [symmetric])

lemma copy_to_apart:
  assumes "\<not> ranges_overlap (v_ptr v) (v_len v) p (length mem)" and "i + v_len v \<le> length mem"
  shows "copy_to p mem i v = store_at mem i (v_bytes v)"
proof -
  have "foldl (\<lambda>mem k. mem[i + k := byte_at p mem v k]) mem [0..<n] = store_at mem i (take n (v_bytes v))" if "n \<le> v_len v" for n
    using that
  proof (induction n)
    case 0
    then show ?case by (simp add: store_at_def)
  next
    case (Suc n)
    let ?m = "store_at mem i (take n (v_bytes v))"
    have len: "length ?m = length mem" "length (take n (v_bytes v)) = n" using Suc.prems assms(2) by simp_all
    have "byte_at p ?m v n = v_bytes v ! n" using assms(1) Suc.prems by (intro byte_at_apart) (simp_all add: len)
    moreover have "?m[i + n := v_bytes v ! n] = store_at mem i (take (Suc n) (v_bytes v))"
      using store_at_snoc [of i "take n (v_bytes v)" mem "v_bytes v ! n"] Suc.prems assms(2) len(2)
      by (simp add: take_Suc_conv_app_nth)
    ultimately show ?case using Suc by simp
  qed
  then show ?thesis by (simp add: copy_to_def)
qed

subsection \<open>Words without wrap-around\<close>

lemma unat_add_nowrap:
  fixes a b :: "'a :: len word"
  assumes "unat a + unat b < 2 ^ LENGTH('a)"
  shows "unat (a + b) = unat a + unat b"
  using assms by (simp add: unat_word_ariths)

lemma unat_sub_nowrap:
  fixes a b :: "'a :: len word"
  assumes "unat b \<le> unat a"
  shows "unat (a - b) = unat a - unat b"
  using assms by (simp add: unat_sub word_le_nat_alt)

lemma unat_mult_nowrap:
  fixes a b :: "'a :: len word"
  assumes "unat a * unat b < 2 ^ LENGTH('a)"
  shows "unat (a * b) = unat a * unat b"
  using assms by (simp add: unat_word_ariths)

lemma unat_of_nat_small:
  "n < 2 ^ LENGTH('a) \<Longrightarrow> unat (of_nat n :: 'a :: len word) = n"
  by (simp add: unat_of_nat take_bit_eq_mod)

lemma unat_lt: "unat (a :: 'a :: len word) < 2 ^ LENGTH('a)"
  by (rule unsigned_less)

lemma unat_ucast_u32 [simp]: "unat (ucast (x :: 32 word) :: 64 word) = unat x"
  using unat_lt [of x] by (simp add: unsigned_ucast_eq take_bit_nat_eq_self)

lemma unat_max_word: "unat (- 1 :: 'a :: len word) = 2 ^ LENGTH('a) - 1"
  by (simp add: unsigned_minus_1_eq_mask mask_eq_exp_minus_1)

lemma not_max_word:
  fixes a :: "'a :: len word"
  assumes "a \<noteq> - 1"
  shows "unat a < 2 ^ LENGTH('a) - 1"
proof -
  have "unat a \<noteq> unat (- 1 :: 'a word)" using assms by (simp only: word_unat_eq_iff not_False_eq_True)
  moreover have "unat a < 2 ^ LENGTH('a)" by (rule unsigned_less)
  ultimately show ?thesis unfolding unat_max_word by linarith
qed

subsection \<open>Round trips of the integer stores\<close>

lemma length_write_be [simp]:
  "length (write_u16_be a) = 2" "length (write_u32_be b) = 4" "length (write_u64_be c) = 8"
  by (simp_all add: write_u16_be_def write_u32_be_def write_u64_be_def)

lemma read_write_u16_be [simp]: "read_u16_be (write_u16_be v @ rest) = v"
  by (rule bit_word_eqI) (auto simp: read_u16_be_def write_u16_be_def bit_simps)

lemma read_write_u32_be [simp]: "read_u32_be (write_u32_be v @ rest) = v"
proof (rule bit_word_eqI)
  fix n assume "n < LENGTH(32)"
  then consider "n < 8" | "8 \<le> n" "n < 16" | "16 \<le> n" "n < 24" | "24 \<le> n" "n < 32"
    by fastforce
  then show "bit (read_u32_be (write_u32_be v @ rest)) n = bit v n"
    by cases (auto simp: read_u32_be_def write_u32_be_def bit_simps less_diff_conv2)
qed

lemma write_read_u16_be:
  assumes "length s = 2" shows "write_u16_be (read_u16_be s) = s"
proof -
  obtain a b where s: "s = [a, b]"
    using assms by (auto simp: length_Suc_conv numeral_eq_Suc)
  show ?thesis
    by (auto simp: s write_u16_be_def read_u16_be_def intro!: bit_word_eqI) (auto simp: bit_simps dest: bit_imp_le_length)
qed

lemma write_read_u32_be:
  assumes "length s = 4" shows "write_u32_be (read_u32_be s) = s"
proof -
  obtain a b c d where s: "s = [a, b, c, d]"
    using assms by (auto simp: length_Suc_conv numeral_eq_Suc)
  show ?thesis
    by (auto simp: s write_u32_be_def read_u32_be_def intro!: bit_word_eqI) (auto simp: bit_simps dest: bit_imp_le_length)
qed

lemma read_u64_be_unfold:
  "read_u64_be (a # b # c # d # e # f # g # h # rest) =
   push_bit 56 (ucast a) OR push_bit 48 (ucast b) OR push_bit 40 (ucast c) OR push_bit 32 (ucast d) OR
   push_bit 24 (ucast e) OR push_bit 16 (ucast f) OR push_bit 8 (ucast g) OR ucast h"
  by (simp add: read_u64_be_def push_bit_or or.assoc)

lemma write_u64_be_unfold:
  "write_u64_be v = [ucast (drop_bit 56 v), ucast (drop_bit 48 v), ucast (drop_bit 40 v), ucast (drop_bit 32 v),
     ucast (drop_bit 24 v), ucast (drop_bit 16 v), ucast (drop_bit 8 v), ucast v]"
  by (simp add: write_u64_be_def upt_rec)

lemma read_write_u64_be [simp]: "read_u64_be (write_u64_be v @ rest) = v"
proof (rule bit_word_eqI)
  fix n assume "n < LENGTH(64)"
  then consider "n < 8" | "8 \<le> n" "n < 16" | "16 \<le> n" "n < 24" | "24 \<le> n" "n < 32"
     | "32 \<le> n" "n < 40" | "40 \<le> n" "n < 48" | "48 \<le> n" "n < 56" | "56 \<le> n" "n < 64"
    by fastforce
  then show "bit (read_u64_be (write_u64_be v @ rest)) n = bit v n"
    by cases (auto simp: read_u64_be_unfold write_u64_be_unfold bit_simps less_diff_conv2)
qed

lemma write_read_u64_be:
  assumes "length s = 8" shows "write_u64_be (read_u64_be s) = s"
proof -
  obtain a b c d e f g h where s: "s = [a, b, c, d, e, f, g, h]"
    using assms by (auto simp: length_Suc_conv numeral_eq_Suc)
  show ?thesis
    by (auto simp: s write_u64_be_unfold read_u64_be_unfold intro!: bit_word_eqI) (auto simp: bit_simps dest: bit_imp_le_length)
qed

lemma read_write_u16_be_only [simp]: "read_u16_be (write_u16_be v) = v"
  using read_write_u16_be [of v "[]"] by simp

lemma read_write_u32_be_only [simp]: "read_u32_be (write_u32_be v) = v"
  using read_write_u32_be [of v "[]"] by simp

lemma read_write_u64_be_only [simp]: "read_u64_be (write_u64_be v) = v"
  using read_write_u64_be [of v "[]"] by simp

text \<open>A load only looks at the first bytes of the source.\<close>

lemma read_u32_be_take: "read_u32_be (take 4 s) = read_u32_be s"
  by (simp add: read_u32_be_def)

lemma read_u32_be_append: "length s = 4 \<Longrightarrow> read_u32_be (s @ rest) = read_u32_be s"
  by (simp add: read_u32_be_def nth_append)

lemma read_be_take: "read_u16_be (take 2 s) = read_u16_be s" "read_u64_be (take 8 s) = read_u64_be s"
  by (simp_all add: read_u16_be_def read_u64_be_def)

text \<open>A field of a record, read where it stands, is the encoding of the value the reader returns.\<close>

lemma field_u16: "i + 2 \<le> length bs \<Longrightarrow> take 2 (drop i bs) = write_u16_be (read_u16_be (drop i bs))"
  using write_read_u16_be [of "take 2 (drop i bs)"] by (simp add: read_be_take)

lemma field_u32: "i + 4 \<le> length bs \<Longrightarrow> take 4 (drop i bs) = write_u32_be (read_u32_be (drop i bs))"
  using write_read_u32_be [of "take 4 (drop i bs)"] by (simp add: read_u32_be_take)

lemma field_u64: "i + 8 \<le> length bs \<Longrightarrow> take 8 (drop i bs) = write_u64_be (read_u64_be (drop i bs))"
  using write_read_u64_be [of "take 8 (drop i bs)"] by (simp add: read_be_take)

lemma take_drop_rest: "take k (drop i bs) @ drop (i + k) bs = drop i bs"
  by (metis append_take_drop_id drop_drop add.commute)

subsection \<open>Correctness rules for the loop combinator\<close>

lemma loop_Inl: "body s = Inl s' \<Longrightarrow> loop body s = loop body s'"
  by (simp add: loop.simps [of body s])

lemma loop_Inr: "body s = Inr r \<Longrightarrow> loop body s = Some r"
  by (simp add: loop.simps [of body s])

lemma loop_partial:
  assumes ret: "loop body s = Some r"
    and inv: "P s"
    and step: "\<And>s s'. P s \<Longrightarrow> body s = Inl s' \<Longrightarrow> P s'"
    and leave: "\<And>s r. P s \<Longrightarrow> body s = Inr r \<Longrightarrow> Q r"
  shows "Q r"
proof -
  have "body = body \<longrightarrow> P s \<longrightarrow> Q r"
  proof (rule loop.raw_induct [where P = "\<lambda>b s r. b = body \<longrightarrow> P s \<longrightarrow> Q r", OF _ ret])
    fix lp b t q
    assume IH: "\<And>b s r. lp b s = Some r \<Longrightarrow> b = body \<longrightarrow> P s \<longrightarrow> Q r"
      and eq: "(case b t of Inl s' \<Rightarrow> lp b s' | Inr r \<Rightarrow> Some r) = Some q"
    show "b = body \<longrightarrow> P t \<longrightarrow> Q q"
    proof (intro impI)
      assume b: "b = body" and P: "P t"
      show "Q q"
      proof (cases "b t")
        case (Inl s')
        with eq have "lp b s' = Some q" by simp
        from IH [OF this] b P step Inl show ?thesis by blast
      next
        case (Inr r')
        with eq b P leave show ?thesis by auto
      qed
    qed
  qed
  with inv show ?thesis by simp
qed

lemma loop_total:
  assumes inv: "P s"
    and step: "\<And>s s'. P s \<Longrightarrow> body s = Inl s' \<Longrightarrow> P s' \<and> m s' < (m s :: nat)"
  shows "\<exists>r. loop body s = Some r"
  using inv
proof (induction "m s" arbitrary: s rule: less_induct)
  case less
  show ?case
  proof (cases "body s")
    case (Inl s')
    with step [OF less.prems] less.hyps [of s'] show ?thesis by (simp add: loop_Inl)
  next
    case (Inr r)
    then show ?thesis by (simp add: loop_Inr)
  qed
qed

subsection \<open>Sealed messages\<close>

text \<open>
  What a record format relies on when it closes a message with a 32 bit check value: the
  check value separates messages that differ only within a window of four bytes.
\<close>

locale checksum =
  fixes crc :: "bytes \<Rightarrow> u32"
  assumes burst: "length w = length w' \<Longrightarrow> length w \<le> 4 \<Longrightarrow>
    crc (pre @ w @ post) = crc (pre @ w' @ post) \<Longrightarrow> w = w'"
begin

lemma sealed_body_damage:
  assumes "length w = length w'" and "length w \<le> 4" and "4 \<le> length post"
    and "pre @ w @ post = body @ write_u32_be (crc body)"
    and "pre @ w' @ post = body' @ write_u32_be (crc body')"
  shows "w = w'"
proof -
  define q where "q = take (length post - 4) post"
  define r where "r = drop (length post - 4) post"
  have post: "post = q @ r" and r: "length r = 4" using assms(3) by (simp_all add: q_def r_def)
  have "(pre @ w @ q) @ r = body @ write_u32_be (crc body)" "(pre @ w' @ q) @ r = body' @ write_u32_be (crc body')"
    using assms(4,5) by (simp_all add: post)
  then have "pre @ w @ q = body \<and> r = write_u32_be (crc body)" "pre @ w' @ q = body' \<and> r = write_u32_be (crc body')"
    using r append_eq_append_conv [of "pre @ w @ q" body r "write_u32_be (crc body)"]
      append_eq_append_conv [of "pre @ w' @ q" body' r "write_u32_be (crc body')"] by (metis length_write_be(2))+
  then have "crc (pre @ w @ q) = crc (pre @ w' @ q)"
    by (metis read_write_u32_be_only)
  with assms(1,2) show ?thesis by (rule burst)
qed

lemma sealed_trailer_damage:
  assumes "length w = length w'" and "length w + length post \<le> 4"
    and "pre @ w @ post = body @ write_u32_be (crc body)"
    and "pre @ w' @ post = body' @ write_u32_be (crc body')"
  shows "w = w'"
proof -
  have "length body = length body'"
    using assms(1) assms(3,4) [THEN arg_cong [where f = length]] by simp
  moreover have "length body \<le> length pre"
    using assms(2) assms(3) [THEN arg_cong [where f = length]] by simp
  ultimately have "body = body'"
    using assms(3,4) [THEN arg_cong [where f = "take (length body)"]] by simp
  with assms(1,3,4) show ?thesis
    by (metis append_eq_append_conv append_same_eq same_append_eq)
qed

end

end
