(* ===== verification/Crc32c.thy ===== *)
theory Crc32c
  imports Pbns_Prelude
begin

text \<open>
  The table-driven CRC-32C of \<open>src/core/crc32c.c\<close> (\<open>crc32c_table\<close>, \<open>crc32c_update\<close> for the body
  of its loop, \<open>pbns_crc32c\<close>), a bit-serial reference (\<open>crc32c_bit\<close>, \<open>crc32c_ref\<close>) with the
  reflected Castagnoli polynomial, and what the integrity checks of the record formats
  rely on: the table computes the reference, and two messages of the same length that
  differ only within a window of four bytes have different check values.
\<close>

subsection \<open>The code\<close>

definition crc32c_table :: "u32 list" where
  "crc32c_table =
     [0x00000000, 0xf26b8303, 0xe13b70f7, 0x1350f3f4,
      0xc79a971f, 0x35f1141c, 0x26a1e7e8, 0xd4ca64eb,
      0x8ad958cf, 0x78b2dbcc, 0x6be22838, 0x9989ab3b,
      0x4d43cfd0, 0xbf284cd3, 0xac78bf27, 0x5e133c24,
      0x105ec76f, 0xe235446c, 0xf165b798, 0x030e349b,
      0xd7c45070, 0x25afd373, 0x36ff2087, 0xc494a384,
      0x9a879fa0, 0x68ec1ca3, 0x7bbcef57, 0x89d76c54,
      0x5d1d08bf, 0xaf768bbc, 0xbc267848, 0x4e4dfb4b,
      0x20bd8ede, 0xd2d60ddd, 0xc186fe29, 0x33ed7d2a,
      0xe72719c1, 0x154c9ac2, 0x061c6936, 0xf477ea35,
      0xaa64d611, 0x580f5512, 0x4b5fa6e6, 0xb93425e5,
      0x6dfe410e, 0x9f95c20d, 0x8cc531f9, 0x7eaeb2fa,
      0x30e349b1, 0xc288cab2, 0xd1d83946, 0x23b3ba45,
      0xf779deae, 0x05125dad, 0x1642ae59, 0xe4292d5a,
      0xba3a117e, 0x4851927d, 0x5b016189, 0xa96ae28a,
      0x7da08661, 0x8fcb0562, 0x9c9bf696, 0x6ef07595,
      0x417b1dbc, 0xb3109ebf, 0xa0406d4b, 0x522bee48,
      0x86e18aa3, 0x748a09a0, 0x67dafa54, 0x95b17957,
      0xcba24573, 0x39c9c670, 0x2a993584, 0xd8f2b687,
      0x0c38d26c, 0xfe53516f, 0xed03a29b, 0x1f682198,
      0x5125dad3, 0xa34e59d0, 0xb01eaa24, 0x42752927,
      0x96bf4dcc, 0x64d4cecf, 0x77843d3b, 0x85efbe38,
      0xdbfc821c, 0x2997011f, 0x3ac7f2eb, 0xc8ac71e8,
      0x1c661503, 0xee0d9600, 0xfd5d65f4, 0x0f36e6f7,
      0x61c69362, 0x93ad1061, 0x80fde395, 0x72966096,
      0xa65c047d, 0x5437877e, 0x4767748a, 0xb50cf789,
      0xeb1fcbad, 0x197448ae, 0x0a24bb5a, 0xf84f3859,
      0x2c855cb2, 0xdeeedfb1, 0xcdbe2c45, 0x3fd5af46,
      0x7198540d, 0x83f3d70e, 0x90a324fa, 0x62c8a7f9,
      0xb602c312, 0x44694011, 0x5739b3e5, 0xa55230e6,
      0xfb410cc2, 0x092a8fc1, 0x1a7a7c35, 0xe811ff36,
      0x3cdb9bdd, 0xceb018de, 0xdde0eb2a, 0x2f8b6829,
      0x82f63b78, 0x709db87b, 0x63cd4b8f, 0x91a6c88c,
      0x456cac67, 0xb7072f64, 0xa457dc90, 0x563c5f93,
      0x082f63b7, 0xfa44e0b4, 0xe9141340, 0x1b7f9043,
      0xcfb5f4a8, 0x3dde77ab, 0x2e8e845f, 0xdce5075c,
      0x92a8fc17, 0x60c37f14, 0x73938ce0, 0x81f80fe3,
      0x55326b08, 0xa759e80b, 0xb4091bff, 0x466298fc,
      0x1871a4d8, 0xea1a27db, 0xf94ad42f, 0x0b21572c,
      0xdfeb33c7, 0x2d80b0c4, 0x3ed04330, 0xccbbc033,
      0xa24bb5a6, 0x502036a5, 0x4370c551, 0xb11b4652,
      0x65d122b9, 0x97baa1ba, 0x84ea524e, 0x7681d14d,
      0x2892ed69, 0xdaf96e6a, 0xc9a99d9e, 0x3bc21e9d,
      0xef087a76, 0x1d63f975, 0x0e330a81, 0xfc588982,
      0xb21572c9, 0x407ef1ca, 0x532e023e, 0xa145813d,
      0x758fe5d6, 0x87e466d5, 0x94b49521, 0x66df1622,
      0x38cc2a06, 0xcaa7a905, 0xd9f75af1, 0x2b9cd9f2,
      0xff56bd19, 0x0d3d3e1a, 0x1e6dcdee, 0xec064eed,
      0xc38d26c4, 0x31e6a5c7, 0x22b65633, 0xd0ddd530,
      0x0417b1db, 0xf67c32d8, 0xe52cc12c, 0x1747422f,
      0x49547e0b, 0xbb3ffd08, 0xa86f0efc, 0x5a048dff,
      0x8ecee914, 0x7ca56a17, 0x6ff599e3, 0x9d9e1ae0,
      0xd3d3e1ab, 0x21b862a8, 0x32e8915c, 0xc083125f,
      0x144976b4, 0xe622f5b7, 0xf5720643, 0x07198540,
      0x590ab964, 0xab613a67, 0xb831c993, 0x4a5a4a90,
      0x9e902e7b, 0x6cfbad78, 0x7fab5e8c, 0x8dc0dd8f,
      0xe330a81a, 0x115b2b19, 0x020bd8ed, 0xf0605bee,
      0x24aa3f05, 0xd6c1bc06, 0xc5914ff2, 0x37faccf1,
      0x69e9f0d5, 0x9b8273d6, 0x88d28022, 0x7ab90321,
      0xae7367ca, 0x5c18e4c9, 0x4f48173d, 0xbd23943e,
      0xf36e6f75, 0x0105ec76, 0x12551f82, 0xe03e9c81,
      0x34f4f86a, 0xc69f7b69, 0xd5cf889d, 0x27a40b9e,
      0x79b737ba, 0x8bdcb4b9, 0x988c474d, 0x6ae7c44e,
      0xbe2da0a5, 0x4c4623a6, 0x5f16d052, 0xad7d5351]"

definition crc32c_update :: "u32 \<Rightarrow> byte \<Rightarrow> u32" where
  "crc32c_update crc b =
     (let table_index = (ucast (crc XOR ucast b) :: byte)
      in (crc32c_table ! unat table_index) XOR drop_bit 8 crc)"

definition pbns_crc32c :: "pbns_view \<Rightarrow> u32" where
  "pbns_crc32c input =
     (if v_ptr input = 0 \<and> v_len input \<noteq> 0 then 0
      else NOT (foldl crc32c_update 0xffffffff (v_bytes input)))"

text \<open>The check value of a range of memory, as the callers use it (the pointer is not null).\<close>

abbreviation crc32c :: "bytes \<Rightarrow> u32" where
  "crc32c bs \<equiv> pbns_crc32c \<lparr>v_ptr = 1, v_bytes = bs\<rparr>"

subsection \<open>The bit-serial reference\<close>

definition crc32c_bit :: "u32 \<Rightarrow> u32" where
  "crc32c_bit c = (if bit c 0 then drop_bit 1 c XOR 0x82f63b78 else drop_bit 1 c)"

definition crc32c_byte :: "u32 \<Rightarrow> byte \<Rightarrow> u32" where
  "crc32c_byte c b = (crc32c_bit ^^ 8) (c XOR ucast b)"

definition crc32c_ref :: "bytes \<Rightarrow> u32" where
  "crc32c_ref bs = NOT (foldl crc32c_byte (NOT 0) bs)"

text \<open>The bytes of an error pattern as one word, the first byte in the low bits.\<close>

primrec le_word :: "bytes \<Rightarrow> u32" where
  "le_word [] = 0"
| "le_word (b # bs) = ucast b XOR push_bit 8 (le_word bs)"

subsection \<open>The reference is linear and injective\<close>

lemma xor_right_cancel: "(a :: 'a :: len word) XOR c = b XOR c \<longleftrightarrow> a = b"
  by (metis xor.assoc xor.right_neutral xor_self_eq)

lemma crc32c_bit_xor: "crc32c_bit (a XOR b) = crc32c_bit a XOR crc32c_bit b"
  by (rule bit_word_eqI) (auto simp: crc32c_bit_def bit_simps)

lemma crc32c_bit_funpow_xor: "(crc32c_bit ^^ k) (a XOR b) = (crc32c_bit ^^ k) a XOR (crc32c_bit ^^ k) b"
  by (induction k) (simp_all add: crc32c_bit_xor)

lemma crc32c_bit_top: "bit (crc32c_bit c) 31 = bit c 0"
  by (auto simp: crc32c_bit_def bit_simps dest: bit_imp_le_length)

lemma drop_bit_1_eqI:
  assumes "drop_bit 1 a = drop_bit 1 b" "bit a 0 = bit b 0"
  shows "a = (b :: 'a :: len word)"
proof (rule bit_word_eqI)
  fix n
  have "bit (drop_bit 1 a) k = bit (drop_bit 1 b) k" for k by (simp only: assms(1))
  then show "bit a n = bit b n" using assms(2) by (cases n) (auto simp: bit_drop_bit_eq)
qed

lemma crc32c_bit_inj: "inj crc32c_bit"
proof (rule injI)
  fix a b assume eq: "crc32c_bit a = crc32c_bit b"
  then have low: "bit a 0 = bit b 0" using crc32c_bit_top [of a] crc32c_bit_top [of b] by simp
  with eq have "drop_bit 1 a = drop_bit 1 b"
    by (simp add: crc32c_bit_def xor_right_cancel split: if_splits)
  then show "a = b" using low by (rule drop_bit_1_eqI)
qed

lemma crc32c_bit_shift: "\<not> bit c 0 \<Longrightarrow> crc32c_bit c = drop_bit 1 c"
  by (simp add: crc32c_bit_def)

lemma crc32c_bit_funpow_shift:
  "k \<le> m \<Longrightarrow> (\<And>n. n < m \<Longrightarrow> \<not> bit c n) \<Longrightarrow> (crc32c_bit ^^ k) c = drop_bit k c"
proof (induction k)
  case (Suc k)
  then have "(crc32c_bit ^^ k) c = drop_bit k c" by simp
  moreover have "\<not> bit (drop_bit k c) 0" using Suc.prems by (simp add: bit_simps)
  ultimately show ?case by (simp add: crc32c_bit_shift)
qed simp

lemma crc32c_bit_chain:
  "crc32c_bit 1 = 0x82f63b78"
  "crc32c_bit 0x82f63b78 = 0x417b1dbc"
  "crc32c_bit 0x417b1dbc = 0x20bd8ede"
  "crc32c_bit 0x20bd8ede = 0x105ec76f"
  "crc32c_bit 0x105ec76f = 0x8ad958cf"
  "crc32c_bit 0x8ad958cf = 0xc79a971f"
  "crc32c_bit 0xc79a971f = 0xe13b70f7"
  "crc32c_bit 0xe13b70f7 = 0xf26b8303"
  "crc32c_bit 128 = 64"
  "crc32c_bit 64 = 32"
  "crc32c_bit 32 = 16"
  "crc32c_bit 16 = 8"
  "crc32c_bit 8 = 4"
  "crc32c_bit 4 = 2"
  "crc32c_bit 2 = 1"
  by (simp_all add: crc32c_bit_def)

lemma funpow_8: "(f ^^ 8) x = f (f (f (f (f (f (f (f x)))))))"
  by (simp add: numeral_eq_Suc)

lemma crc32c_table_power: "j < 8 \<Longrightarrow> crc32c_table ! (2 ^ j) = (crc32c_bit ^^ 8) (2 ^ j)"
proof -
  assume "j < 8"
  then consider "j = 0" | "j = 1" | "j = 2" | "j = 3" | "j = 4" | "j = 5" | "j = 6" | "j = 7"
    by linarith
  then show ?thesis
    by cases (simp_all add: funpow_8 crc32c_bit_chain crc32c_table_def)
qed

lemma word_low_split: "m < 2 ^ j \<Longrightarrow> (of_nat (2 ^ j + m) :: 'a :: len word) = 2 ^ j XOR of_nat m"
proof -
  assume "m < 2 ^ j"
  then have "\<not> bit m j" by (simp add: bit_iff_odd)
  then have "(2 ^ j + of_nat m :: 'a word) = 2 ^ j XOR of_nat m"
    by (intro disjunctive_add_eq_xor bit_word_eqI) (auto simp: bit_simps)
  then show ?thesis by simp
qed

lemma length_crc32c_table: "length crc32c_table = 256"
  by (simp add: crc32c_table_def)

lemma crc32c_table_double_0:
  "take 1 (drop 1 crc32c_table) = map (\<lambda>x. crc32c_table ! 1 XOR x) (take 1 crc32c_table)"
  by (simp add: crc32c_table_def)

lemma crc32c_table_double_1:
  "take 2 (drop 2 crc32c_table) = map (\<lambda>x. crc32c_table ! 2 XOR x) (take 2 crc32c_table)"
  by (simp add: crc32c_table_def)

lemma crc32c_table_double_2:
  "take 4 (drop 4 crc32c_table) = map (\<lambda>x. crc32c_table ! 4 XOR x) (take 4 crc32c_table)"
  by (simp add: crc32c_table_def)

lemma crc32c_table_double_3:
  "take 8 (drop 8 crc32c_table) = map (\<lambda>x. crc32c_table ! 8 XOR x) (take 8 crc32c_table)"
  by (simp add: crc32c_table_def)

lemma crc32c_table_double_4:
  "take 16 (drop 16 crc32c_table) = map (\<lambda>x. crc32c_table ! 16 XOR x) (take 16 crc32c_table)"
  by (simp add: crc32c_table_def)

lemma crc32c_table_double_5:
  "take 32 (drop 32 crc32c_table) = map (\<lambda>x. crc32c_table ! 32 XOR x) (take 32 crc32c_table)"
  by (simp add: crc32c_table_def)

lemma crc32c_table_double_6:
  "take 64 (drop 64 crc32c_table) = map (\<lambda>x. crc32c_table ! 64 XOR x) (take 64 crc32c_table)"
  by (simp add: crc32c_table_def)

lemma crc32c_table_double_7:
  "take 128 (drop 128 crc32c_table) = map (\<lambda>x. crc32c_table ! 128 XOR x) (take 128 crc32c_table)"
  by (simp add: crc32c_table_def)

lemma crc32c_table_double:
  assumes "j < 8" "m < 2 ^ j"
  shows "crc32c_table ! (2 ^ j + m) = crc32c_table ! (2 ^ j) XOR crc32c_table ! m"
proof -
  have "take (2 ^ j) (drop (2 ^ j) crc32c_table) = map (\<lambda>x. crc32c_table ! (2 ^ j) XOR x) (take (2 ^ j) crc32c_table)"
  proof -
    from \<open>j < 8\<close> consider "j = 0" | "j = 1" | "j = 2" | "j = 3" | "j = 4" | "j = 5" | "j = 6" | "j = 7"
      by linarith
    then show ?thesis
    proof cases
      case 1
      then show ?thesis using crc32c_table_double_0 by simp
    next
      case 2
      then show ?thesis using crc32c_table_double_1 by simp
    next
      case 3
      then show ?thesis using crc32c_table_double_2 by simp
    next
      case 4
      then show ?thesis using crc32c_table_double_3 by simp
    next
      case 5
      then show ?thesis using crc32c_table_double_4 by simp
    next
      case 6
      then show ?thesis using crc32c_table_double_5 by simp
    next
      case 7
      then show ?thesis using crc32c_table_double_6 by simp
    next
      case 8
      then show ?thesis using crc32c_table_double_7 by simp
    qed
  qed
  then have "take (2 ^ j) (drop (2 ^ j) crc32c_table) ! m =
      map (\<lambda>x. crc32c_table ! (2 ^ j) XOR x) (take (2 ^ j) crc32c_table) ! m"
    by simp
  moreover have "2 ^ j + m < 256"
  proof -
    have "(2::nat) ^ j \<le> 2 ^ 7" using \<open>j < 8\<close> by (intro power_increasing) auto
    with \<open>m < 2 ^ j\<close> show ?thesis by simp
  qed
  ultimately show ?thesis using \<open>m < 2 ^ j\<close> by (simp add: length_crc32c_table)
qed

lemma crc32c_table_bits_below: "j \<le> 8 \<Longrightarrow> i < 2 ^ j \<Longrightarrow> crc32c_table ! i = (crc32c_bit ^^ 8) (of_nat i)"
proof (induction j arbitrary: i)
  case 0
  then show ?case by (simp add: crc32c_table_def crc32c_bit_funpow_shift [where m = 8])
next
  case (Suc j)
  show ?case
  proof (cases "i < 2 ^ j")
    case True
    with Suc show ?thesis by simp
  next
    case False
    then obtain m where i: "i = 2 ^ j + m" using le_Suc_ex not_less by blast
    with Suc.prems have m: "m < 2 ^ j" by simp
    have "crc32c_table ! i = crc32c_table ! (2 ^ j) XOR crc32c_table ! m"
      unfolding i using Suc.prems m by (intro crc32c_table_double) auto
    also have "\<dots> = (crc32c_bit ^^ 8) (2 ^ j) XOR (crc32c_bit ^^ 8) (of_nat m)"
      using Suc m by (simp add: crc32c_table_power)
    also have "\<dots> = (crc32c_bit ^^ 8) (of_nat i)"
      unfolding i word_low_split [OF m] crc32c_bit_funpow_xor ..
    finally show ?thesis .
  qed
qed

lemma crc32c_table_entry: "crc32c_table ! unat (b :: byte) = (crc32c_bit ^^ 8) (ucast b)"
proof -
  have "unat b < 2 ^ 8" using unsigned_less [of b] by simp
  from crc32c_table_bits_below [OF order_refl this] show ?thesis
    by simp
qed

lemma word_split_low_byte: "(x :: u32) = ucast (ucast x :: byte) XOR push_bit 8 (drop_bit 8 x)"
  by (rule bit_word_eqI) (auto simp: bit_simps not_less)

lemma crc32c_update_byte: "crc32c_update c b = crc32c_byte c b"
proof -
  let ?x = "c XOR ucast b"
  have "(crc32c_bit ^^ 8) ?x =
      (crc32c_bit ^^ 8) (ucast (ucast ?x :: byte)) XOR (crc32c_bit ^^ 8) (push_bit 8 (drop_bit 8 ?x))"
    by (subst word_split_low_byte [of ?x]) (simp only: crc32c_bit_funpow_xor)
  also have "(crc32c_bit ^^ 8) (push_bit 8 (drop_bit 8 ?x)) = drop_bit 8 (push_bit 8 (drop_bit 8 ?x))"
    by (rule crc32c_bit_funpow_shift [where m = 8]) (auto simp: bit_simps)
  also have "\<dots> = drop_bit 8 c"
    by (rule bit_word_eqI) (auto simp: bit_simps dest: bit_imp_le_length)
  finally show ?thesis
    by (simp add: crc32c_update_def crc32c_byte_def Let_def crc32c_table_entry)
qed

lemma foldl_update_byte: "foldl crc32c_update c bs = foldl crc32c_byte c bs"
proof -
  have "crc32c_update = crc32c_byte" by (intro ext crc32c_update_byte)
  then show ?thesis by simp
qed

lemma ucast_u32_inj: "(ucast (a :: byte) :: u32) = ucast b \<longleftrightarrow> a = b"
proof
  have id: "ucast (ucast x :: u32) = x" for x :: byte
    by (rule bit_word_eqI) (simp add: bit_simps)
  assume "(ucast a :: u32) = ucast b"
  then have "(ucast (ucast a :: u32) :: byte) = ucast (ucast b :: u32)" by (simp only:)
  then show "a = b" by (simp only: id)
qed simp

lemma crc32c_byte_inj_crc: "crc32c_byte c b = crc32c_byte d b \<longleftrightarrow> c = d"
  using inj_fn [OF crc32c_bit_inj, of 8] by (auto simp: crc32c_byte_def inj_eq xor_right_cancel)

lemma crc32c_byte_inj_byte: "crc32c_byte c a = crc32c_byte c b \<longleftrightarrow> a = b"
proof -
  have "crc32c_byte c a = crc32c_byte c b \<longleftrightarrow> (ucast a :: u32) = ucast b"
    using inj_fn [OF crc32c_bit_inj, of 8]
    by (auto simp: crc32c_byte_def inj_eq xor.commute [of c] xor_right_cancel)
  then show ?thesis by (simp add: ucast_u32_inj)
qed

lemma crc32c_foldl_inj: "foldl crc32c_byte c bs = foldl crc32c_byte d bs \<longleftrightarrow> c = d"
  by (induction bs arbitrary: c d) (simp_all add: crc32c_byte_inj_crc)

lemma ones_u32: "(0xffffffff :: u32) = - 1"
  by simp

lemma pbns_crc32c_ref: "v_ptr v \<noteq> 0 \<Longrightarrow> pbns_crc32c v = crc32c_ref (v_bytes v)"
  by (simp add: pbns_crc32c_def crc32c_ref_def foldl_update_byte ones_u32)

subsection \<open>Short error patterns\<close>

lemma le_word_bound: "bit (le_word bs) n \<Longrightarrow> n < 8 * length bs"
proof (induction bs arbitrary: n)
  case (Cons b bs)
  then show ?case
    by (fastforce simp: bit_simps dest: bit_imp_le_length)
qed simp

lemma crc32c_shift_in:
  assumes "length bs \<le> 3"
  shows "(crc32c_bit ^^ 8) (push_bit 8 (le_word bs)) = le_word bs"
proof -
  have "(crc32c_bit ^^ 8) (push_bit 8 (le_word bs)) = drop_bit 8 (push_bit 8 (le_word bs))"
    by (rule crc32c_bit_funpow_shift [where m = 8]) (auto simp: bit_simps)
  also have "\<dots> = le_word bs"
    by (rule bit_word_eqI) (use assms in \<open>auto simp: bit_simps dest: le_word_bound\<close>)
  finally show ?thesis .
qed

lemma crc32c_foldl_word:
  "length bs \<le> 4 \<Longrightarrow> foldl crc32c_byte c bs = (crc32c_bit ^^ (8 * length bs)) (c XOR le_word bs)"
proof (induction bs arbitrary: c)
  case (Cons b bs)
  have "foldl crc32c_byte c (b # bs) = (crc32c_bit ^^ (8 * length bs)) (crc32c_byte c b XOR le_word bs)"
    using Cons by simp
  also have "crc32c_byte c b XOR le_word bs = (crc32c_bit ^^ 8) (c XOR ucast b XOR push_bit 8 (le_word bs))"
    using Cons.prems by (simp add: crc32c_byte_def crc32c_bit_funpow_xor crc32c_shift_in xor.assoc)
  finally show ?case
    by (simp add: funpow_add add.commute [of 8] xor.assoc)
qed simp

lemma ucast_xor_push_inj:
  assumes "ucast (a :: byte) XOR push_bit 8 x = (ucast b XOR push_bit 8 y :: u32)"
  shows "a = b \<and> push_bit 8 x = push_bit 8 y"
proof -
  have "(ucast (ucast a XOR push_bit 8 x :: u32) :: byte) = ucast (ucast b XOR push_bit 8 y :: u32)"
    by (simp only: assms)
  moreover have "(ucast (ucast z XOR push_bit 8 w :: u32) :: byte) = z" for z w
    by (rule bit_word_eqI) (auto simp: bit_simps)
  ultimately have "a = b" by (simp only:)
  with assms show ?thesis by (simp add: xor.commute [of "ucast b"] xor_right_cancel)
qed

lemma le_word_inj: "length bs = length cs \<Longrightarrow> length bs \<le> 4 \<Longrightarrow> le_word bs = le_word cs \<longleftrightarrow> bs = cs"
proof (induction bs cs rule: list_induct2)
  case (Cons b bs c cs)
  have "le_word bs = le_word cs" if "push_bit 8 (le_word bs) = push_bit 8 (le_word cs)"
  proof -
    have "(crc32c_bit ^^ 8) (push_bit 8 (le_word bs)) = (crc32c_bit ^^ 8) (push_bit 8 (le_word cs))"
      by (simp only: that)
    then show ?thesis using Cons by (simp add: crc32c_shift_in)
  qed
  with Cons show ?case by (auto dest: ucast_xor_push_inj)
qed simp

lemma crc32c_ref_burst:
  assumes "length w = length w'" "length w \<le> 4"
  shows "crc32c_ref (pre @ w @ post) = crc32c_ref (pre @ w' @ post) \<longleftrightarrow> w = w'"
proof -
  have inj: "(crc32c_bit ^^ k) x = (crc32c_bit ^^ k) y \<longleftrightarrow> x = y" for k x y
    using inj_fn [OF crc32c_bit_inj, of k] by (simp add: inj_eq)
  have "crc32c_ref (pre @ w @ post) = crc32c_ref (pre @ w' @ post) \<longleftrightarrow> le_word w = le_word w'"
    using assms
    by (simp add: crc32c_ref_def crc32c_foldl_inj crc32c_foldl_word inj
        xor.commute [of "foldl crc32c_byte (- 1) pre"] xor_right_cancel)
  then show ?thesis using le_word_inj assms by simp
qed

lemma crc32c_any_ptr: "p \<noteq> 0 \<Longrightarrow> pbns_crc32c \<lparr>v_ptr = p, v_bytes = bs\<rparr> = crc32c bs"
  by (simp add: pbns_crc32c_ref)

text \<open>The checksum provides what the sealed record formats rely on.\<close>

interpretation crc_seal: checksum "\<lambda>bs. crc32c bs"
  by unfold_locales (simp add: pbns_crc32c_ref crc32c_ref_burst)

subsection \<open>Properties\<close>

text \<open>C39: on every view the table-driven code computes the bit-serial CRC-32C of the bytes;
  the one exception is a null pointer with a non-zero length, for which it returns 0.\<close>

theorem pbns_crc32c_correct:
  "pbns_crc32c input = (if view_is_valid input then crc32c_ref (v_bytes input) else 0)"
proof (cases "v_bytes input = []")
  case True
  then show ?thesis
    by (simp add: view_is_valid_def pbns_crc32c_def crc32c_ref_def ones_u32)
next
  case False
  then show ?thesis
    by (simp add: view_is_valid_def pbns_crc32c_ref) (simp add: pbns_crc32c_def)
qed

text \<open>C40: a message damaged in at most four consecutive bytes never keeps its check value.\<close>

theorem pbns_crc32c_detects_burst:
  assumes "length w = length w'" and "length w \<le> 4" and "p \<noteq> 0"
  shows "pbns_crc32c \<lparr>v_ptr = p, v_bytes = pre @ w @ post\<rparr> =
         pbns_crc32c \<lparr>v_ptr = p, v_bytes = pre @ w' @ post\<rparr> \<longleftrightarrow> w = w'"
  using assms crc32c_ref_burst [of w w' pre post] by (simp add: pbns_crc32c_ref)

theorem pbns_crc32c_detects_burst_witness:
  "pbns_crc32c \<lparr>v_ptr = 64, v_bytes = [7] @ [1, 2] @ [9]\<rparr> \<noteq>
   pbns_crc32c \<lparr>v_ptr = 64, v_bytes = [7] @ [1, 3] @ [9]\<rparr>"
proof -
  have "pbns_crc32c \<lparr>v_ptr = 64, v_bytes = [7] @ [1, 2] @ [9]\<rparr> =
      pbns_crc32c \<lparr>v_ptr = 64, v_bytes = [7] @ [1, 3] @ [9]\<rparr> \<longleftrightarrow> [1, 2 :: byte] = [1, 3]"
    by (rule pbns_crc32c_detects_burst) simp_all
  then show ?thesis by simp
qed

end
