(* ===== verification/Cobs.thy ===== *)
theory Cobs
  imports Pbns_Prelude
begin

text \<open>
  Consistent overhead byte stuffing, \<open>src/core/cobs.c\<close>: the size bound, the encoder and the
  decoder, in terms of the memory of the output buffer.  The loops recurse on the input that
  is still to be read; \<open>write_index\<close>, \<open>code_index\<close> and \<open>code\<close> are the variables of the C code.
  The C functions do not check for an overlap of input and output; the model takes them to be
  distinct memory, as \<open>src/core/frame.c\<close> enforces when it encodes and as the broker's disjoint
  buffers give when it decodes.

  The reference encoding \<open>cobs_stuff\<close> and decoding \<open>cobs_destuff\<close> are free of memory and
  indices.  The lemmas show that the C loops implement them exactly, that the encoding has no
  zero byte and the announced size, and that decoding inverts encoding.
\<close>

subsection \<open>The operations\<close>

definition pbns_cobs_max_encoded_size :: "nat \<Rightarrow> nat ptr \<Rightarrow> pbns_status \<times> nat ptr" where
  "pbns_cobs_max_encoded_size input_len result =
     (case result of
        None \<Rightarrow> (PBNS_ERR_ARGUMENT, None)
      | Some _ \<Rightarrow>
          (let overhead = input_len div 254 + 1
           in if input_len > SIZE_MAX - overhead then (PBNS_ERR_LIMIT, Some 0)
              else (PBNS_OK, Some (input_len + overhead))))"

fun cobs_encode_loop :: "bytes \<Rightarrow> nat \<Rightarrow> nat \<Rightarrow> byte \<Rightarrow> bytes \<Rightarrow> pbns_status \<times> nat \<times> nat \<times> byte \<times> bytes" where
  "cobs_encode_loop [] write_index code_index code out = (PBNS_OK, write_index, code_index, code, out)"
| "cobs_encode_loop (x # input) write_index code_index code out =
     (if x = 0 then
        let out = out[code_index := code]
        in if write_index \<ge> length out then (PBNS_ERR_LIMIT, write_index, write_index, 1, out)
           else cobs_encode_loop input (write_index + 1) write_index 1 out
      else if write_index \<ge> length out then (PBNS_ERR_LIMIT, write_index, code_index, code, out)
      else
        let out = out[write_index := x]; write_index = write_index + 1; code = code + 1
        in if code = 255 then
             let out = out[code_index := code]
             in if write_index \<ge> length out then (PBNS_ERR_LIMIT, write_index, write_index, 1, out)
                else cobs_encode_loop input (write_index + 1) write_index 1 out
           else cobs_encode_loop input write_index code_index code out)"

definition pbns_cobs_encode :: "pbns_view \<Rightarrow> pbns_buffer \<Rightarrow> nat ptr \<Rightarrow> pbns_status \<times> bytes \<times> nat ptr" where
  "pbns_cobs_encode input output written =
     (case written of
        None \<Rightarrow> (PBNS_ERR_ARGUMENT, b_mem output, None)
      | Some _ \<Rightarrow>
          if \<not> view_is_valid input \<or> \<not> buffer_is_valid output then (PBNS_ERR_ARGUMENT, b_mem output, Some 0)
          else if b_cap output = 0 then (PBNS_ERR_LIMIT, b_mem output, Some 0)
          else
            (case cobs_encode_loop (v_bytes input) 1 0 1 (b_mem output) of
               (status, write_index, code_index, code, out) \<Rightarrow>
                 if status \<noteq> PBNS_OK then (status, out, Some 0)
                 else (PBNS_OK, out[code_index := code], Some write_index)))"

fun cobs_copy_run :: "bytes \<Rightarrow> nat \<Rightarrow> bytes \<Rightarrow> pbns_status \<times> bytes" where
  "cobs_copy_run [] write_index out = (PBNS_OK, out)"
| "cobs_copy_run (value # run) write_index out =
     (if value = 0 then (PBNS_ERR_FORMAT, out)
      else cobs_copy_run run (write_index + 1) (out[write_index := value]))"

function cobs_decode_loop :: "bytes \<Rightarrow> nat \<Rightarrow> bytes \<Rightarrow> pbns_status \<times> nat \<times> bytes" where
  "cobs_decode_loop [] write_index out = (PBNS_OK, write_index, out)"
| "cobs_decode_loop (code # input) write_index out =
     (if code = 0 then (PBNS_ERR_FORMAT, write_index, out)
      else
        let run_length = unat code - 1
        in if run_length > length input then (PBNS_ERR_FORMAT, write_index, out)
           else if run_length > length out - write_index then (PBNS_ERR_LIMIT, write_index, out)
           else
             case cobs_copy_run (take run_length input) write_index out of
               (status, out) \<Rightarrow>
                 if status \<noteq> PBNS_OK then (status, write_index, out)
                 else
                   let input = drop run_length input; write_index = write_index + run_length
                   in if code \<noteq> 255 \<and> input \<noteq> [] then
                        if write_index \<ge> length out then (PBNS_ERR_LIMIT, write_index, out)
                        else cobs_decode_loop input (write_index + 1) (out[write_index := 0])
                      else cobs_decode_loop input write_index out)"
  by pat_completeness auto
termination
  by (relation "measure (\<lambda>(input, _, _). length input)") auto

definition pbns_cobs_decode :: "pbns_view \<Rightarrow> pbns_buffer \<Rightarrow> nat ptr \<Rightarrow> pbns_status \<times> bytes \<times> nat ptr" where
  "pbns_cobs_decode input output written =
     (case written of
        None \<Rightarrow> (PBNS_ERR_ARGUMENT, b_mem output, None)
      | Some _ \<Rightarrow>
          if \<not> view_is_valid input \<or> \<not> buffer_is_valid output then (PBNS_ERR_ARGUMENT, b_mem output, Some 0)
          else if v_len input = 0 then (PBNS_ERR_FORMAT, b_mem output, Some 0)
          else
            (case cobs_decode_loop (v_bytes input) 0 (b_mem output) of
               (status, write_index, out) \<Rightarrow>
                 if status \<noteq> PBNS_OK then (status, out, Some 0)
                 else (PBNS_OK, out, Some write_index)))"

subsection \<open>Reference encoding and decoding\<close>

text \<open>\<open>cobs_stuff run input\<close> encodes \<open>run @ input\<close>, where \<open>run\<close> is the current block.\<close>

function cobs_stuff :: "bytes \<Rightarrow> bytes \<Rightarrow> bytes" where
  "cobs_stuff run [] = of_nat (length run + 1) # run"
| "cobs_stuff run (x # xs) =
     (if x = 0 then of_nat (length run + 1) # run @ cobs_stuff [] xs
      else if length run = 253 then 255 # run @ x # cobs_stuff [] xs
      else cobs_stuff (run @ [x]) xs)"
  by pat_completeness auto
termination by (relation "measure (\<lambda>(run, xs). length xs)") auto

function cobs_destuff :: "bytes \<Rightarrow> bytes option" where
  "cobs_destuff [] = Some []"
| "cobs_destuff (code # input) =
     (let n = unat code - 1; run = take n input; rest = drop n input
      in if code = 0 \<or> length input < n \<or> 0 \<in> set run then None
         else map_option (\<lambda>d. run @ (if code \<noteq> 255 \<and> rest \<noteq> [] then [0] else []) @ d) (cobs_destuff rest))"
  by pat_completeness auto
termination by (relation "measure length") auto

subsection \<open>The encoder implements the reference encoding\<close>

lemma length_cobs_stuff_ge: "length run < length (cobs_stuff run input)"
  by (induction run input rule: cobs_stuff.induct) auto

lemma cobs_stuff_drop_Cons: "drop (length (cobs_stuff run input)) (x # xs) = drop (length (cobs_stuff run input) - 1) xs"
  using length_cobs_stuff_ge [of run input] by (cases "cobs_stuff run input") simp_all

lemma cobs_code_eq_255: "n \<le> 253 \<Longrightarrow> (of_nat n :: byte) = 253 \<longleftrightarrow> n = 253"
  by (auto simp: word_unat_eq_iff unat_of_nat take_bit_eq_mod)

lemma cobs_encode_loop_ok:
  assumes "length run \<le> 253" and "length (cobs_stuff run input) \<le> 1 + length run + length rest"
  shows "\<exists>ci co out'.
    cobs_encode_loop input (length pre + 1 + length run) (length pre) (of_nat (length run + 1)) (pre @ c # run @ rest) =
      (PBNS_OK, length pre + length (cobs_stuff run input), ci, co, out') \<and>
    out'[ci := co] = pre @ cobs_stuff run input @ drop (length (cobs_stuff run input) - 1 - length run) rest"
  using assms
proof (induction run input arbitrary: pre c rest rule: cobs_stuff.induct)
  case (1 run)
  then show ?case by (simp add: list_update_append)
next
  case (2 run x xs)
  show ?case
  proof (cases "x = 0")
    case True
    with "2.prems" length_cobs_stuff_ge [of "[]" xs] obtain r rest' where rest: "rest = r # rest'"
      by (cases rest) auto
    from "2.IH"(1) [OF True, of rest' "pre @ of_nat (length run + 1) # run" r] "2.prems" True
    show ?thesis by (simp add: rest list_update_append Let_def algebra_simps cobs_stuff_drop_Cons)
  next
    case False
    with "2.prems" length_cobs_stuff_ge [of "[]" xs] length_cobs_stuff_ge [of "run @ [x]" xs]
    obtain r rest' where rest: "rest = r # rest'"
      by (cases rest) (auto split: if_splits)
    show ?thesis
    proof (cases "length run = 253")
      case full: True
      with "2.prems" False length_cobs_stuff_ge [of "[]" xs] obtain q rest'' where rest': "rest' = q # rest''"
        by (cases rest') (auto simp: rest)
      from "2.IH"(2) [OF False full, of rest'' "pre @ 255 # run @ [x]" q] "2.prems" False full
      show ?thesis
        by (simp add: rest rest' list_update_append Let_def cobs_code_eq_255 algebra_simps cobs_stuff_drop_Cons)
    next
      case part: False
      from "2.IH"(3) [OF False part, of rest' pre c] "2.prems" False part length_cobs_stuff_ge [of "run @ [x]" xs]
      show ?thesis
        by (simp add: rest list_update_append Let_def cobs_code_eq_255 algebra_simps drop_Cons')
    qed
  qed
qed

lemma cobs_encode_loop_limit:
  assumes "length run \<le> 253" and "1 + length run + length rest < length (cobs_stuff run input)"
  shows "\<exists>wi ci co out'.
    cobs_encode_loop input (length pre + 1 + length run) (length pre) (of_nat (length run + 1)) (pre @ c # run @ rest) =
      (PBNS_ERR_LIMIT, wi, ci, co, out') \<and> length out' = length pre + 1 + length run + length rest"
  using assms
proof (induction run input arbitrary: pre c rest rule: cobs_stuff.induct)
  case (1 run)
  then show ?case by simp
next
  case (2 run x xs)
  show ?case
  proof (cases rest)
    case Nil
    with "2.prems" show ?thesis by (auto simp: Let_def)
  next
    case rest: (Cons r rest')
    show ?thesis
    proof (cases "x = 0")
      case True
      from "2.IH"(1) [OF True, of rest' "pre @ of_nat (length run + 1) # run" r] "2.prems" True
      show ?thesis by (simp add: rest list_update_append Let_def algebra_simps)
    next
      case False
      show ?thesis
      proof (cases "length run = 253")
        case full: True
        show ?thesis
        proof (cases rest')
          case Nil
          with full False show ?thesis
            by (simp add: rest list_update_append Let_def cobs_code_eq_255)
        next
          case rest': (Cons q rest'')
          from "2.IH"(2) [OF False full, of rest'' "pre @ 255 # run @ [x]" q] "2.prems" False full
          show ?thesis
            by (simp add: rest rest' list_update_append Let_def cobs_code_eq_255 algebra_simps)
        qed
      next
        case part: False
        from "2.IH"(3) [OF False part, of rest' pre c] "2.prems" False part
        show ?thesis
          by (simp add: rest list_update_append Let_def cobs_code_eq_255 algebra_simps)
      qed
    qed
  qed
qed

subsection \<open>The decoder implements the reference decoding\<close>

lemma length_cobs_copy_run: "length (snd (cobs_copy_run run write_index out)) = length out"
  by (induction run write_index out rule: cobs_copy_run.induct) auto

lemma cobs_copy_run_append:
  "length run \<le> length rest \<Longrightarrow> 0 \<notin> set run \<Longrightarrow>
   cobs_copy_run run (length pre) (pre @ rest) = (PBNS_OK, pre @ run @ drop (length run) rest)"
proof (induction run arbitrary: pre rest)
  case (Cons x run)
  then obtain r rest' where "rest = r # rest'" by (cases rest) auto
  with Cons.IH [of rest' "pre @ [x]"] Cons.prems show ?case by (auto simp: list_update_append)
qed simp

lemma cobs_copy_run_zero: "0 \<in> set run \<Longrightarrow> fst (cobs_copy_run run write_index out) = PBNS_ERR_FORMAT"
  by (induction run write_index out rule: cobs_copy_run.induct) auto

lemma cobs_decode_loop_block:
  fixes code :: byte and input :: bytes
  defines "n \<equiv> unat code - 1"
  assumes "code \<noteq> 0" "n \<le> length input" "0 \<notin> set (take n input)" "n \<le> length rest"
  shows "cobs_decode_loop (code # input) (length pre) (pre @ rest) =
    (if code \<noteq> 255 \<and> drop n input \<noteq> [] then
       if length rest = n then (PBNS_ERR_LIMIT, length pre + n, pre @ take n input)
       else cobs_decode_loop (drop n input) (length (pre @ take n input @ [0])) ((pre @ take n input @ [0]) @ drop (Suc n) rest)
     else cobs_decode_loop (drop n input) (length (pre @ take n input)) ((pre @ take n input) @ drop n rest))"
proof -
  have copy: "cobs_copy_run (take n input) (length pre) (pre @ rest) = (PBNS_OK, pre @ take n input @ drop n rest)"
    using cobs_copy_run_append [of "take n input" rest pre] assms by simp
  have "(pre @ take n input @ drop n rest)[length pre + n := 0] = (pre @ take n input @ [0]) @ drop (Suc n) rest"
    if "n < length rest"
    using that assms by (auto simp: list_update_append Cons_nth_drop_Suc [symmetric])
  with copy assms show ?thesis
    by (auto simp: Let_def n_def [symmetric] not_le)
qed

lemma cobs_destuff_block:
  fixes code :: byte and input :: bytes
  defines "n \<equiv> unat code - 1"
  assumes "code \<noteq> 0" "n \<le> length input" "0 \<notin> set (take n input)"
  shows "cobs_destuff (code # input) =
    map_option (\<lambda>d. take n input @ (if code \<noteq> 255 \<and> drop n input \<noteq> [] then [0] else []) @ d)
      (cobs_destuff (drop n input))"
  using assms by (simp add: Let_def)

lemma cobs_decode_loop_bad:
  fixes code :: byte and input :: bytes
  defines "n \<equiv> unat code - 1"
  assumes "code = 0 \<or> length input < n \<or> length rest < n \<or> 0 \<in> set (take n input)"
  shows "\<exists>status out. cobs_decode_loop (code # input) (length pre) (pre @ rest) = (status, length pre, out) \<and>
    status \<in> {PBNS_ERR_FORMAT, PBNS_ERR_LIMIT} \<and> length out = length pre + length rest"
  using assms cobs_copy_run_zero [of "take n input" "length pre" "pre @ rest"]
    length_cobs_copy_run [of "take n input" "length pre" "pre @ rest"]
  by (cases "cobs_copy_run (take n input) (length pre) (pre @ rest)") (auto simp: Let_def)

lemma cobs_decode_loop_ok:
  assumes "cobs_destuff input = Some d" and "length d \<le> length rest"
  shows "cobs_decode_loop input (length pre) (pre @ rest) = (PBNS_OK, length pre + length d, pre @ d @ drop (length d) rest)"
  using assms
proof (induction input arbitrary: pre rest d rule: cobs_destuff.induct)
  case (2 code input)
  define n where "n = unat code - 1"
  from "2.prems" obtain e where c: "code \<noteq> 0" "n \<le> length input" "0 \<notin> set (take n input)"
    and e: "cobs_destuff (drop n input) = Some e"
    and d: "d = take n input @ (if code \<noteq> 255 \<and> drop n input \<noteq> [] then [0] else []) @ e"
    by (auto simp: Let_def n_def split: if_splits)
  note IH = "2.IH" [OF n_def refl refl _ e]
  from "2.prems" d c have "n \<le> length rest" by simp
  from cobs_decode_loop_block [of code input rest pre, folded n_def, OF c this] show ?case
    using IH [of "drop n rest" "pre @ take n input"] IH [of "drop (Suc n) rest" "pre @ take n input @ [0]"] "2.prems" c d
    by (auto simp: add_ac split: if_splits)
qed simp

lemma cobs_decode_loop_OK_D:
  assumes "cobs_decode_loop input (length pre) (pre @ rest) = (PBNS_OK, wi, out)"
  shows "\<exists>d. cobs_destuff input = Some d \<and> length d \<le> length rest"
  using assms
proof (induction input arbitrary: pre rest rule: cobs_destuff.induct)
  case (2 code input)
  define n where "n = unat code - 1"
  have c: "code \<noteq> 0" "n \<le> length input" "0 \<notin> set (take n input)" and r: "n \<le> length rest"
    using "2.prems" cobs_decode_loop_bad [of code input rest pre, folded n_def] by force+
  note IH = "2.IH" [OF n_def refl refl]
  have "\<exists>d. cobs_destuff (drop n input) = Some d \<and>
      n + length (if code \<noteq> 255 \<and> drop n input \<noteq> [] then [0::byte] else []) + length d \<le> length rest"
    using IH [of "pre @ take n input" "drop n rest"] IH [of "pre @ take n input @ [0]" "drop (Suc n) rest"] c r
      "2.prems" cobs_decode_loop_block [of code input rest pre, folded n_def, OF c r]
    by (auto simp del: cobs_decode_loop.simps split: if_splits)
  with c cobs_destuff_block [of code input, folded n_def] show ?case
    by (auto simp del: cobs_destuff.simps)
qed simp

lemma cobs_decode_loop_status:
  assumes "cobs_decode_loop input (length pre) (pre @ rest) = (status, wi, out)"
  shows "status \<in> {PBNS_OK, PBNS_ERR_FORMAT, PBNS_ERR_LIMIT} \<and> length out = length pre + length rest"
  using assms
proof (induction input arbitrary: pre rest rule: cobs_destuff.induct)
  case (2 code input)
  define n where "n = unat code - 1"
  note IH = "2.IH" [OF n_def refl refl]
  show ?case
  proof (cases "code \<noteq> 0 \<and> n \<le> length input \<and> 0 \<notin> set (take n input) \<and> n \<le> length rest")
    case True
    with "2.prems" cobs_decode_loop_block [of code input rest pre, folded n_def] show ?thesis
      using IH [of "pre @ take n input" "drop n rest"] IH [of "pre @ take n input @ [0]" "drop (Suc n) rest"]
      by (auto simp del: cobs_decode_loop.simps split: if_splits)
  next
    case False
    with "2.prems" cobs_decode_loop_bad [of code input rest pre, folded n_def] show ?thesis by force
  qed
qed auto

lemma cobs_code_nonzero: "n \<le> 253 \<Longrightarrow> (of_nat (n + 1) :: byte) \<noteq> 0 \<and> unat (of_nat (n + 1) :: byte) = n + 1"
  by (auto simp: word_unat_eq_iff unat_of_nat take_bit_eq_mod simp del: of_nat_Suc of_nat_add)

lemma cobs_stuff_no_zero: "length run \<le> 253 \<Longrightarrow> 0 \<notin> set run \<Longrightarrow> 0 \<notin> set (cobs_stuff run input)"
  by (induction run input rule: cobs_stuff.induct) (use cobs_code_nonzero in auto)

lemma cobs_stuff_length:
  "length run \<le> 253 \<Longrightarrow> length (cobs_stuff run input) \<le> length run + length input + (length run + length input) div 254 + 1"
proof (induction run input rule: cobs_stuff.induct)
  case (2 run x xs)
  then show ?case by (auto split: if_splits)
qed simp

lemma cobs_destuff_stuff:
  "length run \<le> 253 \<Longrightarrow> 0 \<notin> set run \<Longrightarrow> cobs_destuff (cobs_stuff run input) = Some (run @ input)"
proof (induction run input rule: cobs_stuff.induct)
  case (1 run)
  with cobs_code_nonzero [of "length run"] show ?case by (simp add: Let_def)
next
  case (2 run x xs)
  with cobs_code_nonzero [of "length run"] length_cobs_stuff_ge [of "[]" xs]
    cobs_code_eq_255 [of "length run"]  show ?case by (auto simp: Let_def)
qed

lemma pbns_cobs_encode_eq:
  assumes "view_is_valid input" and "buffer_is_valid output"
  defines "e \<equiv> cobs_stuff [] (v_bytes input)"
  shows "if length e \<le> b_cap output
         then pbns_cobs_encode input output (Some w) = (PBNS_OK, e @ drop (length e) (b_mem output), Some (length e))
         else \<exists>out. pbns_cobs_encode input output (Some w) = (PBNS_ERR_LIMIT, out, Some 0) \<and> length out = b_cap output"
proof (cases "b_mem output")
  case Nil
  then show ?thesis
    using assms length_cobs_stuff_ge [of "[]" "v_bytes input"] by (auto simp: pbns_cobs_encode_def e_def)
next
  case (Cons c rest)
  then show ?thesis
    using assms cobs_encode_loop_ok [of "[]" "v_bytes input" rest "[]" c] cobs_encode_loop_limit [of "[]" rest "v_bytes input" "[]" c]
      cobs_stuff_drop_Cons [of "[]" "v_bytes input" c rest]
    by (auto simp: pbns_cobs_encode_def)
qed

lemma pbns_cobs_decode_eq:
  assumes "v_ptr input \<noteq> 0" and "v_bytes input \<noteq> []" and "buffer_is_valid output"
    and "cobs_destuff (v_bytes input) = Some d" and "length d \<le> b_cap output"
  shows "pbns_cobs_decode input output (Some w) = (PBNS_OK, d @ drop (length d) (b_mem output), Some (length d))"
  using assms cobs_decode_loop_ok [of "v_bytes input" d "b_mem output" "[]"]
  by (simp add: pbns_cobs_decode_def view_is_valid_def)

lemma pbns_cobs_decode_OK_D:
  assumes "pbns_cobs_decode input output (Some w) = (PBNS_OK, out, n)"
  shows "\<exists>d. cobs_destuff (v_bytes input) = Some d \<and> length d \<le> b_cap output \<and> n = Some (length d) \<and>
    out = d @ drop (length d) (b_mem output) \<and> v_bytes input \<noteq> [] \<and> v_ptr input \<noteq> 0 \<and> buffer_is_valid output"
  using assms cobs_decode_loop_OK_D [of "v_bytes input" "[]" "b_mem output"] pbns_cobs_decode_eq [of input "output"]
  by (auto simp: pbns_cobs_decode_def view_is_valid_def split: if_splits prod.splits)

lemma pbns_cobs_decode_error:
  assumes "v_ptr input \<noteq> 0" and "buffer_is_valid output"
    and "pbns_cobs_decode input output (Some w) = (status, out, n)" and "status \<noteq> PBNS_OK"
  shows "status \<in> {PBNS_ERR_FORMAT, PBNS_ERR_LIMIT} \<and> n = Some 0 \<and> length out = b_cap output"
proof (cases "cobs_decode_loop (v_bytes input) 0 (b_mem output)")
  case (fields st wi o')
  with cobs_decode_loop_status [of "v_bytes input" "[]" "b_mem output" st wi o'] assms show ?thesis
    by (auto simp: pbns_cobs_decode_def view_is_valid_def split: if_splits)
qed

subsection \<open>Properties\<close>

text \<open>C36:
  The in-place, backpatching encoder computes the reference encoding \<open>cobs_stuff\<close>: for a
  readable input and an unused output buffer it succeeds exactly when the reference encoding
  fits, reports its length, stores it at the front of the buffer and leaves the rest of the
  buffer as it was.
\<close>

theorem pbns_cobs_encode_refines:
  assumes "view_is_valid input" and "buffer_is_valid output"
  shows "pbns_cobs_encode input output (Some w) = (PBNS_OK, out, Some n) \<longleftrightarrow>
     n = length (cobs_stuff [] (v_bytes input)) \<and> n \<le> b_cap output \<and>
     out = cobs_stuff [] (v_bytes input) @ drop n (b_mem output)"
  using pbns_cobs_encode_eq [OF assms, of w] by (auto split: if_splits)

theorem pbns_cobs_encode_refines_witness:
  "pbns_cobs_encode \<lparr>v_ptr = 16, v_bytes = [1, 0, 2]\<rparr> \<lparr>b_ptr = 32, b_len = 0, b_mem = [9, 9, 9, 9, 9]\<rparr> (Some 7) =
     (PBNS_OK, [2, 1, 2, 2, 9], Some 4)"
  using pbns_cobs_encode_refines [of "\<lparr>v_ptr = 16, v_bytes = [1, 0, 2]\<rparr>"
      "\<lparr>b_ptr = 32, b_len = 0, b_mem = [9, 9, 9, 9, 9]\<rparr>" 7 "[2, 1, 2, 2, 9]" 4]
  by (simp add: pbns_simps)

text \<open>C38:
  A buffer of the size that \<open>pbns_cobs_max_encoded_size\<close> announces always suffices: the
  encoder succeeds, writes between one and that many bytes, and none of them is the
  delimiter byte 0.
\<close>

theorem pbns_cobs_encode_sufficient:
  assumes "view_is_valid input" and "buffer_is_valid output"
    and "pbns_cobs_max_encoded_size (v_len input) (Some r) = (PBNS_OK, Some need)" and "need \<le> b_cap output"
  shows "\<exists>out n. pbns_cobs_encode input output (Some w) = (PBNS_OK, out, Some n) \<and>
    0 < n \<and> n \<le> need \<and> 0 \<notin> set (take n out)"
proof -
  have "length (cobs_stuff [] (v_bytes input)) \<le> need"
    using assms cobs_stuff_length [of "[]" "v_bytes input"]
    by (auto simp: pbns_cobs_max_encoded_size_def Let_def split: if_splits)
  with pbns_cobs_encode_eq [OF assms(1,2), of w] assms(4) cobs_stuff_no_zero [of "[]" "v_bytes input"]
    length_cobs_stuff_ge [of "[]" "v_bytes input"]
  show ?thesis by auto
qed

theorem pbns_cobs_encode_sufficient_witness:
  "\<exists>out n. pbns_cobs_encode \<lparr>v_ptr = 16, v_bytes = [1, 0, 2]\<rparr> \<lparr>b_ptr = 32, b_len = 0, b_mem = [9, 9, 9, 9]\<rparr> (Some 0) =
     (PBNS_OK, out, Some n) \<and> 0 < n \<and> n \<le> 4 \<and> 0 \<notin> set (take n out)"
  by (rule pbns_cobs_encode_sufficient [where r = 0])
    (simp_all add: pbns_simps pbns_cobs_max_encoded_size_def SIZE_MAX_def)

text \<open>C35:
  Round trip: whatever the encoder wrote is decoded to the original input, into every
  buffer that can hold the input.
\<close>

theorem pbns_cobs_roundtrip:
  assumes "view_is_valid input" and "buffer_is_valid output"
    and "pbns_cobs_encode input output (Some w) = (PBNS_OK, encoded, Some n)"
    and "p \<noteq> 0" and "buffer_is_valid result" and "v_len input \<le> b_cap result"
  shows "pbns_cobs_decode \<lparr>v_ptr = p, v_bytes = take n encoded\<rparr> result (Some w') =
     (PBNS_OK, v_bytes input @ drop (v_len input) (b_mem result), Some (v_len input))"
proof -
  have "take n encoded = cobs_stuff [] (v_bytes input)"
    using pbns_cobs_encode_eq [OF assms(1,2), of w] assms(3) by (auto split: if_splits)
  with assms cobs_destuff_stuff [of "[]" "v_bytes input"] length_cobs_stuff_ge [of "[]" "v_bytes input"] show ?thesis
    by (intro pbns_cobs_decode_eq) auto
qed

theorem pbns_cobs_roundtrip_witness:
  "pbns_cobs_decode \<lparr>v_ptr = 64, v_bytes = take 4 [2, 1, 2, 2]\<rparr> \<lparr>b_ptr = 96, b_len = 0, b_mem = [5, 5, 5]\<rparr> (Some 0) =
     (PBNS_OK, [1, 0, 2], Some 3)"
  using pbns_cobs_roundtrip [of "\<lparr>v_ptr = 16, v_bytes = [1, 0, 2]\<rparr>"
      "\<lparr>b_ptr = 32, b_len = 0, b_mem = [9, 9, 9, 9]\<rparr>" 0 "[2, 1, 2, 2]" 4 64
      "\<lparr>b_ptr = 96, b_len = 0, b_mem = [5, 5, 5]\<rparr>" 0]
  by (simp add: pbns_simps pbns_cobs_encode_def)

text \<open>C37:
  The decoder, on every input: it accepts exactly the non-empty inputs whose reference
  decoding exists and fits the buffer, and then stores that decoding and reports its length;
  every other input is refused with a format or limit error and a reported length of 0.
  It never changes the size of the output buffer.
\<close>

theorem pbns_cobs_decode_correct:
  assumes "v_ptr input \<noteq> 0" and "buffer_is_valid output"
    and res: "pbns_cobs_decode input output (Some w) = (status, out, n)"
  shows "length out = b_cap output \<and>
    (if v_bytes input \<noteq> [] \<and> (\<exists>d. cobs_destuff (v_bytes input) = Some d \<and> length d \<le> b_cap output)
     then status = PBNS_OK \<and> n = Some (length (the (cobs_destuff (v_bytes input)))) \<and>
          take (the n) out = the (cobs_destuff (v_bytes input))
     else status \<in> {PBNS_ERR_FORMAT, PBNS_ERR_LIMIT} \<and> n = Some 0)"
proof (cases "v_bytes input \<noteq> [] \<and> (\<exists>d. cobs_destuff (v_bytes input) = Some d \<and> length d \<le> b_cap output)")
  case True
  then obtain d where "v_bytes input \<noteq> []" "cobs_destuff (v_bytes input) = Some d" "length d \<le> b_cap output" by auto
  with pbns_cobs_decode_eq [OF assms(1) _ assms(2), of d w] res show ?thesis by auto
next
  case False
  then have "status \<noteq> PBNS_OK" using pbns_cobs_decode_OK_D [of input "output" w out n] res by auto
  with False pbns_cobs_decode_error [OF assms] show ?thesis by simp
qed

theorem pbns_cobs_decode_correct_witness:
  "take 3 [1, 0, 2 :: byte] = the (cobs_destuff [2, 1, 2, 2])"
  using pbns_cobs_decode_correct [of "\<lparr>v_ptr = 64, v_bytes = [2, 1, 2, 2]\<rparr>"
      "\<lparr>b_ptr = 96, b_len = 0, b_mem = [5, 5, 5]\<rparr>" 0 PBNS_OK "[1, 0, 2]" "Some 3"]
  by (simp add: pbns_simps pbns_cobs_decode_def)

end
