(* ===== verification/Frame.thy ===== *)
theory Frame
  imports Crc32c Cobs
begin

text \<open>
  Frame v1 records, \<open>include/pbns/frame.h\<close> and \<open>src/core/frame.c\<close>.

  A record is a 36 byte header, the payload and a 4 byte trailer (\<open>frame_raw\<close>), stuffed by
  COBS and closed by one zero byte.  \<open>pbns_frame_encode\<close> returns the status, the memory of the
  scratch and output buffers and the written length; \<open>pbns_frame_decode\<close> returns the status,
  the scratch memory and what it stored through its \<open>frame\<close> and \<open>payload\<close> pointers.  The
  decoded payload is a view into the scratch buffer.  The encoder refuses overlapping buffers,
  as the code does; the decoder, which does not check, is modelled for a record that lies
  outside the scratch buffer, as it does in the broker.  The enumerations hold their named
  values; \<open>service_code\<close> and \<open>message_code\<close> give the integer of each.

  The theorems: the encoder writes exactly the record layout and fits the protocol limits;
  the decoder accepts exactly the records of that layout that respect the limits; decoding
  inverts encoding; damage to at most four adjacent bytes on one side of the trailer is
  always refused.
\<close>

subsection \<open>Data\<close>

datatype pbns_service_id =
    PBNS_SERVICE_INVALID
  | PBNS_SERVICE_TRUSTED_TIME
  | PBNS_SERVICE_RECOVERY_ARTIFACT
  | PBNS_SERVICE_PLATFORM_ATTESTATION
  | PBNS_SERVICE_ENROLLMENT

datatype pbns_message_type =
    PBNS_MESSAGE_INVALID
  | PBNS_MESSAGE_REQUEST
  | PBNS_MESSAGE_RESPONSE
  | PBNS_MESSAGE_DATA
  | PBNS_MESSAGE_ACK
  | PBNS_MESSAGE_ERROR
  | PBNS_MESSAGE_CANCEL
  | PBNS_MESSAGE_COMPLETE

fun service_code :: "pbns_service_id \<Rightarrow> nat" where
  "service_code PBNS_SERVICE_INVALID = 0"
| "service_code PBNS_SERVICE_TRUSTED_TIME = 1"
| "service_code PBNS_SERVICE_RECOVERY_ARTIFACT = 2"
| "service_code PBNS_SERVICE_PLATFORM_ATTESTATION = 3"
| "service_code PBNS_SERVICE_ENROLLMENT = 4"

fun message_code :: "pbns_message_type \<Rightarrow> nat" where
  "message_code PBNS_MESSAGE_INVALID = 0"
| "message_code PBNS_MESSAGE_REQUEST = 1"
| "message_code PBNS_MESSAGE_RESPONSE = 2"
| "message_code PBNS_MESSAGE_DATA = 3"
| "message_code PBNS_MESSAGE_ACK = 4"
| "message_code PBNS_MESSAGE_ERROR = 5"
| "message_code PBNS_MESSAGE_CANCEL = 6"
| "message_code PBNS_MESSAGE_COMPLETE = 7"

text \<open>The casts from the header bytes, which the decoder makes after its range checks.\<close>

definition service_of_code :: "nat \<Rightarrow> pbns_service_id" where
  "service_of_code n =
     [PBNS_SERVICE_INVALID, PBNS_SERVICE_TRUSTED_TIME, PBNS_SERVICE_RECOVERY_ARTIFACT,
      PBNS_SERVICE_PLATFORM_ATTESTATION, PBNS_SERVICE_ENROLLMENT] ! n"

definition message_of_code :: "nat \<Rightarrow> pbns_message_type" where
  "message_of_code n =
     [PBNS_MESSAGE_INVALID, PBNS_MESSAGE_REQUEST, PBNS_MESSAGE_RESPONSE, PBNS_MESSAGE_DATA,
      PBNS_MESSAGE_ACK, PBNS_MESSAGE_ERROR, PBNS_MESSAGE_CANCEL, PBNS_MESSAGE_COMPLETE] ! n"

abbreviation PBNS_FRAME_V1_PROTOCOL_VERSION :: byte where "PBNS_FRAME_V1_PROTOCOL_VERSION \<equiv> 1"
abbreviation PBNS_FRAME_V1_HEADER_SIZE :: nat where "PBNS_FRAME_V1_HEADER_SIZE \<equiv> 36"
abbreviation PBNS_FRAME_V1_TRAILER_SIZE :: nat where "PBNS_FRAME_V1_TRAILER_SIZE \<equiv> 4"
abbreviation PBNS_FRAME_V1_CONTROL_PAYLOAD_MAX :: nat where "PBNS_FRAME_V1_CONTROL_PAYLOAD_MAX \<equiv> 65536"
abbreviation PBNS_FRAME_V1_DATA_PAYLOAD_MAX :: nat where "PBNS_FRAME_V1_DATA_PAYLOAD_MAX \<equiv> 16384"
abbreviation PBNS_FRAME_V1_RAW_MAX :: nat where "PBNS_FRAME_V1_RAW_MAX \<equiv> 65576"
abbreviation PBNS_FRAME_V1_COBS_MAX :: nat where "PBNS_FRAME_V1_COBS_MAX \<equiv> 65835"
abbreviation PBNS_FRAME_V1_WIRE_MAX :: nat where "PBNS_FRAME_V1_WIRE_MAX \<equiv> 65836"
abbreviation PBNS_REQUEST_ID_SIZE :: nat where "PBNS_REQUEST_ID_SIZE \<equiv> 16"
abbreviation PBNS_ACK_PAYLOAD_SIZE :: nat where "PBNS_ACK_PAYLOAD_SIZE \<equiv> 8"

text \<open>A request identifier is its array of \<open>PBNS_REQUEST_ID_SIZE\<close> bytes.\<close>

type_synonym pbns_request_id = bytes

record pbns_frame =
  f_service :: pbns_service_id
  f_type :: pbns_message_type
  f_flags :: byte
  f_request_id :: pbns_request_id
  f_sequence :: u32

record pbns_frame_limits =
  control_payload_max :: nat
  data_payload_max :: nat
  encoded_record_max :: nat

definition zero_request_id :: pbns_request_id where
  "zero_request_id = replicate PBNS_REQUEST_ID_SIZE 0"

definition zero_frame :: pbns_frame where
  "zero_frame = \<lparr>f_service = PBNS_SERVICE_INVALID, f_type = PBNS_MESSAGE_INVALID, f_flags = 0,
     f_request_id = zero_request_id, f_sequence = 0\<rparr>"

definition frame_magic :: bytes where
  "frame_magic = [0x50, 0x42, 0x4E, 0x53]"

subsection \<open>Checks\<close>

definition service_is_valid :: "pbns_service_id \<Rightarrow> bool" where
  "service_is_valid service \<longleftrightarrow>
     service_code PBNS_SERVICE_TRUSTED_TIME \<le> service_code service \<and>
     service_code service \<le> service_code PBNS_SERVICE_ENROLLMENT"

definition message_type_is_valid :: "pbns_message_type \<Rightarrow> bool" where
  "message_type_is_valid type \<longleftrightarrow>
     message_code PBNS_MESSAGE_REQUEST \<le> message_code type \<and>
     message_code type \<le> message_code PBNS_MESSAGE_COMPLETE"

fun validate_payload_length :: "pbns_message_type \<Rightarrow> nat \<Rightarrow> nat \<Rightarrow> nat \<Rightarrow> pbns_status" where
  "validate_payload_length PBNS_MESSAGE_DATA payload_len control_limit data_limit =
     (if payload_len \<le> data_limit then PBNS_OK else PBNS_ERR_LIMIT)"
| "validate_payload_length PBNS_MESSAGE_ACK payload_len control_limit data_limit =
     (if payload_len = PBNS_ACK_PAYLOAD_SIZE then PBNS_OK else PBNS_ERR_FORMAT)"
| "validate_payload_length PBNS_MESSAGE_CANCEL payload_len control_limit data_limit =
     (if payload_len = 0 then PBNS_OK else PBNS_ERR_FORMAT)"
| "validate_payload_length PBNS_MESSAGE_COMPLETE payload_len control_limit data_limit =
     (if payload_len = 0 then PBNS_OK else PBNS_ERR_FORMAT)"
| "validate_payload_length PBNS_MESSAGE_REQUEST payload_len control_limit data_limit =
     (if payload_len \<le> control_limit then PBNS_OK else PBNS_ERR_LIMIT)"
| "validate_payload_length PBNS_MESSAGE_RESPONSE payload_len control_limit data_limit =
     (if payload_len \<le> control_limit then PBNS_OK else PBNS_ERR_LIMIT)"
| "validate_payload_length PBNS_MESSAGE_ERROR payload_len control_limit data_limit =
     (if payload_len \<le> control_limit then PBNS_OK else PBNS_ERR_LIMIT)"
| "validate_payload_length PBNS_MESSAGE_INVALID payload_len control_limit data_limit =
     PBNS_ERR_MESSAGE_TYPE"

definition validate_ack_payload :: "pbns_message_type \<Rightarrow> pbns_view \<Rightarrow> pbns_status" where
  "validate_ack_payload type payload =
     (if type = PBNS_MESSAGE_ACK \<and>
         (read_u32_be (v_bytes payload) = 0 \<or> read_u32_be (drop 4 (v_bytes payload)) = 0)
      then PBNS_ERR_FORMAT else PBNS_OK)"

definition limits_are_valid :: "pbns_frame_limits \<Rightarrow> bool" where
  "limits_are_valid limits \<longleftrightarrow>
     control_payload_max limits \<le> PBNS_FRAME_V1_CONTROL_PAYLOAD_MAX \<and>
     data_payload_max limits \<le> PBNS_FRAME_V1_DATA_PAYLOAD_MAX \<and>
     encoded_record_max limits \<le> PBNS_FRAME_V1_WIRE_MAX"

subsection \<open>Encoding\<close>

text \<open>The record as it is laid out in the scratch buffer, line by line.\<close>

definition frame_write_raw :: "pbns_frame \<Rightarrow> pbns_view \<Rightarrow> nat \<Rightarrow> nat \<Rightarrow> bytes \<Rightarrow> bytes" where
  "frame_write_raw frame payload raw_size raw_ptr raw =
     (let raw = store_at raw 0 frame_magic;
          raw = raw[4 := PBNS_FRAME_V1_PROTOCOL_VERSION];
          raw = raw[5 := of_nat (service_code (f_service frame))];
          raw = raw[6 := of_nat (message_code (f_type frame))];
          raw = raw[7 := f_flags frame];
          raw = store_at raw 8 (f_request_id frame);
          raw = store_at raw 24 (write_u32_be (f_sequence frame));
          raw = store_at raw 28 (write_u32_be (of_nat (v_len payload)));
          raw = store_at raw 32 (write_u32_be (pbns_crc32c \<lparr>v_ptr = raw_ptr, v_bytes = take 32 raw\<rparr>));
          raw = store_at raw PBNS_FRAME_V1_HEADER_SIZE (v_bytes payload)
      in store_at raw (raw_size - PBNS_FRAME_V1_TRAILER_SIZE)
           (write_u32_be (pbns_crc32c
              \<lparr>v_ptr = raw_ptr, v_bytes = take (raw_size - PBNS_FRAME_V1_TRAILER_SIZE) raw\<rparr>)))"

definition pbns_frame_encode ::
  "pbns_frame ptr \<Rightarrow> pbns_view \<Rightarrow> pbns_buffer \<Rightarrow> pbns_buffer \<Rightarrow> nat ptr \<Rightarrow>
   pbns_status \<times> bytes \<times> bytes \<times> nat ptr" where
  "pbns_frame_encode frame payload raw_scratch output written =
     (let fail = (\<lambda>status. (status, b_mem raw_scratch, b_mem output, map_option (\<lambda>_. 0) written))
      in case (written, frame) of
        (None, _) \<Rightarrow> fail PBNS_ERR_ARGUMENT
      | (Some _, None) \<Rightarrow> fail PBNS_ERR_ARGUMENT
      | (Some _, Some frame) \<Rightarrow>
          if \<not> view_is_valid payload \<or> \<not> buffer_is_valid raw_scratch \<or> \<not> buffer_is_valid output
          then fail PBNS_ERR_ARGUMENT
          else if \<not> service_is_valid (f_service frame) then fail PBNS_ERR_SERVICE
          else if \<not> message_type_is_valid (f_type frame) then fail PBNS_ERR_MESSAGE_TYPE
          else if f_flags frame \<noteq> 0 then fail PBNS_ERR_FORMAT
          else
            let status = validate_payload_length (f_type frame) (v_len payload)
                  PBNS_FRAME_V1_CONTROL_PAYLOAD_MAX PBNS_FRAME_V1_DATA_PAYLOAD_MAX
            in if status \<noteq> PBNS_OK then fail status
            else if validate_ack_payload (f_type frame) payload \<noteq> PBNS_OK
              then fail (validate_ack_payload (f_type frame) payload)
            else
              let raw_size = PBNS_FRAME_V1_HEADER_SIZE + v_len payload + PBNS_FRAME_V1_TRAILER_SIZE;
                  (status, cobs_max) = pbns_cobs_max_encoded_size raw_size (Some 0)
              in if status \<noteq> PBNS_OK \<or> cobs_max = Some SIZE_MAX then fail PBNS_ERR_LIMIT
              else
                let wire_max = the cobs_max + 1
                in if b_cap raw_scratch < raw_size \<or> b_cap output < wire_max then fail PBNS_ERR_LIMIT
                else if ranges_overlap (b_ptr raw_scratch) raw_size (b_ptr output) wire_max
                     \<or> ranges_overlap (v_ptr payload) (v_len payload) (b_ptr raw_scratch) raw_size
                     \<or> ranges_overlap (v_ptr payload) (v_len payload) (b_ptr output) wire_max
                  then fail PBNS_ERR_ARGUMENT
                else
                  let raw = frame_write_raw frame payload raw_size (b_ptr raw_scratch) (b_mem raw_scratch);
                      (status, out, cobs_written) =
                        pbns_cobs_encode \<lparr>v_ptr = b_ptr raw_scratch, v_bytes = take raw_size raw\<rparr>
                          \<lparr>b_ptr = b_ptr output, b_len = 0, b_mem = take (b_cap output - 1) (b_mem output)\<rparr> (Some 0);
                      out = out @ drop (b_cap output - 1) (b_mem output)
                  in if status \<noteq> PBNS_OK then (status, raw, out, Some 0)
                     else (PBNS_OK, raw, out[the cobs_written := 0], Some (the cobs_written + 1)))"

subsection \<open>Decoding\<close>

text \<open>The part of the decoder that reads the unstuffed record.\<close>

definition frame_parse_raw ::
  "nat \<Rightarrow> bytes \<Rightarrow> nat \<Rightarrow> pbns_frame_limits \<Rightarrow> pbns_status + (pbns_frame \<times> pbns_view)" where
  "frame_parse_raw raw_ptr raw raw_len limits =
     (if raw_len < PBNS_FRAME_V1_HEADER_SIZE + PBNS_FRAME_V1_TRAILER_SIZE then Inl PBNS_ERR_FORMAT
      else if take 4 raw \<noteq> frame_magic then Inl PBNS_ERR_FORMAT
      else if raw ! 4 \<noteq> PBNS_FRAME_V1_PROTOCOL_VERSION then Inl PBNS_ERR_VERSION
      else if read_u32_be (drop 32 raw) \<noteq> pbns_crc32c \<lparr>v_ptr = raw_ptr, v_bytes = take 32 raw\<rparr>
        then Inl PBNS_ERR_CRC
      else if unat (raw ! 5) < service_code PBNS_SERVICE_TRUSTED_TIME
           \<or> unat (raw ! 5) > service_code PBNS_SERVICE_ENROLLMENT then Inl PBNS_ERR_SERVICE
      else if unat (raw ! 6) < message_code PBNS_MESSAGE_REQUEST
           \<or> unat (raw ! 6) > message_code PBNS_MESSAGE_COMPLETE then Inl PBNS_ERR_MESSAGE_TYPE
      else
        let service = service_of_code (unat (raw ! 5));
            type = message_of_code (unat (raw ! 6))
        in if raw ! 7 \<noteq> 0 then Inl PBNS_ERR_FORMAT
        else
          let payload_len = unat (read_u32_be (drop 28 raw));
              status = validate_payload_length type payload_len
                (control_payload_max limits) (data_payload_max limits)
          in if status \<noteq> PBNS_OK then Inl status
          else if raw_len \<noteq> PBNS_FRAME_V1_HEADER_SIZE + payload_len + PBNS_FRAME_V1_TRAILER_SIZE
            then Inl PBNS_ERR_FORMAT
          else if read_u32_be (drop (raw_len - PBNS_FRAME_V1_TRAILER_SIZE) raw) \<noteq>
              pbns_crc32c \<lparr>v_ptr = raw_ptr, v_bytes = take (raw_len - PBNS_FRAME_V1_TRAILER_SIZE) raw\<rparr>
            then Inl PBNS_ERR_CRC
          else
            let payload = \<lparr>v_ptr = raw_ptr + PBNS_FRAME_V1_HEADER_SIZE,
                  v_bytes = take payload_len (drop PBNS_FRAME_V1_HEADER_SIZE raw)\<rparr>;
                status = validate_ack_payload type payload
            in if status \<noteq> PBNS_OK then Inl status
            else Inr (\<lparr>f_service = service, f_type = type, f_flags = raw ! 7,
                       f_request_id = take PBNS_REQUEST_ID_SIZE (drop 8 raw),
                       f_sequence = read_u32_be (drop 24 raw)\<rparr>, payload))"

definition pbns_frame_decode ::
  "pbns_view \<Rightarrow> pbns_frame_limits \<Rightarrow> pbns_buffer \<Rightarrow> pbns_frame ptr \<Rightarrow> pbns_view ptr \<Rightarrow>
   pbns_status \<times> bytes \<times> pbns_frame ptr \<times> pbns_view ptr" where
  "pbns_frame_decode cobs_record limits scratch frame payload =
     (if frame = None \<or> payload = None \<or> \<not> view_is_valid cobs_record \<or> \<not> buffer_is_valid scratch
         \<or> \<not> limits_are_valid limits
      then (PBNS_ERR_ARGUMENT, b_mem scratch, frame, payload)
      else if v_len cobs_record = SIZE_MAX \<or> v_len cobs_record + 1 > encoded_record_max limits
        then (PBNS_ERR_LIMIT, b_mem scratch, Some zero_frame, Some null_view)
      else
        (case pbns_cobs_decode cobs_record scratch (Some 0) of
           (status, mem, raw_len) \<Rightarrow>
             if status \<noteq> PBNS_OK then (status, mem, Some zero_frame, Some null_view)
             else
               (case frame_parse_raw (b_ptr scratch) mem (the raw_len) limits of
                  Inl status \<Rightarrow> (status, mem, Some zero_frame, Some null_view)
                | Inr (f, p) \<Rightarrow> (PBNS_OK, mem, Some f, Some p))))"

subsection \<open>The record layout\<close>

definition frame_header :: "pbns_frame \<Rightarrow> nat \<Rightarrow> bytes" where
  "frame_header f n = frame_magic @
     [PBNS_FRAME_V1_PROTOCOL_VERSION, of_nat (service_code (f_service f)),
      of_nat (message_code (f_type f)), f_flags f] @
     f_request_id f @ write_u32_be (f_sequence f) @ write_u32_be (of_nat n)"

definition frame_body :: "pbns_frame \<Rightarrow> bytes \<Rightarrow> bytes" where
  "frame_body f payload =
     frame_header f (length payload) @ write_u32_be (crc32c (frame_header f (length payload))) @ payload"

definition frame_raw :: "pbns_frame \<Rightarrow> bytes \<Rightarrow> bytes" where
  "frame_raw f payload = frame_body f payload @ write_u32_be (crc32c (frame_body f payload))"

text \<open>What the two payload limits admit.\<close>

definition frame_ok :: "nat \<Rightarrow> nat \<Rightarrow> pbns_frame \<Rightarrow> bytes \<Rightarrow> bool" where
  "frame_ok control_limit data_limit f payload \<longleftrightarrow>
     service_is_valid (f_service f) \<and> message_type_is_valid (f_type f) \<and> f_flags f = 0 \<and>
     length (f_request_id f) = PBNS_REQUEST_ID_SIZE \<and>
     validate_payload_length (f_type f) (length payload) control_limit data_limit = PBNS_OK \<and>
     validate_ack_payload (f_type f) \<lparr>v_ptr = 1, v_bytes = payload\<rparr> = PBNS_OK"

lemma length_frame_magic [simp]: "length frame_magic = 4"
  by (simp add: frame_magic_def)

lemma length_frame_header [simp]: "length (f_request_id f) = 16 \<Longrightarrow> length (frame_header f n) = 32"
  by (simp add: frame_header_def frame_magic_def)

lemma length_frame_raw [simp]: "length (f_request_id f) = 16 \<Longrightarrow> length (frame_raw f p) = 40 + length p"
  by (simp add: frame_raw_def frame_body_def)

lemma frame_write_raw_layout:
  assumes id: "length (f_request_id f) = 16" and cap: "40 + v_len payload \<le> length mem" and ptr: "raw_ptr \<noteq> 0"
  shows "frame_write_raw f payload (40 + v_len payload) raw_ptr mem =
     frame_raw f (v_bytes payload) @ drop (40 + v_len payload) mem"
proof -
  let ?h = "frame_header f (v_len payload)"
  let ?a = "PBNS_FRAME_V1_PROTOCOL_VERSION" and ?b = "of_nat (service_code (f_service f)) :: byte"
  let ?c = "of_nat (message_code (f_type f)) :: byte" and ?d = "f_flags f"
  have 1: "store_at mem 0 frame_magic = frame_magic @ drop 4 mem"
    using store_at_append [of 0 "[]" mem frame_magic] by simp
  have 2: "(frame_magic @ drop 4 mem)[4 := a, 5 := b, 6 := c, 7 := d] = (frame_magic @ [a, b, c, d]) @ drop 8 mem"
    for a b c d
    using cap update_append [of 4 frame_magic "drop 4 mem" a] update_append [of 5 "frame_magic @ [a]" "drop 5 mem" b]
      update_append [of 6 "frame_magic @ [a, b]" "drop 6 mem" c] update_append [of 7 "frame_magic @ [a, b, c]" "drop 7 mem" d]
    by simp
  have 3: "store_at ((frame_magic @ [?a, ?b, ?c, ?d]) @ drop 8 mem) 8 (f_request_id f) =
      (frame_magic @ [?a, ?b, ?c, ?d] @ f_request_id f) @ drop 24 mem"
    by (subst store_at_append) (simp_all add: id)
  have 4: "store_at ((frame_magic @ [?a, ?b, ?c, ?d] @ f_request_id f) @ drop 24 mem) 24 (write_u32_be s) =
      (frame_magic @ [?a, ?b, ?c, ?d] @ f_request_id f @ write_u32_be s) @ drop 28 mem" for s
    by (subst store_at_append) (simp_all add: id)
  have 5: "store_at ((frame_magic @ [?a, ?b, ?c, ?d] @ f_request_id f @ write_u32_be (f_sequence f)) @ drop 28 mem) 28
        (write_u32_be (of_nat (v_len payload))) = ?h @ drop 32 mem"
    by (subst store_at_append) (simp_all add: id frame_header_def)
  have 6: "store_at (?h @ drop 32 mem) 32 (write_u32_be s) = (?h @ write_u32_be s) @ drop 36 mem" for s
    by (subst store_at_append) (simp_all add: id)
  have 7: "store_at ((?h @ write_u32_be s) @ drop 36 mem) 36 (v_bytes payload) =
      (?h @ write_u32_be s @ v_bytes payload) @ drop (36 + v_len payload) mem" for s
    by (subst store_at_append) (simp_all add: id add.commute)
  have 8: "store_at (frame_body f (v_bytes payload) @ drop (36 + v_len payload) mem) (40 + v_len payload - 4) (write_u32_be s) =
      (frame_body f (v_bytes payload) @ write_u32_be s) @ drop (40 + v_len payload) mem" for s
    by (subst store_at_append) (simp_all add: id frame_body_def add.commute)
  have 9: "take 32 (?h @ drop 32 mem) = ?h" "take (40 + v_len payload - 4) (frame_body f (v_bytes payload) @ t) = frame_body f (v_bytes payload)" for t
    by (simp_all add: id frame_body_def)
  show ?thesis
    unfolding frame_write_raw_def Let_def 1 2 3 4 5 6 7 9 crc32c_any_ptr [OF ptr] frame_body_def [symmetric] 8 frame_raw_def ..
qed

subsection \<open>Reading the layout\<close>

lemma service_code_cases: "service_is_valid s \<Longrightarrow> service_of_code (unat (of_nat (service_code s) :: byte)) = s"
  by (cases s) (simp_all add: service_is_valid_def service_of_code_def)

lemma message_code_cases: "message_type_is_valid t \<Longrightarrow> message_of_code (unat (of_nat (message_code t) :: byte)) = t"
  by (cases t) (simp_all add: message_type_is_valid_def message_of_code_def)

lemma service_of_code_inverse:
  assumes "1 \<le> unat (b :: byte)" and "unat b \<le> 4"
  shows "service_is_valid (service_of_code (unat b))" and "of_nat (service_code (service_of_code (unat b))) = b"
proof -
  have "unat b = 1 \<or> unat b = 2 \<or> unat b = 3 \<or> unat b = 4" using assms by linarith
  then have "service_is_valid (service_of_code (unat b)) \<and> service_code (service_of_code (unat b)) = unat b"
    by (auto simp: service_is_valid_def service_of_code_def)
  then show "service_is_valid (service_of_code (unat b))" and "of_nat (service_code (service_of_code (unat b))) = b"
    by simp_all
qed

lemma message_of_code_inverse:
  assumes "1 \<le> unat (b :: byte)" and "unat b \<le> 7"
  shows "message_type_is_valid (message_of_code (unat b))" and "of_nat (message_code (message_of_code (unat b))) = b"
proof -
  have "unat b = 1 \<or> unat b = 2 \<or> unat b = 3 \<or> unat b = 4 \<or> unat b = 5 \<or> unat b = 6 \<or> unat b = 7"
    using assms by linarith
  then have "message_type_is_valid (message_of_code (unat b)) \<and> message_code (message_of_code (unat b)) = unat b"
    by (auto simp: message_type_is_valid_def message_of_code_def)
  then show "message_type_is_valid (message_of_code (unat b))" and "of_nat (message_code (message_of_code (unat b))) = b"
    by simp_all
qed

text \<open>The fields of a record in the buffer, by their offsets.\<close>

lemma frame_raw_fields:
  fixes f payload rest
  defines "raw \<equiv> frame_raw f payload @ rest"
  assumes id: "length (f_request_id f) = 16"
  shows "take 4 raw = frame_magic" and "raw ! 4 = 1" and "raw ! 5 = of_nat (service_code (f_service f))"
    and "raw ! 6 = of_nat (message_code (f_type f))" and "raw ! 7 = f_flags f"
    and "take 16 (drop 8 raw) = f_request_id f" and "read_u32_be (drop 24 raw) = f_sequence f"
    and "read_u32_be (drop 28 raw) = of_nat (length payload)"
    and "take 32 raw = frame_header f (length payload)"
    and "read_u32_be (drop 32 raw) = crc32c (frame_header f (length payload))"
    and "take (length payload) (drop 36 raw) = payload"
    and "take (36 + length payload) raw = frame_body f payload"
    and "read_u32_be (drop (36 + length payload) raw) = crc32c (frame_body f payload)"
proof -
  have raw: "raw = frame_magic @ [1, of_nat (service_code (f_service f)), of_nat (message_code (f_type f)), f_flags f] @
     f_request_id f @ write_u32_be (f_sequence f) @ write_u32_be (of_nat (length payload)) @
     write_u32_be (crc32c (frame_header f (length payload))) @ payload @
     write_u32_be (crc32c (frame_body f payload)) @ rest"
    by (simp add: raw_def frame_raw_def frame_body_def frame_header_def)
  show "take 4 raw = frame_magic" "raw ! 4 = 1" "raw ! 5 = of_nat (service_code (f_service f))"
    "raw ! 6 = of_nat (message_code (f_type f))" "raw ! 7 = f_flags f"
    "take 16 (drop 8 raw) = f_request_id f"
    by (simp_all add: raw nth_append id)
  show "read_u32_be (drop 24 raw) = f_sequence f" "read_u32_be (drop 28 raw) = of_nat (length payload)"
    "read_u32_be (drop 32 raw) = crc32c (frame_header f (length payload))"
    "take (length payload) (drop 36 raw) = payload"
    by (simp_all add: raw id)
  show "take 32 raw = frame_header f (length payload)" "take (36 + length payload) raw = frame_body f payload"
    "read_u32_be (drop (36 + length payload) raw) = crc32c (frame_body f payload)"
    by (simp_all add: raw_def frame_raw_def frame_body_def id)
qed

lemma validate_payload_length_bound:
  "validate_payload_length t n control_limit data_limit = PBNS_OK \<Longrightarrow>
   control_limit \<le> 65536 \<Longrightarrow> data_limit \<le> 16384 \<Longrightarrow> n \<le> 65536"
  by (cases t) (auto split: if_splits)

lemma validate_ack_payload_bytes:
  "v_bytes p = v_bytes q \<Longrightarrow> validate_ack_payload t p = validate_ack_payload t q"
  by (simp add: validate_ack_payload_def)

lemma service_code_range: "service_is_valid s \<Longrightarrow> 1 \<le> unat (of_nat (service_code s) :: byte) \<and> unat (of_nat (service_code s) :: byte) \<le> 4"
  by (cases s) (simp_all add: service_is_valid_def)

lemma message_code_range: "message_type_is_valid t \<Longrightarrow> 1 \<le> unat (of_nat (message_code t) :: byte) \<and> unat (of_nat (message_code t) :: byte) \<le> 7"
  by (cases t) (simp_all add: message_type_is_valid_def)

lemma frame_parse_raw_complete:
  assumes ok: "frame_ok (control_payload_max limits) (data_payload_max limits) f payload"
    and lim: "limits_are_valid limits" and ptr: "raw_ptr \<noteq> 0"
  shows "frame_parse_raw raw_ptr (frame_raw f payload @ rest) (40 + length payload) limits =
     Inr (f, \<lparr>v_ptr = raw_ptr + 36, v_bytes = payload\<rparr>)"
proof -
  from ok lim have len: "length payload \<le> 65536"
    by (auto simp: frame_ok_def limits_are_valid_def intro: validate_payload_length_bound)
  then have n: "unat (of_nat (length payload) :: u32) = length payload"
    by (simp add: unat_of_nat take_bit_eq_mod)
  have id: "length (f_request_id f) = 16" using ok by (simp add: frame_ok_def)
  note fields = frame_raw_fields [OF id, of payload rest]
  have ack: "validate_ack_payload (f_type f) \<lparr>v_ptr = raw_ptr + 36, v_bytes = payload\<rparr> = PBNS_OK"
    using ok validate_ack_payload_bytes [of "\<lparr>v_ptr = raw_ptr + 36, v_bytes = payload\<rparr>" "\<lparr>v_ptr = 1, v_bytes = payload\<rparr>"]
    by (simp add: frame_ok_def)
  have tr: "40 + length payload - 4 = 36 + length payload" and le: "\<not> 40 + length payload < 36 + 4" by simp_all
  have c: "\<not> (unat (of_nat (service_code (f_service f)) :: byte) < 1 \<or> unat (of_nat (service_code (f_service f)) :: byte) > 4)"
    "\<not> (unat (of_nat (message_code (f_type f)) :: byte) < 1 \<or> unat (of_nat (message_code (f_type f)) :: byte) > 7)"
    using ok service_code_range [of "f_service f"] message_code_range [of "f_type f"] by (auto simp: frame_ok_def)
  have o: "service_is_valid (f_service f)" "message_type_is_valid (f_type f)" "f_flags f = 0"
    "validate_payload_length (f_type f) (length payload) (control_payload_max limits) (data_payload_max limits) = PBNS_OK"
    using ok by (simp_all add: frame_ok_def)
  show ?thesis
    unfolding frame_parse_raw_def fields n crc32c_any_ptr [OF ptr] Let_def tr service_code.simps message_code.simps
      service_code_cases [OF o(1)] message_code_cases [OF o(2)] o(3,4) ack if_not_P [OF le] if_not_P [OF c(1)] if_not_P [OF c(2)]
    by (cases f) (use o(3) in simp)
qed

lemma frame_parse_raw_sound:
  assumes parse: "frame_parse_raw raw_ptr raw raw_len limits = Inr (f, p)"
    and len: "raw_len \<le> length raw" and ptr: "raw_ptr \<noteq> 0"
  shows "take raw_len raw = frame_raw f (v_bytes p) \<and> v_ptr p = raw_ptr + 36 \<and>
    frame_ok (control_payload_max limits) (data_payload_max limits) f (v_bytes p)"
proof -
  let ?n = "unat (read_u32_be (drop 28 raw))"
  have facts: "take 4 raw = frame_magic" "raw ! 4 = 1" "raw_len = 40 + ?n" "raw ! 7 = 0"
     "read_u32_be (drop 32 raw) = crc32c (take 32 raw)"
     "read_u32_be (drop (36 + ?n) raw) = crc32c (take (36 + ?n) raw)"
     "1 \<le> unat (raw ! 5)" "unat (raw ! 5) \<le> 4" "1 \<le> unat (raw ! 6)" "unat (raw ! 6) \<le> 7"
     "f = \<lparr>f_service = service_of_code (unat (raw ! 5)), f_type = message_of_code (unat (raw ! 6)), f_flags = raw ! 7,
           f_request_id = take 16 (drop 8 raw), f_sequence = read_u32_be (drop 24 raw)\<rparr>"
     "p = \<lparr>v_ptr = raw_ptr + 36, v_bytes = take ?n (drop 36 raw)\<rparr>"
     "validate_payload_length (message_of_code (unat (raw ! 6))) ?n (control_payload_max limits) (data_payload_max limits) = PBNS_OK"
     "validate_ack_payload (message_of_code (unat (raw ! 6))) p = PBNS_OK"
    using parse unfolding frame_parse_raw_def Let_def crc32c_any_ptr [OF ptr]
    by (simp_all split: if_splits)
  have four: "write_u32_be (read_u32_be (drop k raw)) = take 4 (drop k raw)" if "k + 4 \<le> length raw" for k
    using write_read_u32_be [of "take 4 (drop k raw)"] that by (simp add: read_u32_be_take)
  have n: "of_nat ?n = read_u32_be (drop 28 raw)" and lp: "length (v_bytes p) = ?n" using facts len by simp_all
  have mid: "[raw ! 4, raw ! 5, raw ! 6, raw ! 7] = take 4 (drop 4 raw)"
    using len facts(3) by (simp add: take_Suc_conv_app_nth numeral_eq_Suc Cons_nth_drop_Suc [symmetric])
  have hd: "frame_header f (length (v_bytes p)) = take 32 raw"
  proof -
    have "frame_header f (length (v_bytes p)) =
      take 4 raw @ take 4 (drop 4 raw) @ take 16 (drop 8 raw) @ take 4 (drop 24 raw) @ take 4 (drop 28 raw)"
      using len facts service_of_code_inverse(2) [of "raw ! 5"] message_of_code_inverse(2) [of "raw ! 6"]
      unfolding frame_header_def lp n by (simp add: four mid [symmetric])
    then show ?thesis
      by (simp add: take_drop_chain [of 4 8 raw, simplified, symmetric] take_drop_chain [of 8 24 raw, simplified, symmetric]
          take_drop_chain [of 24 28 raw, simplified, symmetric] take_drop_chain [of 28 32 raw, simplified, symmetric])
  qed
  have crcs: "write_u32_be (crc32c (take 32 raw)) = take 4 (drop 32 raw)"
    "write_u32_be (crc32c (take (36 + ?n) raw)) = take 4 (drop (36 + ?n) raw)"
    using four [of 32] four [of "36 + ?n"] facts(3,5,6) len by simp_all
  have pb: "v_bytes p = take ?n (drop 36 raw)" using facts(12) by simp
  have body: "frame_body f (v_bytes p) = take (36 + ?n) raw"
    unfolding frame_body_def hd crcs unfolding pb
    by (simp add: take_drop_chain [of 32 36 raw, simplified, symmetric] take_add [of 36])
  have "frame_raw f (v_bytes p) = take raw_len raw"
    unfolding frame_raw_def body crcs facts(3) using take_drop_chain [of "36 + ?n" "40 + ?n" raw] by simp
  moreover have "frame_ok (control_payload_max limits) (data_payload_max limits) f (v_bytes p)"
    using facts(3,4,7-14) lp len service_of_code_inverse(1) [of "raw ! 5"] message_of_code_inverse(1) [of "raw ! 6"]
      validate_ack_payload_bytes [of p "\<lparr>v_ptr = 1, v_bytes = v_bytes p\<rparr>" "f_type f"]
    by (simp add: frame_ok_def)
  ultimately show ?thesis using facts(12) by simp
qed

subsection \<open>The whole operations\<close>

definition frame_wire_max :: "nat \<Rightarrow> nat" where
  "frame_wire_max n = (40 + n) + (40 + n) div 254 + 2"

definition frame_encode_room :: "pbns_view \<Rightarrow> pbns_buffer \<Rightarrow> pbns_buffer \<Rightarrow> bool" where
  "frame_encode_room payload raw_scratch output \<longleftrightarrow>
     40 + v_len payload \<le> b_cap raw_scratch \<and> frame_wire_max (v_len payload) \<le> b_cap output \<and>
     \<not> ranges_overlap (b_ptr raw_scratch) (40 + v_len payload) (b_ptr output) (frame_wire_max (v_len payload)) \<and>
     \<not> ranges_overlap (v_ptr payload) (v_len payload) (b_ptr raw_scratch) (40 + v_len payload) \<and>
     \<not> ranges_overlap (v_ptr payload) (v_len payload) (b_ptr output) (frame_wire_max (v_len payload))"

lemma cobs_max_of_frame:
  assumes "n \<le> 65536"
  shows "pbns_cobs_max_encoded_size (36 + n + 4) (Some r) = (PBNS_OK, Some (frame_wire_max n - 1))"
    and "frame_wire_max n - 1 \<noteq> SIZE_MAX" and "frame_wire_max n \<le> 65836"
proof -
  have d: "(40 + n) div 254 \<le> 258" using assms by (simp add: div_le_mono)
  with assms show "frame_wire_max n - 1 \<noteq> SIZE_MAX" "frame_wire_max n \<le> 65836"
    by (simp_all add: frame_wire_max_def SIZE_MAX_def)
  from d assms show "pbns_cobs_max_encoded_size (36 + n + 4) (Some r) = (PBNS_OK, Some (frame_wire_max n - 1))"
    by (simp add: pbns_cobs_max_encoded_size_def frame_wire_max_def SIZE_MAX_def Let_def)
qed

lemma pbns_frame_encode_ok:
  assumes ok: "frame_ok PBNS_FRAME_V1_CONTROL_PAYLOAD_MAX PBNS_FRAME_V1_DATA_PAYLOAD_MAX f (v_bytes payload)"
    and valid: "view_is_valid payload" "buffer_is_valid raw_scratch" "buffer_is_valid output"
    and room: "frame_encode_room payload raw_scratch output"
  defines "e \<equiv> cobs_stuff [] (frame_raw f (v_bytes payload))"
  shows "pbns_frame_encode (Some f) payload raw_scratch output (Some w) =
    (PBNS_OK, frame_raw f (v_bytes payload) @ drop (40 + v_len payload) (b_mem raw_scratch),
     e @ [0] @ drop (length e + 1) (b_mem output), Some (length e + 1))"
proof -
  let ?n = "v_len payload"
  let ?out = "\<lparr>b_ptr = b_ptr output, b_len = 0, b_mem = take (b_cap output - 1) (b_mem output)\<rparr>"
  let ?in = "\<lparr>v_ptr = b_ptr raw_scratch, v_bytes = frame_raw f (v_bytes payload)\<rparr>"
  have n: "?n \<le> 65536" using ok by (auto simp: frame_ok_def intro: validate_payload_length_bound)
  have id: "length (f_request_id f) = 16" using ok by (simp add: frame_ok_def)
  have caps: "40 + ?n \<le> b_cap raw_scratch" "frame_wire_max ?n \<le> b_cap output" using room by (simp_all add: frame_encode_room_def)
  then have p: "b_ptr raw_scratch \<noteq> 0" "b_ptr output \<noteq> 0"
    using valid by (auto simp: buffer_is_valid_def frame_wire_max_def)
  have raw: "frame_write_raw f payload (36 + ?n + 4) (b_ptr raw_scratch) (b_mem raw_scratch) =
      frame_raw f (v_bytes payload) @ drop (40 + ?n) (b_mem raw_scratch)"
    using frame_write_raw_layout [OF id caps(1) p(1)] by simp
  have le: "length e \<le> b_cap output - 1"
    using cobs_stuff_length [of "[]" "frame_raw f (v_bytes payload)"] id caps(2) by (simp add: e_def frame_wire_max_def)
  have enc: "pbns_cobs_encode ?in ?out (Some 0) =
      (PBNS_OK, e @ drop (length e) (take (b_cap output - 1) (b_mem output)), Some (length e))"
    using pbns_cobs_encode_eq [of ?in ?out 0] p le by (simp add: pbns_simps e_def [symmetric])
  have ack: "validate_ack_payload (f_type f) payload = PBNS_OK"
    using ok validate_ack_payload_bytes [of payload "\<lparr>v_ptr = 1, v_bytes = v_bytes payload\<rparr>"]
    by (simp add: frame_ok_def)
  have upd: "(e @ drop (length e) (take (b_cap output - 1) (b_mem output)) @ drop (b_cap output - 1) (b_mem output))[length e := 0] =
      e @ 0 # drop (Suc (length e)) (b_mem output)"
  proof -
    have "drop (length e) (take (b_cap output - 1) (b_mem output)) @ drop (b_cap output - 1) (b_mem output) = drop (length e) (b_mem output)"
      using le by (metis append_take_drop_id drop_append drop_0 diff_is_0_eq length_take min.absorb2 diff_le_self)
    moreover have "drop (length e) (b_mem output) = b_mem output ! length e # drop (Suc (length e)) (b_mem output)"
      using le caps(2) by (simp add: Cons_nth_drop_Suc frame_wire_max_def)
    ultimately show ?thesis by simp
  qed
  have t: "take (36 + ?n + 4) (frame_raw f (v_bytes payload) @ drop (40 + ?n) (b_mem raw_scratch)) = frame_raw f (v_bytes payload)"
    using id by simp
  have enc': "pbns_cobs_encode \<lparr>v_ptr = b_ptr raw_scratch,
      v_bytes = take (36 + ?n + 4) (frame_raw f (v_bytes payload) @ drop (40 + ?n) (b_mem raw_scratch))\<rparr> ?out (Some 0) =
      (PBNS_OK, e @ drop (length e) (take (b_cap output - 1) (b_mem output)), Some (length e))"
    unfolding t by (rule enc)
  have w: "frame_wire_max ?n - 1 + 1 = frame_wire_max ?n" "36 + ?n + 4 = 40 + ?n" by (simp_all add: frame_wire_max_def)
  have o: "service_is_valid (f_service f)" "message_type_is_valid (f_type f)" "f_flags f = 0"
    "validate_payload_length (f_type f) ?n 65536 16384 = PBNS_OK"
    using ok by (simp_all add: frame_ok_def)
  show ?thesis
    using valid o ack room cobs_max_of_frame(2) [OF n] upd
    unfolding pbns_frame_encode_def Let_def option.case prod.case cobs_max_of_frame(1) [OF n] raw enc' w(1) option.sel frame_encode_room_def
    by (simp add: w(2))
qed

lemma pbns_frame_encode_OK_D:
  assumes res: "pbns_frame_encode (Some f) payload raw_scratch output (Some w) = (PBNS_OK, raw, out, n)"
    and id: "length (f_request_id f) = PBNS_REQUEST_ID_SIZE"
  shows "frame_ok PBNS_FRAME_V1_CONTROL_PAYLOAD_MAX PBNS_FRAME_V1_DATA_PAYLOAD_MAX f (v_bytes payload)"
    and "frame_encode_room payload raw_scratch output"
proof -
  have o: "service_is_valid (f_service f)" "message_type_is_valid (f_type f)" "f_flags f = 0"
    "validate_payload_length (f_type f) (v_len payload) 65536 16384 = PBNS_OK"
    "validate_ack_payload (f_type f) payload = PBNS_OK"
    using res unfolding pbns_frame_encode_def Let_def option.case prod.case by (simp_all split: if_splits)
  then show "frame_ok PBNS_FRAME_V1_CONTROL_PAYLOAD_MAX PBNS_FRAME_V1_DATA_PAYLOAD_MAX f (v_bytes payload)"
    using id validate_ack_payload_bytes [of payload "\<lparr>v_ptr = 1, v_bytes = v_bytes payload\<rparr>" "f_type f"]
    by (simp add: frame_ok_def)
  have n: "v_len payload \<le> 65536" using o(4) by (rule validate_payload_length_bound) simp_all
  have w: "frame_wire_max (v_len payload) - 1 + 1 = frame_wire_max (v_len payload)" "36 + v_len payload + 4 = 40 + v_len payload"
    by (simp_all add: frame_wire_max_def)
  show "frame_encode_room payload raw_scratch output"
    using res unfolding pbns_frame_encode_def Let_def option.case prod.case cobs_max_of_frame(1) [OF n] option.sel
    unfolding w frame_encode_room_def by (simp split: if_splits add: not_less)
qed

lemma pbns_frame_decode_ok:
  assumes rec: "v_ptr rec \<noteq> 0" "v_len rec + 1 \<le> encoded_record_max limits" "cobs_destuff (v_bytes rec) = Some (frame_raw f payload)"
    and lim: "limits_are_valid limits" and buf: "buffer_is_valid scratch" "40 + length payload \<le> b_cap scratch"
    and ok: "frame_ok (control_payload_max limits) (data_payload_max limits) f payload"
  shows "pbns_frame_decode rec limits scratch (Some f0) (Some p0) =
    (PBNS_OK, frame_raw f payload @ drop (40 + length payload) (b_mem scratch), Some f,
     Some \<lparr>v_ptr = b_ptr scratch + 36, v_bytes = payload\<rparr>)"
proof -
  have id: "length (f_request_id f) = 16" using ok by (simp add: frame_ok_def)
  have ne: "v_bytes rec \<noteq> []" using rec(3) id by (auto simp: length_frame_raw dest!: arg_cong [where f = length])
  have p: "b_ptr scratch \<noteq> 0" using buf by (auto simp: buffer_is_valid_def)
  have "pbns_cobs_decode rec scratch (Some 0) =
      (PBNS_OK, frame_raw f payload @ drop (40 + length payload) (b_mem scratch), Some (40 + length payload))"
    using pbns_cobs_decode_eq [OF rec(1) ne buf(1) rec(3), of 0] buf id by simp
  moreover have "v_len rec \<noteq> SIZE_MAX" using rec(2) lim by (auto simp: limits_are_valid_def SIZE_MAX_def)
  ultimately show ?thesis
    using rec lim buf frame_parse_raw_complete [OF ok lim p] by (simp add: pbns_frame_decode_def view_is_valid_def not_less)
qed

lemma frame_parse_raw_error: "frame_parse_raw raw_ptr raw raw_len limits \<noteq> Inl PBNS_OK"
  by (auto simp: frame_parse_raw_def Let_def split: if_splits)

lemma pbns_frame_decode_OK_D:
  assumes res: "pbns_frame_decode rec limits scratch fp pp = (PBNS_OK, mem, f', p')"
  obtains f p where "f' = Some f" "p' = Some p" "limits_are_valid limits" "buffer_is_valid scratch" "v_ptr rec \<noteq> 0"
    "v_len rec + 1 \<le> encoded_record_max limits" "cobs_destuff (v_bytes rec) = Some (frame_raw f (v_bytes p))"
    "frame_ok (control_payload_max limits) (data_payload_max limits) f (v_bytes p)"
    "40 + v_len p \<le> b_cap scratch" "v_ptr p = b_ptr scratch + 36"
    "mem = frame_raw f (v_bytes p) @ drop (40 + v_len p) (b_mem scratch)"
proof -
  obtain raw_len where dec: "pbns_cobs_decode rec scratch (Some 0) = (PBNS_OK, mem, raw_len)"
    and pre: "limits_are_valid limits" "v_len rec + 1 \<le> encoded_record_max limits"
    and parse: "\<exists>f p. frame_parse_raw (b_ptr scratch) mem (the raw_len) limits = Inr (f, p) \<and> f' = Some f \<and> p' = Some p"
    using res by (auto simp: pbns_frame_decode_def frame_parse_raw_error split: if_splits prod.splits sum.splits)
  then obtain f p where parse: "frame_parse_raw (b_ptr scratch) mem (the raw_len) limits = Inr (f, p)"
    and fp: "f' = Some f" "p' = Some p" by blast
  from pbns_cobs_decode_OK_D [OF dec] obtain d where d: "cobs_destuff (v_bytes rec) = Some d" "length d \<le> b_cap scratch"
    "raw_len = Some (length d)" "mem = d @ drop (length d) (b_mem scratch)" and v: "v_ptr rec \<noteq> 0" "buffer_is_valid scratch"
    by blast
  have big: "40 \<le> length d" using parse d(3) by (auto simp: frame_parse_raw_def split: if_splits)
  then have ptr: "b_ptr scratch \<noteq> 0" using v d by (auto simp: buffer_is_valid_def)
  have sound: "take (length d) mem = frame_raw f (v_bytes p)" "v_ptr p = b_ptr scratch + 36"
    "frame_ok (control_payload_max limits) (data_payload_max limits) f (v_bytes p)"
    using frame_parse_raw_sound [OF parse _ ptr] d by simp_all
  then have "d = frame_raw f (v_bytes p)" "length d = 40 + v_len p" using d by (simp_all add: frame_ok_def)
  with that [OF fp pre(1) v(2,1) pre(2)] d sound show ?thesis by metis
qed

lemma frame_ok_mono:
  "frame_ok c d f payload \<Longrightarrow> c \<le> c' \<Longrightarrow> d \<le> d' \<Longrightarrow> frame_ok c' d' f payload"
  unfolding frame_ok_def by (cases "f_type f") (auto split: if_splits)

lemma pbns_frame_decode_sealed:
  assumes "fst (pbns_frame_decode rec limits scratch fp pp) = PBNS_OK"
  shows "\<exists>f p. cobs_destuff (v_bytes rec) = Some (frame_body f p @ write_u32_be (crc32c (frame_body f p)))"
proof (cases "pbns_frame_decode rec limits scratch fp pp")
  case (fields status mem f' p')
  with assms have "pbns_frame_decode rec limits scratch fp pp = (PBNS_OK, mem, f', p')" by simp
  then show ?thesis by (rule pbns_frame_decode_OK_D) (auto simp: frame_raw_def)
qed

subsection \<open>An example record\<close>

definition example_frame :: pbns_frame where
  "example_frame = \<lparr>f_service = PBNS_SERVICE_ENROLLMENT, f_type = PBNS_MESSAGE_DATA, f_flags = 0,
     f_request_id = replicate 16 3, f_sequence = 9\<rparr>"

definition example_limits :: pbns_frame_limits where
  "example_limits = \<lparr>control_payload_max = 100, data_payload_max = 100, encoded_record_max = 200\<rparr>"

definition example_scratch :: pbns_buffer where
  "example_scratch = \<lparr>b_ptr = 8192, b_len = 0, b_mem = replicate 43 0\<rparr>"

lemma example_ok: "limits_are_valid example_limits" "buffer_is_valid example_scratch" "b_ptr example_scratch = 8192"
  "b_mem example_scratch = replicate 43 0"
  "frame_ok (control_payload_max example_limits) (data_payload_max example_limits) example_frame [1, 0, 2]"
  "frame_wire_max 3 \<le> encoded_record_max example_limits"
  by (simp_all add: pbns_simps frame_ok_def limits_are_valid_def frame_wire_max_def example_frame_def example_limits_def
      example_scratch_def service_is_valid_def message_type_is_valid_def validate_ack_payload_def)

lemma example_length: "length (frame_raw example_frame [1, 0, 2]) = 43"
  "length (cobs_stuff [] (frame_raw example_frame [1, 0, 2])) + 1 \<le> encoded_record_max example_limits"
  using example_ok(5) cobs_stuff_length [of "[]" "frame_raw example_frame [1, 0, 2]"]
  by (simp_all add: frame_ok_def example_limits_def)

lemma example_decode:
  "pbns_frame_decode \<lparr>v_ptr = 64, v_bytes = cobs_stuff [] (frame_raw example_frame [1, 0, 2])\<rparr>
     example_limits example_scratch (Some f0) (Some p0) =
   (PBNS_OK, frame_raw example_frame [1, 0, 2], Some example_frame, Some \<lparr>v_ptr = 8228, v_bytes = [1, 0, 2]\<rparr>)"
  using pbns_frame_decode_ok [of "\<lparr>v_ptr = 64, v_bytes = cobs_stuff [] (frame_raw example_frame [1, 0, 2])\<rparr>"
      example_limits example_frame "[1, 0, 2]" example_scratch f0 p0] example_ok example_length
    cobs_destuff_stuff [of "[]" "frame_raw example_frame [1, 0, 2]"] by simp

lemma example_sequence:
  "take 24 (frame_raw example_frame [1, 0, 2]) @ [0, 0, 0, 9] @ drop 28 (frame_raw example_frame [1, 0, 2]) =
   frame_raw example_frame [1, 0, 2]"
proof -
  define h where "h = frame_magic @ [1, 4, 3, 0] @ replicate 16 3"
  have "frame_header example_frame (length [1, 0, 2 :: byte]) = h @ [0, 0, 0, 9] @ [0, 0, 0, 3]" "length h = 24"
    by (simp_all add: h_def frame_header_def example_frame_def write_u32_be_def)
  then obtain t where "frame_raw example_frame [1, 0, 2] = h @ [0, 0, 0, 9] @ t" "length h = 24"
    unfolding frame_raw_def frame_body_def by simp
  then show ?thesis by simp
qed

subsection \<open>Properties\<close>

text \<open>C14:
  Round trip.  A frame with a valid header and a payload within the receiver's limits is
  encoded successfully whenever the scratch and output buffers have room; the encoding ends
  in its only zero byte; and a receiver whose record limit covers the announced maximum reads
  back the same frame and payload from the bytes before that zero.
\<close>

theorem pbns_frame_roundtrip:
  assumes "frame_ok (control_payload_max limits) (data_payload_max limits) f (v_bytes payload)"
    and "limits_are_valid limits" and "frame_wire_max (v_len payload) \<le> encoded_record_max limits"
    and "view_is_valid payload" and "buffer_is_valid raw_scratch" and "buffer_is_valid output"
    and "frame_encode_room payload raw_scratch output"
    and "buffer_is_valid scratch" and "40 + v_len payload \<le> b_cap scratch" and "q \<noteq> 0"
  shows "\<exists>raw out n mem. pbns_frame_encode (Some f) payload raw_scratch output (Some w) = (PBNS_OK, raw, out, Some (n + 1)) \<and>
    0 \<notin> set (take n out) \<and> out ! n = 0 \<and>
    pbns_frame_decode \<lparr>v_ptr = q, v_bytes = take n out\<rparr> limits scratch (Some f0) (Some p0) =
      (PBNS_OK, mem, Some f, Some \<lparr>v_ptr = b_ptr scratch + 36, v_bytes = v_bytes payload\<rparr>)"
proof -
  let ?r = "frame_raw f (v_bytes payload)"
  let ?e = "cobs_stuff [] ?r"
  have ok: "frame_ok 65536 16384 f (v_bytes payload)"
    using assms(1,2) by (auto simp: limits_are_valid_def intro: frame_ok_mono)
  have id: "length (f_request_id f) = 16" using ok by (simp add: frame_ok_def)
  have "length ?e + 1 \<le> frame_wire_max (v_len payload)"
    using cobs_stuff_length [of "[]" ?r] id by (simp add: frame_wire_max_def)
  moreover have "cobs_destuff ?e = Some ?r" using cobs_destuff_stuff [of "[]"] by simp
  ultimately show ?thesis
    using pbns_frame_encode_ok [OF ok assms(4-7), of w] cobs_stuff_no_zero [of "[]" ?r]
      pbns_frame_decode_ok [of "\<lparr>v_ptr = q, v_bytes = ?e\<rparr>" limits f "v_bytes payload" scratch f0 p0] assms
    by (auto simp: nth_append)
qed

theorem pbns_frame_roundtrip_witness:
  "\<exists>raw out n mem. pbns_frame_encode (Some example_frame)
      \<lparr>v_ptr = 64, v_bytes = [1, 0, 2]\<rparr> \<lparr>b_ptr = 1024, b_len = 0, b_mem = replicate 64 0\<rparr>
      \<lparr>b_ptr = 2048, b_len = 0, b_mem = replicate 64 0\<rparr> (Some 0) = (PBNS_OK, raw, out, Some (n + 1)) \<and>
    0 \<notin> set (take n out) \<and> out ! n = 0 \<and>
    pbns_frame_decode \<lparr>v_ptr = 4096, v_bytes = take n out\<rparr> example_limits example_scratch (Some zero_frame) (Some null_view) =
      (PBNS_OK, mem, Some example_frame,
       Some \<lparr>v_ptr = b_ptr example_scratch + 36, v_bytes = v_bytes \<lparr>v_ptr = 64, v_bytes = [1, 0, 2]\<rparr>\<rparr>)"
  using example_ok
  by (intro pbns_frame_roundtrip)
    (simp_all add: pbns_simps frame_wire_max_def frame_encode_room_def ranges_overlap_def UINTPTR_MAX_def)

text \<open>C15:
  The decoder accepts exactly the well-formed records.  With usable arguments it succeeds
  with frame \<open>f\<close> and payload \<open>p\<close> if and only if the record is within the configured size, its
  unstuffed bytes are exactly the layout of \<open>f\<close> and \<open>p\<close> with both check values, the header and
  payload satisfy the protocol rules and the configured limits, and the record fits the
  scratch buffer; the payload view then lies 36 bytes into that buffer.
\<close>

theorem pbns_frame_decode_iff:
  assumes "limits_are_valid limits" and "buffer_is_valid scratch" and "v_ptr rec \<noteq> 0"
  shows "pbns_frame_decode rec limits scratch (Some f0) (Some p0) = (PBNS_OK, mem, Some f, Some p) \<longleftrightarrow>
    v_len rec + 1 \<le> encoded_record_max limits \<and>
    cobs_destuff (v_bytes rec) = Some (frame_raw f (v_bytes p)) \<and>
    frame_ok (control_payload_max limits) (data_payload_max limits) f (v_bytes p) \<and>
    40 + v_len p \<le> b_cap scratch \<and> v_ptr p = b_ptr scratch + 36 \<and>
    mem = frame_raw f (v_bytes p) @ drop (40 + v_len p) (b_mem scratch)"
    (is "?dec \<longleftrightarrow> ?rec")
proof
  assume ?dec
  then show ?rec by (rule pbns_frame_decode_OK_D) auto
next
  assume ?rec
  then show ?dec
    using pbns_frame_decode_ok [of rec limits f "v_bytes p" scratch f0 p0] assms by (cases p) simp
qed

theorem pbns_frame_decode_iff_witness:
  "pbns_frame_decode \<lparr>v_ptr = 64, v_bytes = cobs_stuff [] (frame_raw example_frame [1, 0, 2])\<rparr>
     example_limits example_scratch (Some zero_frame) (Some null_view) =
   (PBNS_OK, frame_raw example_frame [1, 0, 2], Some example_frame, Some \<lparr>v_ptr = 8228, v_bytes = [1, 0, 2]\<rparr>)"
  using example_ok example_length cobs_destuff_stuff [of "[]" "frame_raw example_frame [1, 0, 2]"]
  by (subst pbns_frame_decode_iff) simp_all

text \<open>C19:
  Damage detection.  Take two records whose unstuffed bytes have the same length and differ
  only within a window of at most four bytes that lies on one side of the record trailer.
  If the decoder accepts the first record, it refuses the second, whatever its limits and
  buffers.
\<close>

theorem pbns_frame_decode_detects_damage:
  assumes "cobs_destuff (v_bytes rec) = Some (pre @ w @ post)"
    and "cobs_destuff (v_bytes rec') = Some (pre @ w' @ post)"
    and "length w = length w'" and "length w \<le> 4" and "w \<noteq> w'"
    and "4 \<le> length post \<or> length w + length post \<le> 4"
    and "fst (pbns_frame_decode rec limits scratch fp pp) = PBNS_OK"
  shows "fst (pbns_frame_decode rec' limits' scratch' fp' pp') \<noteq> PBNS_OK"
proof
  assume "fst (pbns_frame_decode rec' limits' scratch' fp' pp') = PBNS_OK"
  from pbns_frame_decode_sealed [OF this] pbns_frame_decode_sealed [OF assms(7)] assms(1,2)
  obtain f p f' p' where "pre @ w @ post = frame_body f p @ write_u32_be (crc32c (frame_body f p))"
    "pre @ w' @ post = frame_body f' p' @ write_u32_be (crc32c (frame_body f' p'))"
    by auto
  then have "w = w'"
    using assms(3,4,6) crc_seal.sealed_body_damage crc_seal.sealed_trailer_damage by blast
  with assms(5) show False by simp
qed

theorem pbns_frame_decode_detects_damage_witness:
  "fst (pbns_frame_decode
     \<lparr>v_ptr = 64, v_bytes = cobs_stuff [] (take 24 (frame_raw example_frame [1, 0, 2]) @ [0, 0, 0, 8] @
        drop 28 (frame_raw example_frame [1, 0, 2]))\<rparr>
     example_limits example_scratch (Some zero_frame) (Some null_view)) \<noteq> PBNS_OK"
proof (rule pbns_frame_decode_detects_damage
    [of "\<lparr>v_ptr = 64, v_bytes = cobs_stuff [] (frame_raw example_frame [1, 0, 2])\<rparr>"
      "take 24 (frame_raw example_frame [1, 0, 2])" "[0, 0, 0, 9]" "drop 28 (frame_raw example_frame [1, 0, 2])" _ "[0, 0, 0, 8]"
      example_limits example_scratch "Some zero_frame" "Some null_view"])
  show "cobs_destuff (v_bytes \<lparr>v_ptr = 64, v_bytes = cobs_stuff [] (frame_raw example_frame [1, 0, 2])\<rparr>) =
    Some (take 24 (frame_raw example_frame [1, 0, 2]) @ [0, 0, 0, 9] @ drop 28 (frame_raw example_frame [1, 0, 2]))"
    unfolding example_sequence by (simp add: cobs_destuff_stuff)
  show "fst (pbns_frame_decode \<lparr>v_ptr = 64, v_bytes = cobs_stuff [] (frame_raw example_frame [1, 0, 2])\<rparr>
      example_limits example_scratch (Some zero_frame) (Some null_view)) = PBNS_OK"
    by (simp add: example_decode)
qed (simp_all add: cobs_destuff_stuff example_length)

text \<open>C26:
  The encoder, on every frame.  With readable payload and unused buffers it succeeds exactly
  for the frames the protocol admits when the buffers have room for the worst case and do not
  overlap; it then writes the stuffed record layout and one zero byte, at most 65836 bytes.
\<close>

theorem pbns_frame_encode_correct:
  assumes "view_is_valid payload" and "buffer_is_valid raw_scratch" and "buffer_is_valid output"
    and "length (f_request_id f) = PBNS_REQUEST_ID_SIZE"
  shows "case pbns_frame_encode (Some f) payload raw_scratch output (Some w) of (status, raw, out, n) \<Rightarrow>
    (status = PBNS_OK \<longleftrightarrow>
       frame_ok PBNS_FRAME_V1_CONTROL_PAYLOAD_MAX PBNS_FRAME_V1_DATA_PAYLOAD_MAX f (v_bytes payload) \<and>
       frame_encode_room payload raw_scratch output) \<and>
    (status = PBNS_OK \<longrightarrow>
       take (the n) out = cobs_stuff [] (frame_raw f (v_bytes payload)) @ [0] \<and>
       the n \<le> PBNS_FRAME_V1_WIRE_MAX)"
proof (cases "fst (pbns_frame_encode (Some f) payload raw_scratch output (Some w)) = PBNS_OK")
  case True
  then obtain raw out n where e: "pbns_frame_encode (Some f) payload raw_scratch output (Some w) = (PBNS_OK, raw, out, n)"
    by (cases "pbns_frame_encode (Some f) payload raw_scratch output (Some w)") auto
  note d = pbns_frame_encode_OK_D [OF e assms(4)]
  have "v_len payload \<le> 65536" using d(1) by (auto simp: frame_ok_def intro: validate_payload_length_bound)
  from cobs_max_of_frame(3) [OF this] cobs_stuff_length [of "[]" "frame_raw f (v_bytes payload)"] assms(4)
  have "length (cobs_stuff [] (frame_raw f (v_bytes payload))) + 1 \<le> 65836" by (simp add: frame_wire_max_def)
  with pbns_frame_encode_ok [OF d(1) assms(1-3) d(2), of w] d show ?thesis by simp
next
  case False
  then show ?thesis using pbns_frame_encode_ok [OF _ assms(1-3), of f w] by (auto split: prod.splits)
qed

theorem pbns_frame_encode_correct_witness:
  "case pbns_frame_encode (Some example_frame) \<lparr>v_ptr = 64, v_bytes = [1, 0, 2]\<rparr>
      \<lparr>b_ptr = 1024, b_len = 0, b_mem = replicate 64 0\<rparr> \<lparr>b_ptr = 2048, b_len = 0, b_mem = replicate 64 0\<rparr> (Some 0) of
    (status, raw, out, n) \<Rightarrow> status = PBNS_OK \<and>
       take (the n) out = cobs_stuff [] (frame_raw example_frame [1, 0, 2]) @ [0] \<and> the n \<le> PBNS_FRAME_V1_WIRE_MAX"
  using pbns_frame_encode_correct [of "\<lparr>v_ptr = 64, v_bytes = [1, 0, 2]\<rparr>" "\<lparr>b_ptr = 1024, b_len = 0, b_mem = replicate 64 0\<rparr>"
      "\<lparr>b_ptr = 2048, b_len = 0, b_mem = replicate 64 0\<rparr>" example_frame 0] frame_ok_mono [OF example_ok(5), of 65536 16384]
    example_ok(5)
  by (auto simp: pbns_simps frame_wire_max_def frame_encode_room_def ranges_overlap_def UINTPTR_MAX_def frame_ok_def example_limits_def)

end
