(* ===== verification/Record_Reader.thy ===== *)
theory Record_Reader
  imports Frame
begin

text \<open>
  The incremental record splitter, \<open>include/pbns/record_reader.h\<close> and
  \<open>src/core/record_reader.c\<close>: it collects the bytes up to the next zero delimiter in a caller
  supplied buffer, whatever the chunks in which they arrive.  \<open>pbns_record_reader_push\<close>
  returns the status, the updated reader and the values of its three out-parameters;
  \<open>push_loop\<close> is its byte loop.

  \<open>record_outcome\<close> is the specification: the fate of a record as a function of the bytes
  received since the last reset.  The lemmas show that the reader implements it for every
  division of the stream into chunks, and that it stores nothing else.
\<close>

subsection \<open>State and operations\<close>

record pbns_record_reader =
  r_storage :: pbns_buffer
  r_initialized :: bool
  r_discarding :: bool
  r_ready :: bool
  r_failed :: bool

definition zero_reader :: pbns_record_reader where
  "zero_reader = \<lparr>r_storage = null_buffer, r_initialized = False, r_discarding = False, r_ready = False, r_failed = False\<rparr>"

definition pbns_record_reader_init :: "pbns_record_reader ptr \<Rightarrow> pbns_buffer \<Rightarrow> pbns_record_reader ptr" where
  "pbns_record_reader_init reader storage =
     (case reader of
        None \<Rightarrow> None
      | Some _ \<Rightarrow>
          if \<not> buffer_is_valid storage then Some zero_reader
          else Some (zero_reader\<lparr>r_storage := storage, r_initialized := True\<rparr>))"

definition pbns_record_reader_reset :: "pbns_record_reader ptr \<Rightarrow> pbns_record_reader ptr" where
  "pbns_record_reader_reset reader =
     (case reader of
        None \<Rightarrow> None
      | Some r \<Rightarrow>
          if \<not> r_initialized r then Some r
          else Some (r\<lparr>r_storage := (r_storage r)\<lparr>b_len := 0\<rparr>, r_discarding := False, r_ready := False, r_failed := False\<rparr>))"

fun push_loop :: "pbns_record_reader \<Rightarrow> bytes \<Rightarrow> nat \<Rightarrow> pbns_status \<times> pbns_record_reader \<times> nat \<times> bool \<times> pbns_view" where
  "push_loop r [] consumed = (PBNS_ERR_WOULD_BLOCK, r, consumed, False, null_view)"
| "push_loop r (octet # input) consumed =
     (if r_discarding r then
        if octet = 0 then (PBNS_ERR_LIMIT, r\<lparr>r_failed := True\<rparr>, consumed + 1, False, null_view)
        else push_loop r input (consumed + 1)
      else if octet = 0 then
        if b_len (r_storage r) = 0 then (PBNS_ERR_FORMAT, r\<lparr>r_failed := True\<rparr>, consumed + 1, False, null_view)
        else (PBNS_OK, r\<lparr>r_ready := True\<rparr>, consumed + 1, True,
              \<lparr>v_ptr = b_ptr (r_storage r), v_bytes = take (b_len (r_storage r)) (b_mem (r_storage r))\<rparr>)
      else if b_len (r_storage r) \<ge> b_cap (r_storage r) then
        push_loop (r\<lparr>r_discarding := True\<rparr>) input (consumed + 1)
      else
        push_loop
          (r\<lparr>r_storage := (r_storage r)\<lparr>b_mem := (b_mem (r_storage r))[b_len (r_storage r) := octet],
                                        b_len := b_len (r_storage r) + 1\<rparr>\<rparr>)
          input (consumed + 1))"

definition pbns_record_reader_push ::
  "pbns_record_reader ptr \<Rightarrow> pbns_view \<Rightarrow> nat ptr \<Rightarrow> bool ptr \<Rightarrow> pbns_view ptr \<Rightarrow>
   pbns_status \<times> pbns_record_reader ptr \<times> nat ptr \<times> bool ptr \<times> pbns_view ptr" where
  "pbns_record_reader_push reader input consumed record_ready cobs_record =
     (let consumed = map_option (\<lambda>_. 0) consumed;
          record_ready = map_option (\<lambda>_. False) record_ready;
          cobs_record = map_option (\<lambda>_. null_view) cobs_record
      in if reader = None \<or> consumed = None \<or> record_ready = None \<or> cobs_record = None \<or> \<not> view_is_valid input
         then (PBNS_ERR_ARGUMENT, reader, consumed, record_ready, cobs_record)
         else
           let r = the reader
           in if \<not> r_initialized r \<or> r_ready r \<or> r_failed r
              then (PBNS_ERR_STATE, reader, consumed, record_ready, cobs_record)
              else if ranges_overlap (v_ptr input) (v_len input) (b_ptr (r_storage r)) (b_cap (r_storage r))
              then (PBNS_ERR_ARGUMENT, reader, consumed, record_ready, cobs_record)
              else
                case push_loop r (v_bytes input) 0 of
                  (status, r, n, ready, view) \<Rightarrow> (status, Some r, Some n, Some ready, Some view))"

subsection \<open>Specification\<close>

datatype record_fate = Pending | Refused pbns_status | Record bytes

definition record_outcome :: "nat \<Rightarrow> bytes \<Rightarrow> record_fate" where
  "record_outcome cap stream =
     (let r = takeWhile (\<lambda>b. b \<noteq> 0) stream
      in if r = stream then Pending
         else if r = [] then Refused PBNS_ERR_FORMAT
         else if length r > cap then Refused PBNS_ERR_LIMIT
         else Record r)"

text \<open>Successive pushes of the chunks of a stream, as a caller makes them until the status changes.\<close>

fun push_chunks :: "pbns_record_reader \<Rightarrow> pbns_view list \<Rightarrow> pbns_status \<times> pbns_record_reader \<times> nat \<times> pbns_view" where
  "push_chunks r [] = (PBNS_ERR_WOULD_BLOCK, r, 0, null_view)"
| "push_chunks r (chunk # chunks) =
     (case pbns_record_reader_push (Some r) chunk (Some 0) (Some False) (Some null_view) of
        (status, r', n, _, view) \<Rightarrow>
          if status = PBNS_ERR_WOULD_BLOCK then
            (case push_chunks (the r') chunks of (status, r'', n', view) \<Rightarrow> (status, r'', the n + n', view))
          else (status, the r', the n, the view))"

text \<open>\<open>reader_has r stream\<close>: the reader is in use and has seen \<open>stream\<close> without a delimiter.\<close>

definition reader_has :: "pbns_record_reader \<Rightarrow> bytes \<Rightarrow> bool" where
  "reader_has r stream \<longleftrightarrow>
     r_initialized r \<and> \<not> r_ready r \<and> \<not> r_failed r \<and> 0 \<notin> set stream \<and>
     b_len (r_storage r) = min (length stream) (b_cap (r_storage r)) \<and>
     take (b_len (r_storage r)) (b_mem (r_storage r)) = take (b_len (r_storage r)) stream \<and>
     (r_discarding r \<longleftrightarrow> b_cap (r_storage r) < length stream)"

definition chunks_clear :: "pbns_record_reader \<Rightarrow> pbns_view list \<Rightarrow> bool" where
  "chunks_clear r chunks \<longleftrightarrow>
     list_all (\<lambda>c. view_is_valid c \<and>
       \<not> ranges_overlap (v_ptr c) (v_len c) (b_ptr (r_storage r)) (b_cap (r_storage r))) chunks"

subsection \<open>The byte loop\<close>

lemma reader_has_snoc:
  assumes "reader_has r stream" and "octet \<noteq> 0"
  shows "reader_has
    (if r_discarding r then r
     else if b_len (r_storage r) \<ge> b_cap (r_storage r) then r\<lparr>r_discarding := True\<rparr>
     else r\<lparr>r_storage := (r_storage r)\<lparr>b_mem := (b_mem (r_storage r))[b_len (r_storage r) := octet],
                                       b_len := b_len (r_storage r) + 1\<rparr>\<rparr>)
    (stream @ [octet])"
  using assms by (auto simp: reader_has_def take_Suc_conv_app_nth min_def split: if_splits)

lemma push_loop_outcome:
  assumes "reader_has r stream" and "push_loop r input k = (status, r', n, ready, view)"
  shows "b_ptr (r_storage r') = b_ptr (r_storage r) \<and> b_cap (r_storage r') = b_cap (r_storage r) \<and>
    (case record_outcome (b_cap (r_storage r)) (stream @ input) of
       Pending \<Rightarrow> status = PBNS_ERR_WOULD_BLOCK \<and> n = k + length input \<and> view = null_view \<and> \<not> ready \<and>
                  reader_has r' (stream @ input)
     | Refused e \<Rightarrow> status = e \<and> r_failed r' \<and> n + length stream = k + length (takeWhile (\<lambda>b. b \<noteq> 0) (stream @ input)) + 1 \<and>
                  view = null_view \<and> \<not> ready
     | Record rec \<Rightarrow> status = PBNS_OK \<and> r_ready r' \<and> n + length stream = k + length rec + 1 \<and>
                  view = \<lparr>v_ptr = b_ptr (r_storage r), v_bytes = rec\<rparr> \<and> ready)"
  using assms
proof (induction input arbitrary: r k stream)
  case Nil
  then have "takeWhile (\<lambda>b. b \<noteq> 0) stream = stream" by (auto simp: reader_has_def takeWhile_eq_all_conv)
  with Nil show ?case by (auto simp: record_outcome_def)
next
  case (Cons octet input)
  show ?case
  proof (cases "octet = 0")
    case True
    with Cons.prems have "takeWhile (\<lambda>b. b \<noteq> 0) (stream @ octet # input) = stream"
      by (subst takeWhile_append2) (auto simp: reader_has_def)
    with True Cons.prems show ?thesis
      by (auto simp: record_outcome_def reader_has_def split: if_splits)
  next
    case False
    define r2 where "r2 = (if r_discarding r then r
     else if b_len (r_storage r) \<ge> b_cap (r_storage r) then r\<lparr>r_discarding := True\<rparr>
     else r\<lparr>r_storage := (r_storage r)\<lparr>b_mem := (b_mem (r_storage r))[b_len (r_storage r) := octet],
                                       b_len := b_len (r_storage r) + 1\<rparr>\<rparr>)"
    have "push_loop r2 input (k + 1) = (status, r', n, ready, view)" using Cons.prems(2) False by (auto simp: r2_def)
    from Cons.IH [OF reader_has_snoc [OF Cons.prems(1) False, folded r2_def] this] show ?thesis
      by (auto simp: r2_def split: record_fate.splits if_splits)
  qed
qed

lemma takeWhile_settled:
  "takeWhile P s \<noteq> s \<Longrightarrow> takeWhile P (s @ t) = takeWhile P s"
  by (metis takeWhile_append1 takeWhile_eq_all_conv)

lemma record_outcome_settled:
  assumes "record_outcome cap s \<noteq> Pending"
  shows "record_outcome cap (s @ t) = record_outcome cap s" and "takeWhile (\<lambda>b. b \<noteq> 0) (s @ t) = takeWhile (\<lambda>b. b \<noteq> 0) s"
proof -
  have ne: "takeWhile (\<lambda>b. b \<noteq> 0) s \<noteq> s"
  proof
    assume "takeWhile (\<lambda>b. b \<noteq> 0) s = s"
    then have "record_outcome cap s = Pending" by (simp add: record_outcome_def)
    with assms show False by simp
  qed
  then show tw: "takeWhile (\<lambda>b. b \<noteq> 0) (s @ t) = takeWhile (\<lambda>b. b \<noteq> 0) s" by (rule takeWhile_settled)
  have "takeWhile (\<lambda>b. b \<noteq> 0) s \<noteq> s @ t" using ne length_takeWhile_le [of "\<lambda>b. b \<noteq> 0" s]
    by (auto dest: arg_cong [where f = length])
  with ne show "record_outcome cap (s @ t) = record_outcome cap s"
    unfolding record_outcome_def Let_def tw by (simp only: if_False)
qed

lemma push_chunks_outcome:
  assumes "reader_has r stream" and "chunks_clear r chunks" and "push_chunks r chunks = (status, r', n, view)"
  shows "case record_outcome (b_cap (r_storage r)) (stream @ concat (map v_bytes chunks)) of
       Pending \<Rightarrow> status = PBNS_ERR_WOULD_BLOCK \<and> n = length (concat (map v_bytes chunks)) \<and>
                  reader_has r' (stream @ concat (map v_bytes chunks))
     | Refused e \<Rightarrow> status = e \<and> r_failed r' \<and>
                  n + length stream = length (takeWhile (\<lambda>b. b \<noteq> 0) (stream @ concat (map v_bytes chunks))) + 1
     | Record rec \<Rightarrow> status = PBNS_OK \<and> r_ready r' \<and> n + length stream = length rec + 1 \<and>
                  view = \<lparr>v_ptr = b_ptr (r_storage r), v_bytes = rec\<rparr>"
  using assms
proof (induction chunks arbitrary: r stream n)
  case Nil
  then have "takeWhile (\<lambda>b. b \<noteq> 0) stream = stream" by (auto simp: reader_has_def takeWhile_eq_all_conv)
  with Nil show ?case by (auto simp: record_outcome_def)
next
  case (Cons c cs)
  obtain st r1 m rd vw where loop: "push_loop r (v_bytes c) 0 = (st, r1, m, rd, vw)"
    by (cases "push_loop r (v_bytes c) 0") auto
  have push: "pbns_record_reader_push (Some r) c (Some 0) (Some False) (Some null_view) = (st, Some r1, Some m, Some rd, Some vw)"
    using Cons.prems(1,2) loop by (simp add: pbns_record_reader_push_def reader_has_def chunks_clear_def)
  note out = push_loop_outcome [OF Cons.prems(1) loop]
  show ?case
  proof (cases "record_outcome (b_cap (r_storage r)) (stream @ v_bytes c)")
    case Pending
    with out have st: "st = PBNS_ERR_WOULD_BLOCK" "m = v_len c" "reader_has r1 (stream @ v_bytes c)"
      and mem: "b_cap (r_storage r1) = b_cap (r_storage r)" "b_ptr (r_storage r1) = b_ptr (r_storage r)" by auto
    from mem Cons.prems(2) have clear: "chunks_clear r1 cs" by (simp add: chunks_clear_def)
    obtain n' where "push_chunks r1 cs = (status, r', n', view)" "n = m + n'"
      using Cons.prems(3) by (auto simp: push st(1) split: prod.splits)
    with Cons.IH [OF st(3) clear] st mem show ?thesis by (auto split: record_fate.splits)
  next
    case (Refused e)
    note settled = record_outcome_settled [of "b_cap (r_storage r)" "stream @ v_bytes c" "concat (map v_bytes cs)"]
    from Refused have "e \<noteq> PBNS_ERR_WOULD_BLOCK" by (auto simp: record_outcome_def Let_def split: if_splits)
    with Refused out Cons.prems(3) settled show ?thesis by (auto simp: push)
  next
    case (Record rec)
    with record_outcome_settled [of "b_cap (r_storage r)" "stream @ v_bytes c" "concat (map v_bytes cs)"] out Cons.prems(3)
    show ?thesis by (auto simp: push)
  qed
qed

subsection \<open>Properties\<close>

text \<open>
  A reader that has produced a record or failed refuses all further input, unchanged, until it
  is reset; the reset makes it ready for the next record in the same storage.
\<close>

lemma record_reader_sticky:
  assumes "r_ready r \<or> r_failed r" and "view_is_valid input" and "r_initialized r"
  shows "pbns_record_reader_push (Some r) input (Some c) (Some d) (Some v) =
      (PBNS_ERR_STATE, Some r, Some 0, Some False, Some null_view)"
    and "reader_has (the (pbns_record_reader_reset (Some r))) []"
  using assms by (simp_all add: pbns_record_reader_push_def pbns_record_reader_reset_def reader_has_def)

text \<open>C17:
  Chunking does not matter.  A freshly initialised or reset reader that is fed a byte stream
  in any chunks (outside its own storage) behaves as \<open>record_outcome\<close> says of the whole
  stream: it waits until the first zero byte, then either yields exactly the bytes before it,
  or refuses an empty record (format error) or one that exceeds the storage (limit error).  It
  consumes the bytes up to and including that zero byte and no more.
\<close>

theorem record_reader_splits_stream:
  assumes "buffer_is_valid storage" and "chunks_clear (the (pbns_record_reader_init (Some r0) storage)) chunks"
    and "push_chunks (the (pbns_record_reader_init (Some r0) storage)) chunks = (status, r, n, view)"
  defines "stream \<equiv> concat (map v_bytes chunks)"
  shows "case record_outcome (b_cap storage) stream of
       Pending \<Rightarrow> status = PBNS_ERR_WOULD_BLOCK \<and> n = length stream
     | Refused e \<Rightarrow> status = e \<and> r_failed r \<and> n = length (takeWhile (\<lambda>b. b \<noteq> 0) stream) + 1
     | Record rec \<Rightarrow> status = PBNS_OK \<and> r_ready r \<and> n = length rec + 1 \<and>
                  view = \<lparr>v_ptr = b_ptr storage, v_bytes = rec\<rparr>"
proof -
  let ?r = "the (pbns_record_reader_init (Some r0) storage)"
  have r: "r_storage ?r = storage" and "reader_has ?r []"
    using assms(1) by (simp_all add: pbns_record_reader_init_def reader_has_def zero_reader_def buffer_is_valid_def)
  from push_chunks_outcome [OF this(2) assms(2,3)] show ?thesis
    unfolding r stream_def by (auto split: record_fate.splits)
qed

theorem record_reader_splits_stream_witness:
  "\<exists>r. push_chunks (the (pbns_record_reader_init (Some zero_reader) \<lparr>b_ptr = 100, b_len = 0, b_mem = [9, 9, 9]\<rparr>))
      [\<lparr>v_ptr = 200, v_bytes = [5]\<rparr>, \<lparr>v_ptr = 200, v_bytes = [6, 0, 7]\<rparr>] =
    (PBNS_OK, r, 3, \<lparr>v_ptr = 100, v_bytes = [5, 6]\<rparr>)"
proof -
  obtain status r n view where run: "push_chunks (the (pbns_record_reader_init (Some zero_reader) \<lparr>b_ptr = 100, b_len = 0, b_mem = [9, 9, 9]\<rparr>))
      [\<lparr>v_ptr = 200, v_bytes = [5]\<rparr>, \<lparr>v_ptr = 200, v_bytes = [6, 0, 7]\<rparr>] = (status, r, n, view)"
    by (metis prod_cases4)
  have "status = PBNS_OK \<and> n = 3 \<and> view = \<lparr>v_ptr = 100, v_bytes = [5, 6]\<rparr>"
    using record_reader_splits_stream [OF _ _ run]
    by (simp add: pbns_simps chunks_clear_def pbns_record_reader_init_def ranges_overlap_def UINTPTR_MAX_def record_outcome_def)
  with run show ?thesis by blast
qed

end
