(* ===== verification/Stream_State.thy ===== *)
theory Stream_State
  imports Frame
begin

text \<open>
  The ordering check of a request stream, \<open>include/pbns/stream.h\<close> and \<open>src/core/stream.c\<close>.
  \<open>pbns_stream_accept\<close> returns the status and the updated state; the total is kept at 64 bit
  and the sequence number at 32 bit, as in the code.

  \<open>stream_run\<close> feeds a list of messages.  The invariant \<open>stream_wf\<close> and the lemmas on runs
  give the contract: the messages accepted since initialisation carry the sequence numbers
  0, 1, 2, ..., belong to one request, and never exceed the byte limit.
\<close>

subsection \<open>State and operations\<close>

record pbns_stream_state =
  s_service :: pbns_service_id
  s_request_id :: pbns_request_id
  s_byte_limit :: u64
  s_total_bytes :: u64
  s_next_sequence :: u32
  s_initialized :: bool
  s_complete :: bool
  s_failed :: bool

definition zero_stream :: pbns_stream_state where
  "zero_stream = \<lparr>s_service = PBNS_SERVICE_INVALID, s_request_id = zero_request_id, s_byte_limit = 0,
     s_total_bytes = 0, s_next_sequence = 0, s_initialized = False, s_complete = False, s_failed = False\<rparr>"

definition request_ids_match :: "pbns_request_id \<Rightarrow> pbns_request_id \<Rightarrow> bool" where
  "request_ids_match left right \<longleftrightarrow> list_all (\<lambda>index. left ! index = right ! index) [0..<PBNS_REQUEST_ID_SIZE]"

fun validate_payload :: "pbns_message_type \<Rightarrow> pbns_view \<Rightarrow> pbns_status \<times> bool" where
  "validate_payload PBNS_MESSAGE_REQUEST payload =
     ((if v_len payload \<le> PBNS_FRAME_V1_CONTROL_PAYLOAD_MAX then PBNS_OK else PBNS_ERR_LIMIT), False)"
| "validate_payload PBNS_MESSAGE_RESPONSE payload =
     ((if v_len payload \<le> PBNS_FRAME_V1_CONTROL_PAYLOAD_MAX then PBNS_OK else PBNS_ERR_LIMIT), False)"
| "validate_payload PBNS_MESSAGE_DATA payload =
     ((if v_len payload \<le> PBNS_FRAME_V1_DATA_PAYLOAD_MAX then PBNS_OK else PBNS_ERR_LIMIT), False)"
| "validate_payload PBNS_MESSAGE_ACK payload =
     ((if v_len payload \<noteq> PBNS_ACK_PAYLOAD_SIZE then PBNS_ERR_FORMAT
       else if read_u32_be (v_bytes payload) = 0 \<or> read_u32_be (drop 4 (v_bytes payload)) = 0 then PBNS_ERR_FORMAT
       else PBNS_OK), False)"
| "validate_payload PBNS_MESSAGE_ERROR payload =
     ((if v_len payload \<le> PBNS_FRAME_V1_CONTROL_PAYLOAD_MAX then PBNS_OK else PBNS_ERR_LIMIT), True)"
| "validate_payload PBNS_MESSAGE_CANCEL payload =
     ((if v_len payload = 0 then PBNS_OK else PBNS_ERR_FORMAT), True)"
| "validate_payload PBNS_MESSAGE_COMPLETE payload =
     ((if v_len payload = 0 then PBNS_OK else PBNS_ERR_FORMAT), True)"
| "validate_payload PBNS_MESSAGE_INVALID payload = (PBNS_ERR_MESSAGE_TYPE, False)"

definition fail_stream :: "pbns_stream_state \<Rightarrow> pbns_status \<Rightarrow> pbns_status \<times> pbns_stream_state ptr" where
  "fail_stream state status = (status, Some (state\<lparr>s_failed := True\<rparr>))"

definition pbns_stream_init ::
  "pbns_stream_state ptr \<Rightarrow> pbns_service_id \<Rightarrow> pbns_request_id \<Rightarrow> u64 \<Rightarrow> pbns_stream_state ptr" where
  "pbns_stream_init state service request_id byte_limit =
     (case state of
        None \<Rightarrow> None
      | Some _ \<Rightarrow>
          if \<not> service_is_valid service then Some zero_stream
          else Some (zero_stream\<lparr>s_service := service, s_request_id := request_id, s_byte_limit := byte_limit,
                                 s_initialized := True\<rparr>))"

definition pbns_stream_reset :: "pbns_stream_state ptr \<Rightarrow> pbns_stream_state ptr" where
  "pbns_stream_reset state =
     (case state of
        None \<Rightarrow> None
      | Some s \<Rightarrow>
          if \<not> s_initialized s then Some s
          else Some (s\<lparr>s_total_bytes := 0, s_next_sequence := 0, s_complete := False, s_failed := False\<rparr>))"

definition pbns_stream_accept ::
  "pbns_stream_state ptr \<Rightarrow> pbns_frame ptr \<Rightarrow> pbns_view \<Rightarrow> pbns_status \<times> pbns_stream_state ptr" where
  "pbns_stream_accept state frame payload =
     (if state = None \<or> frame = None \<or> \<not> view_is_valid payload then (PBNS_ERR_ARGUMENT, state)
      else
        let s = the state; f = the frame
        in if \<not> s_initialized s \<or> s_failed s then (PBNS_ERR_STATE, state)
           else if s_complete s then fail_stream s PBNS_ERR_STATE
           else if f_service f \<noteq> s_service s then fail_stream s PBNS_ERR_SERVICE
           else if \<not> request_ids_match (f_request_id f) (s_request_id s) then fail_stream s PBNS_ERR_STATE
           else if f_flags f \<noteq> 0 then fail_stream s PBNS_ERR_FORMAT
           else if f_sequence f \<noteq> s_next_sequence s \<or> s_next_sequence s = - 1 then fail_stream s PBNS_ERR_SEQUENCE
           else
             case validate_payload (f_type f) payload of
               (payload_status, terminal) \<Rightarrow>
                 if payload_status \<noteq> PBNS_OK then fail_stream s payload_status
                 else
                   let payload_bytes = of_nat (v_len payload)
                   in if s_total_bytes s > s_byte_limit s \<or> payload_bytes > - 1 - s_total_bytes s
                         \<or> payload_bytes > s_byte_limit s - s_total_bytes s
                      then fail_stream s PBNS_ERR_LIMIT
                      else (PBNS_OK, Some (s\<lparr>s_total_bytes := s_total_bytes s + payload_bytes,
                                            s_next_sequence := s_next_sequence s + 1, s_complete := terminal\<rparr>)))"

subsection \<open>Runs\<close>

fun stream_run :: "pbns_stream_state \<Rightarrow> (pbns_frame \<times> pbns_view) list \<Rightarrow> pbns_status list \<times> pbns_stream_state" where
  "stream_run s [] = ([], s)"
| "stream_run s ((f, p) # ms) =
     (case pbns_stream_accept (Some s) (Some f) p of
        (status, s') \<Rightarrow> (case stream_run (the s') ms of (statuses, s'') \<Rightarrow> (status # statuses, s'')))"

abbreviation terminal_type :: "pbns_message_type \<Rightarrow> bool" where
  "terminal_type t \<equiv> t \<in> {PBNS_MESSAGE_ERROR, PBNS_MESSAGE_CANCEL, PBNS_MESSAGE_COMPLETE}"

lemma request_ids_match_iff:
  "length a = PBNS_REQUEST_ID_SIZE \<Longrightarrow> length b = PBNS_REQUEST_ID_SIZE \<Longrightarrow> request_ids_match a b \<longleftrightarrow> a = b"
  by (auto simp: request_ids_match_def list_all_iff list_eq_iff_nth_eq)

lemma validate_payload_bound: "fst (validate_payload t p) = PBNS_OK \<Longrightarrow> v_len p \<le> 65536"
  by (cases t) (auto split: if_splits)

lemma validate_payload_terminal: "snd (validate_payload t p) = terminal_type t"
  by (cases t) auto

lemma stream_accept_OK_D:
  assumes "pbns_stream_accept (Some s) (Some f) p = (PBNS_OK, s')"
  shows "s_initialized s \<and> \<not> s_failed s \<and> \<not> s_complete s \<and> f_service f = s_service s \<and>
    request_ids_match (f_request_id f) (s_request_id s) \<and> f_flags f = 0 \<and> f_sequence f = s_next_sequence s \<and>
    unat (s_next_sequence s) < 2 ^ 32 - 1 \<and> v_len p \<le> 65536 \<and>
    unat (s_total_bytes s) + v_len p \<le> unat (s_byte_limit s) \<and>
    s' = Some (s\<lparr>s_total_bytes := s_total_bytes s + of_nat (v_len p), s_next_sequence := s_next_sequence s + 1,
                 s_complete := terminal_type (f_type f)\<rparr>)"
proof -
  let ?n = "of_nat (v_len p) :: u64"
  obtain tm where vp: "validate_payload (f_type f) p = (PBNS_OK, tm)"
    and c: "s_initialized s" "\<not> s_failed s" "\<not> s_complete s" "f_service f = s_service s"
      "request_ids_match (f_request_id f) (s_request_id s)" "f_flags f = 0" "f_sequence f = s_next_sequence s"
      "s_next_sequence s \<noteq> - 1" "\<not> s_total_bytes s > s_byte_limit s" "\<not> ?n > s_byte_limit s - s_total_bytes s"
    and s': "s' = Some (s\<lparr>s_total_bytes := s_total_bytes s + ?n, s_next_sequence := s_next_sequence s + 1, s_complete := tm\<rparr>)"
    using assms by (auto simp: pbns_stream_accept_def fail_stream_def Let_def split: if_splits prod.splits)
  have "v_len p \<le> 65536" using vp validate_payload_bound [of "f_type f" p] by simp
  then have n: "unat ?n = v_len p" by (simp add: unat_of_nat take_bit_eq_mod)
  have "unat (s_byte_limit s - s_total_bytes s) = unat (s_byte_limit s) - unat (s_total_bytes s)"
    using c(9) by (simp add: unat_sub not_less)
  then have "v_len p \<le> unat (s_byte_limit s) - unat (s_total_bytes s)"
    using c(10) n by (simp add: word_less_nat_alt)
  moreover have "unat (s_total_bytes s) \<le> unat (s_byte_limit s)" using c(9) by (simp add: word_le_nat_alt not_less)
  moreover have "unat (s_next_sequence s) < 2 ^ 32 - 1" using not_max_word [OF c(8)] by simp
  ultimately show ?thesis using c s' vp validate_payload_terminal [of "f_type f" p] \<open>v_len p \<le> 65536\<close> by auto
qed

lemma stream_run_OK:
  assumes "stream_run s ms = (statuses, s')" and "set statuses \<subseteq> {PBNS_OK}" and "ms \<noteq> []"
  shows "s_initialized s \<and> \<not> s_failed s \<and> \<not> s_complete s \<and>
    map (\<lambda>(f, p). unat (f_sequence f)) ms = [unat (s_next_sequence s)..<unat (s_next_sequence s) + length ms] \<and>
    (\<forall>(f, p) \<in> set ms. f_service f = s_service s \<and> request_ids_match (f_request_id f) (s_request_id s)) \<and>
    unat (s_total_bytes s') = unat (s_total_bytes s) + (\<Sum>(f, p) \<leftarrow> ms. v_len p) \<and>
    unat (s_total_bytes s') \<le> unat (s_byte_limit s) \<and>
    unat (s_next_sequence s') = unat (s_next_sequence s) + length ms \<and>
    (\<forall>(f, p) \<in> set (butlast ms). \<not> terminal_type (f_type f)) \<and>
    (s_complete s' \<longleftrightarrow> terminal_type (f_type (fst (last ms)))) \<and> \<not> s_failed s'"
  using assms
proof (induction ms arbitrary: s statuses)
  case (Cons m ms)
  obtain f p where m: "m = (f, p)" by (cases m)
  obtain s1 where acc: "pbns_stream_accept (Some s) (Some f) p = (PBNS_OK, Some s1)"
    and rest: "\<exists>st. stream_run s1 ms = (st, s') \<and> set st \<subseteq> {PBNS_OK}"
    using Cons.prems(1,2) stream_accept_OK_D [of s f p] by (fastforce simp: m split: prod.splits)
  note d = stream_accept_OK_D [OF acc]
  then have s1: "s1 = s\<lparr>s_total_bytes := s_total_bytes s + of_nat (v_len p), s_next_sequence := s_next_sequence s + 1,
                 s_complete := terminal_type (f_type f)\<rparr>" by simp
  have tot: "unat (s_total_bytes s + of_nat (v_len p)) = unat (s_total_bytes s) + v_len p"
    using d unat_add_nowrap [of "s_total_bytes s" "of_nat (v_len p)"] unat_lt [of "s_byte_limit s"]
    by (simp add: unat_of_nat_small)
  have seq: "unat (s_next_sequence s + 1) = unat (s_next_sequence s) + 1"
    using d unat_add_nowrap [of "s_next_sequence s" 1] by simp
  show ?case
  proof (cases "ms = []")
    case True
    with rest d tot seq s1 show ?thesis by (auto simp: m)
  next
    case False
    from rest obtain st where "stream_run s1 ms = (st, s')" "set st \<subseteq> {PBNS_OK}" by blast
    from Cons.IH [OF this False] d tot seq False show ?thesis
      by (auto simp: m s1 upt_conv_Cons Suc_le_eq)
  qed
qed simp

lemma stream_accept_failed:
  assumes "s_failed s"
  shows "fst (pbns_stream_accept (Some s) (Some f) p) \<noteq> PBNS_OK \<and> snd (pbns_stream_accept (Some s) (Some f) p) = Some s"
  using assms by (simp add: pbns_stream_accept_def)

lemma stream_accept_error:
  assumes "pbns_stream_accept (Some s) (Some f) p = (e, s')" and "e \<noteq> PBNS_OK" and "view_is_valid p" and "s_initialized s"
  shows "s' = Some (s\<lparr>s_failed := True\<rparr>)"
  using assms by (auto simp: pbns_stream_accept_def fail_stream_def Let_def split: if_splits prod.splits)

lemma stream_run_failed:
  assumes "s_failed s" and "stream_run s ms = (statuses, s')"
  shows "PBNS_OK \<notin> set statuses \<and> s' = s"
  using assms
proof (induction s ms arbitrary: statuses rule: stream_run.induct)
  case (2 s f p ms)
  with stream_accept_failed [of s f p] show ?case by (auto split: prod.splits)
qed simp

lemma stream_run_uninitialised:
  "\<not> s_initialized s \<Longrightarrow> stream_run s ms = (statuses, s') \<Longrightarrow> PBNS_OK \<notin> set statuses \<and> s' = s"
  by (induction ms arbitrary: statuses s') (auto simp: pbns_stream_accept_def split: prod.splits if_splits)

subsection \<open>Properties\<close>

text \<open>C18:
  A stream whose messages are all accepted since its initialisation is one ordered request:
  the messages carry the sequence numbers 0, 1, 2, ... without gap, repetition or
  wrap-around, every message has the stream's service and request identifier, the 64 bit total
  is the exact sum of the payload sizes and is within the byte limit, only the last message may
  be terminal, and it completes the stream exactly when it is.
\<close>

theorem stream_accepts_one_ordered_request:
  assumes "pbns_stream_init (Some s0) service request_id byte_limit = Some s"
    and "stream_run s ms = (statuses, s')" and "set statuses = {PBNS_OK}"
  shows "map (\<lambda>(f, p). unat (f_sequence f)) ms = [0..<length ms] \<and>
    (\<forall>(f, p) \<in> set ms. f_service f = service \<and> request_ids_match (f_request_id f) request_id) \<and>
    unat (s_total_bytes s') = (\<Sum>(f, p) \<leftarrow> ms. v_len p) \<and> unat (s_total_bytes s') \<le> unat byte_limit \<and>
    (\<forall>(f, p) \<in> set (butlast ms). \<not> terminal_type (f_type f)) \<and>
    (s_complete s' \<longleftrightarrow> terminal_type (f_type (fst (last ms)))) \<and> \<not> s_failed s'"
proof -
  have ne: "ms \<noteq> []"
  proof
    assume "ms = []"
    with assms(2) have "statuses = []" by simp
    with assms(3) show False by simp
  qed
  have run: "set statuses \<subseteq> {PBNS_OK}" using assms(3) by simp
  note all = stream_run_OK [OF assms(2) run ne]
  then have init: "s_initialized s" by (rule conjunct1)
  have sel: "s_service s = service" "s_request_id s = request_id" "s_byte_limit s = byte_limit"
    "s_total_bytes s = 0" "s_next_sequence s = 0"
    using assms(1) init by (auto simp: pbns_stream_init_def zero_stream_def split: if_splits)
  show ?thesis using all unfolding sel unsigned_0 add_0 by blast
qed

theorem stream_accepts_one_ordered_request_witness:
  "map (\<lambda>(f, p). unat (f_sequence f))
     [(example_frame\<lparr>f_sequence := 0\<rparr>, \<lparr>v_ptr = 64, v_bytes = [1, 2]\<rparr>),
      (example_frame\<lparr>f_sequence := 1, f_type := PBNS_MESSAGE_COMPLETE\<rparr>, null_view)] = [0, 1]"
proof -
  let ?ms = "[(example_frame\<lparr>f_sequence := 0\<rparr>, \<lparr>v_ptr = 64, v_bytes = [1, 2]\<rparr>),
      (example_frame\<lparr>f_sequence := 1, f_type := PBNS_MESSAGE_COMPLETE\<rparr>, null_view)]"
  let ?s = "zero_stream\<lparr>s_service := PBNS_SERVICE_ENROLLMENT, s_request_id := replicate 16 3, s_byte_limit := 5, s_initialized := True\<rparr>"
  have "stream_run ?s ?ms = ([PBNS_OK, PBNS_OK], ?s\<lparr>s_total_bytes := 2, s_next_sequence := 2, s_complete := True\<rparr>)"
    by (simp add: pbns_stream_accept_def zero_stream_def example_frame_def request_ids_match_def null_view_def view_is_valid_def
        fail_stream_def upt_rec)
  moreover have "pbns_stream_init (Some zero_stream) PBNS_SERVICE_ENROLLMENT (replicate 16 3) 5 = Some ?s"
    by (simp add: pbns_stream_init_def service_is_valid_def)
  ultimately have "map (\<lambda>(f, p). unat (f_sequence f)) ?ms = [0..<length ?ms]"
    using stream_accepts_one_ordered_request [of zero_stream PBNS_SERVICE_ENROLLMENT "replicate 16 3" 5 ?s ?ms] by simp
  then show ?thesis by (simp add: upt_rec)
qed

text \<open>C33:
  A violation is final.  When an initialised stream refuses a message whose payload view is
  valid, its state only changes by being marked failed, and until a reset no later message of
  any kind is accepted.  The two refusals that are not violations by the peer leave the stream
  as it is: an invalid view is refused as an argument error, and a stream that was never
  initialised refuses every message with a state error.
\<close>

theorem stream_refusal_is_final:
  assumes "pbns_stream_accept (Some s) (Some f) p = (e, Some s1)" and "e \<noteq> PBNS_OK"
    and "stream_run s1 ms = (statuses, s')"
  shows "(view_is_valid p \<and> s_initialized s \<longrightarrow> PBNS_OK \<notin> set statuses \<and> s' = s\<lparr>s_failed := True\<rparr>) \<and>
    (\<not> view_is_valid p \<longrightarrow> e = PBNS_ERR_ARGUMENT \<and> s1 = s) \<and>
    (view_is_valid p \<and> \<not> s_initialized s \<longrightarrow> e = PBNS_ERR_STATE \<and> PBNS_OK \<notin> set statuses \<and> s' = s)"
proof -
  have "PBNS_OK \<notin> set statuses \<and> s' = s\<lparr>s_failed := True\<rparr>" if "view_is_valid p" "s_initialized s"
    using stream_accept_error [OF assms(1,2) that] stream_run_failed [OF _ assms(3)] by simp
  moreover have "s1 = s \<and> e = (if view_is_valid p then PBNS_ERR_STATE else PBNS_ERR_ARGUMENT)"
    if "\<not> view_is_valid p \<or> \<not> s_initialized s"
    using assms(1) that by (auto simp: pbns_stream_accept_def Let_def split: if_splits)
  moreover have "PBNS_OK \<notin> set statuses \<and> s' = s1" if "\<not> s_initialized s1"
    by (rule stream_run_uninitialised [OF that assms(3)])
  ultimately show ?thesis by auto
qed

theorem stream_refusal_is_final_witness:
  "\<exists>statuses s'. stream_run (zero_stream\<lparr>s_initialized := True, s_failed := True\<rparr>) [(example_frame, null_view)] = (statuses, s') \<and>
     PBNS_OK \<notin> set statuses"
proof -
  let ?s = "zero_stream\<lparr>s_initialized := True\<rparr>"
  obtain statuses s' where run: "stream_run (?s\<lparr>s_failed := True\<rparr>) [(example_frame, null_view)] = (statuses, s')"
    by (metis surj_pair)
  have "pbns_stream_accept (Some ?s) (Some example_frame) null_view = (PBNS_ERR_SERVICE, Some (?s\<lparr>s_failed := True\<rparr>))"
    by (simp add: pbns_stream_accept_def zero_stream_def example_frame_def null_view_def view_is_valid_def fail_stream_def)
  from stream_refusal_is_final [OF this _ run] run show ?thesis
    by (auto simp: null_view_def view_is_valid_def)
qed

end
