(* ===== verification/Cbor.thy ===== *)
theory Cbor
  imports Pbns_Prelude
begin

text \<open>
  The CBOR encoder calls that the core makes into the vendored QCBOR library,
  \<open>vendor/QCBOR/src/qcbor_encode.c\<close>.  \<open>QCBOREncode_EncodeHead\<close> is the head of an item (its
  major type and argument) as the library computes it, shifting the argument out byte by byte,
  for the definite-length items without a minimum length that the core uses.  The item
  functions give the bytes that a sequence of \<open>QCBOREncode_Add...\<close> calls leaves in the output.

  The library's decoder is a parameter, \<open>qcbor_decoder\<close>: the result of the n-th call of
  \<open>QCBORDecode_GetNext\<close> on an input, and that of \<open>QCBORDecode_Finish\<close> after n items.

  The lemmas show that the heads are the shortest encodings of RFC 8949 (4.2.1) and that an
  encoding determines the encoded value.
\<close>

subsection \<open>Heads\<close>

definition CBOR_MAJOR_TYPE_POSITIVE_INT :: nat where "CBOR_MAJOR_TYPE_POSITIVE_INT = 0"
definition CBOR_MAJOR_TYPE_NEGATIVE_INT :: nat where "CBOR_MAJOR_TYPE_NEGATIVE_INT = 1"
definition CBOR_MAJOR_TYPE_BYTE_STRING :: nat where "CBOR_MAJOR_TYPE_BYTE_STRING = 2"
definition CBOR_MAJOR_TYPE_TEXT_STRING :: nat where "CBOR_MAJOR_TYPE_TEXT_STRING = 3"
definition CBOR_MAJOR_TYPE_ARRAY :: nat where "CBOR_MAJOR_TYPE_ARRAY = 4"
definition CBOR_MAJOR_TYPE_MAP :: nat where "CBOR_MAJOR_TYPE_MAP = 5"

lemmas cbor_majors = CBOR_MAJOR_TYPE_POSITIVE_INT_def CBOR_MAJOR_TYPE_NEGATIVE_INT_def CBOR_MAJOR_TYPE_BYTE_STRING_def
  CBOR_MAJOR_TYPE_TEXT_STRING_def CBOR_MAJOR_TYPE_ARRAY_def CBOR_MAJOR_TYPE_MAP_def

fun head_bytes :: "nat \<Rightarrow> u64 \<Rightarrow> bytes \<Rightarrow> u64 \<times> bytes" where
  "head_bytes 0 uArgument out = (uArgument, out)"
| "head_bytes (Suc j) uArgument out = head_bytes j (drop_bit 8 uArgument) (ucast (uArgument AND 0xff) # out)"

fun head_argument :: "nat list \<Rightarrow> u64 \<Rightarrow> bytes \<Rightarrow> nat \<Rightarrow> bytes \<times> nat" where
  "head_argument [] uArgument out i = (out, i)"
| "head_argument (nIterations # aIterate) uArgument out i =
     (if uArgument = 0 then (out, i)
      else case head_bytes nIterations uArgument out of
        (uArgument, out) \<Rightarrow> head_argument aIterate uArgument out (i + 1))"

definition QCBOREncode_EncodeHead :: "nat \<Rightarrow> u64 \<Rightarrow> bytes" where
  "QCBOREncode_EncodeHead uMajorType uArgument =
     (if uArgument < 24 then [of_nat (uMajorType * 32 + unat uArgument)]
      else case head_argument [1, 1, 2, 4] uArgument [] 0 of
        (out, i) \<Rightarrow> of_nat (uMajorType * 32 + (24 - 1 + i)) # out)"

subsection \<open>Items\<close>

definition cbor_uint :: "u64 \<Rightarrow> bytes" where
  "cbor_uint v = QCBOREncode_EncodeHead CBOR_MAJOR_TYPE_POSITIVE_INT v"

definition cbor_text :: "bytes \<Rightarrow> bytes" where
  "cbor_text t = QCBOREncode_EncodeHead CBOR_MAJOR_TYPE_TEXT_STRING (of_nat (length t)) @ t"

definition cbor_bstr :: "bytes \<Rightarrow> bytes" where
  "cbor_bstr t = QCBOREncode_EncodeHead CBOR_MAJOR_TYPE_BYTE_STRING (of_nat (length t)) @ t"

text \<open>A map is its entries, each the encodings of a label and of a value.\<close>

definition cbor_map :: "(bytes \<times> bytes) list \<Rightarrow> bytes" where
  "cbor_map entries =
     QCBOREncode_EncodeHead CBOR_MAJOR_TYPE_MAP (of_nat (length entries)) @ concat (map (\<lambda>(k, v). k @ v) entries)"

definition cbor_array :: "bytes list \<Rightarrow> bytes" where
  "cbor_array items = QCBOREncode_EncodeHead CBOR_MAJOR_TYPE_ARRAY (of_nat (length items)) @ concat items"

subsection \<open>Decoder interface\<close>

datatype qcbor_value =
    Q_INT64 int
  | Q_UINT64 u64
  | Q_BYTE_STRING bytes
  | Q_TEXT_STRING bytes
  | Q_ARRAY nat
  | Q_MAP nat
  | Q_BOOL bool
  | Q_OTHER

datatype qcbor_label = Q_LABEL_NONE | Q_LABEL_INT64 int | Q_LABEL_OTHER

record qcbor_item =
  q_value :: qcbor_value
  q_label :: qcbor_label
  q_nesting :: nat

record qcbor_decoder =
  QCBORDecode_GetNext :: "bytes \<Rightarrow> nat \<Rightarrow> qcbor_item option"
  QCBORDecode_Finish :: "bytes \<Rightarrow> nat \<Rightarrow> bool"

text \<open>The accessors that broker, requests and wire decoders share.\<close>

fun item_to_uint64 :: "qcbor_item \<Rightarrow> u64 option" where
  "item_to_uint64 item =
     (case q_value item of
        Q_INT64 v \<Rightarrow> if v \<ge> 0 then Some (of_int v) else None
      | Q_UINT64 v \<Rightarrow> Some v
      | _ \<Rightarrow> None)"

subsection \<open>Shortest heads\<close>

definition cbor_head :: "nat \<Rightarrow> nat \<Rightarrow> bytes" where
  "cbor_head major n =
     (if n < 24 then [of_nat (major * 32 + n)]
      else if n < 2 ^ 8 then [of_nat (major * 32 + 24), of_nat n]
      else if n < 2 ^ 16 then of_nat (major * 32 + 25) # write_u16_be (of_nat n)
      else if n < 2 ^ 32 then of_nat (major * 32 + 26) # write_u32_be (of_nat n)
      else of_nat (major * 32 + 27) # write_u64_be (of_nat n))"

lemma drop_bit_eq_0_iff_unat: "drop_bit k (a :: 'a :: len word) = 0 \<longleftrightarrow> unat a < 2 ^ k"
proof -
  have "drop_bit k a = 0 \<longleftrightarrow> unat (drop_bit k a) = 0" by (simp only: unat_eq_0)
  also have "\<dots> \<longleftrightarrow> unat a div 2 ^ k = 0" by (simp only: unat_drop_bit_eq) (simp add: drop_bit_eq_div)
  also have "\<dots> \<longleftrightarrow> unat a < 2 ^ k" by (simp add: div_eq_0_iff)
  finally show ?thesis .
qed

lemma ucast_low_byte: "ucast (a AND 0xff :: u64) = (ucast a :: byte)"
proof -
  have m: "(0xff :: u64) = mask 8" by (simp add: mask_eq_exp_minus_1)
  show ?thesis unfolding m by (auto intro!: bit_word_eqI simp: bit_simps simp del: mask_numeral)
qed

lemma head_bytes_eq:
  "head_bytes (Suc 0) a out = (drop_bit 8 a, ucast a # out)"
  "head_bytes 2 a out = (drop_bit 16 a, ucast (drop_bit 8 a) # ucast a # out)"
  "head_bytes 4 a out = (drop_bit 32 a, ucast (drop_bit 24 a) # ucast (drop_bit 16 a) # ucast (drop_bit 8 a) # ucast a # out)"
  by (simp_all only: numeral_eq_Suc pred_numeral_simps Num.BitM.simps One_nat_def head_bytes.simps ucast_low_byte)
    (simp_all add: drop_bit_drop_bit eval_nat_numeral)

lemma head_argument_eq:
  assumes "(a :: u64) \<noteq> 0"
  shows "head_argument [1, 1, 2, 4] a [] 0 =
    (if unat a < 2 ^ 8 then ([ucast a], 1)
     else if unat a < 2 ^ 16 then ([ucast (drop_bit 8 a), ucast a], 2)
     else if unat a < 2 ^ 32 then ([ucast (drop_bit 24 a), ucast (drop_bit 16 a), ucast (drop_bit 8 a), ucast a], 3)
     else (write_u64_be a, 4))"
proof -
  note z = drop_bit_eq_0_iff_unat [of 8 a] drop_bit_eq_0_iff_unat [of 16 a] drop_bit_eq_0_iff_unat [of 32 a]
  show ?thesis using assms by (simp add: head_bytes_eq drop_bit_drop_bit z write_u64_be_unfold ucast_low_byte)
qed

lemma write_be_ucast:
  "write_u16_be (ucast (a :: u64)) = [ucast (drop_bit 8 a), ucast a]"
  "write_u32_be (ucast a) = [ucast (drop_bit 24 a), ucast (drop_bit 16 a), ucast (drop_bit 8 a), ucast a]"
  by (auto simp: write_u16_be_def write_u32_be_def bit_simps intro!: bit_word_eqI)

text \<open>The library emits the shortest head for every argument.\<close>

lemma QCBOREncode_EncodeHead_shortest:
  "QCBOREncode_EncodeHead major a = cbor_head major (unat a)"
proof (cases "unat a < 24")
  case True
  then show ?thesis by (simp add: QCBOREncode_EncodeHead_def cbor_head_def word_less_nat_alt)
next
  case False
  then have "a \<noteq> 0" by auto
  from False head_argument_eq [OF this] show ?thesis
    by (simp add: QCBOREncode_EncodeHead_def cbor_head_def word_less_nat_alt write_be_ucast)
qed

text \<open>Reading a head inverts writing it, so that an encoding determines its value.\<close>

definition cbor_read_head :: "bytes \<Rightarrow> nat \<times> nat \<times> bytes" where
  "cbor_read_head s =
     (let major = unat (hd s) div 32; info = unat (hd s) mod 32; rest = tl s
      in if info < 24 then (major, info, rest)
         else if info = 24 then (major, unat (hd rest), tl rest)
         else if info = 25 then (major, unat (read_u16_be rest), drop 2 rest)
         else if info = 26 then (major, unat (read_u32_be rest), drop 4 rest)
         else (major, unat (read_u64_be rest), drop 8 rest))"

lemma initial_byte:
  assumes "major < 8" and "info < 32"
  shows "unat (of_nat (major * 32 + info) :: byte) div 32 = major" "unat (of_nat (major * 32 + info) :: byte) mod 32 = info"
proof -
  have "unat (of_nat (major * 32 + info) :: byte) = major * 32 + info"
    using assms by (intro unat_of_nat_small) simp
  with assms show "unat (of_nat (major * 32 + info) :: byte) div 32 = major" "unat (of_nat (major * 32 + info) :: byte) mod 32 = info"
    by (simp_all only: div_mult_self3 mod_mult_self3) simp_all
qed

lemma cbor_read_head_inverse:
  assumes "major < 8" and "n < 2 ^ 64"
  shows "cbor_read_head (cbor_head major n @ rest) = (major, n, rest)"
proof -
  note initial = initial_byte [OF assms(1)]
  consider "n < 24" | "24 \<le> n" "n < 2 ^ 8" | "2 ^ 8 \<le> n" "n < 2 ^ 16" | "2 ^ 16 \<le> n" "n < 2 ^ 32" | "2 ^ 32 \<le> n"
    by linarith
  then show ?thesis
  proof cases
    case 1
    then have "n < 32" by simp
    with 1 show ?thesis by (simp add: cbor_read_head_def cbor_head_def initial Let_def del: of_nat_add of_nat_mult)
  next
    case 2
    then show ?thesis
      by (simp add: cbor_read_head_def cbor_head_def initial Let_def unat_of_nat_small del: of_nat_add of_nat_mult)
  next
    case 3
    then show ?thesis
      by (simp add: cbor_read_head_def cbor_head_def initial Let_def unat_of_nat_small del: of_nat_add of_nat_mult)
  next
    case 4
    then show ?thesis
      by (simp add: cbor_read_head_def cbor_head_def initial Let_def unat_of_nat_small del: of_nat_add of_nat_mult)
  next
    case 5
    with assms(2) show ?thesis
      by (simp add: cbor_read_head_def cbor_head_def initial Let_def unat_of_nat_small del: of_nat_add of_nat_mult)
  qed
qed

lemma cbor_head_inj:
  assumes "QCBOREncode_EncodeHead major a @ x = QCBOREncode_EncodeHead major' a' @ y" and "major < 8" and "major' < 8"
  shows "major = major' \<and> a = a' \<and> x = y"
proof -
  have b: "unat a < 2 ^ 64" "unat a' < 2 ^ 64" using unat_lt [of a] unat_lt [of a'] by simp_all
  have "(major, unat a, x) = (major', unat a', y)"
    using assms(1) cbor_read_head_inverse [OF assms(2) b(1), of x] cbor_read_head_inverse [OF assms(3) b(2), of y]
    unfolding QCBOREncode_EncodeHead_shortest by metis
  then show ?thesis by (simp only: prod.inject word_unat_eq_iff simp_thms)
qed

lemma cbor_uint_inj: "cbor_uint a @ x = cbor_uint b @ y \<Longrightarrow> a = b \<and> x = y"
  using cbor_head_inj [of 0 a x 0 b y] by (simp add: cbor_uint_def cbor_majors)

lemma cbor_string_inj:
  assumes "QCBOREncode_EncodeHead major (of_nat (length s)) @ s @ x = QCBOREncode_EncodeHead major (of_nat (length t)) @ t @ y"
    and "major < 8" and "length s < 2 ^ 64" and "length t < 2 ^ 64"
  shows "s = t \<and> x = y"
proof -
  from cbor_head_inj [OF assms(1,2,2)] have "of_nat (length s) = (of_nat (length t) :: u64)" and eq: "s @ x = t @ y"
    by blast+
  then have "unat (of_nat (length s) :: u64) = unat (of_nat (length t) :: u64)" by (simp only:)
  moreover have "unat (of_nat (length s) :: u64) = length s" "unat (of_nat (length t) :: u64) = length t"
    using assms(3,4) by (intro unat_of_nat_small; simp)+
  ultimately have "length s = length t" by metis
  with eq show ?thesis by simp
qed

lemma cbor_text_inj: "cbor_text s @ x = cbor_text t @ y \<Longrightarrow> length s < 2 ^ 64 \<Longrightarrow> length t < 2 ^ 64 \<Longrightarrow> s = t \<and> x = y"
  using cbor_string_inj [of 3 s x t y] by (simp add: cbor_text_def cbor_majors)

lemma cbor_bstr_inj: "cbor_bstr s @ x = cbor_bstr t @ y \<Longrightarrow> length s < 2 ^ 64 \<Longrightarrow> length t < 2 ^ 64 \<Longrightarrow> s = t \<and> x = y"
  using cbor_string_inj [of 2 s x t y] by (simp add: cbor_bstr_def cbor_majors)

lemma cbor_head_length: "length (QCBOREncode_EncodeHead major a) \<le> 9"
  by (simp add: QCBOREncode_EncodeHead_shortest cbor_head_def)

end
