(* ===== verification/Utf8.thy ===== *)
theory Utf8
  imports Pbns_Prelude
begin

text \<open>
  The UTF-8 check of \<open>src/core/broker.c\<close> (\<open>utf8_is_valid\<close>), against the encoding of RFC 3629:
  \<open>utf8_encode\<close> gives the one to four bytes of a Unicode scalar value.  The check accepts exactly
  the concatenations of such encodings, so overlong forms, surrogates, values above U+10FFFF and
  truncated sequences are all refused.
\<close>

subsection \<open>The check\<close>

text \<open>The length of the sequence that starts at \<open>index\<close>, or \<open>None\<close> where the loop returns false.\<close>

definition utf8_sequence :: "bytes \<Rightarrow> nat \<Rightarrow> nat option" where
  "utf8_sequence p index =
     (let first = p ! index
      in if first \<le> 0x7f then Some 1
         else if first \<ge> 0xc2 \<and> first \<le> 0xdf then
           (if index + 1 \<ge> length p \<or> p ! (index + 1) < 0x80 \<or> p ! (index + 1) > 0xbf then None
            else Some 2)
         else if first \<ge> 0xe0 \<and> first \<le> 0xef then
           (if index + 2 \<ge> length p then None
            else
              let second = p ! (index + 1); third = p ! (index + 2);
                  second_min = (if first = 0xe0 then 0xa0 else 0x80);
                  second_max = (if first = 0xed then 0x9f else 0xbf)
              in if second < second_min \<or> second > second_max \<or> third < 0x80 \<or> third > 0xbf then None
                 else Some 3)
         else if first \<ge> 0xf0 \<and> first \<le> 0xf4 then
           (if index + 3 \<ge> length p then None
            else
              let second = p ! (index + 1); third = p ! (index + 2); fourth = p ! (index + 3);
                  second_min = (if first = 0xf0 then 0x90 else 0x80);
                  second_max = (if first = 0xf4 then 0x8f else 0xbf)
              in if second < second_min \<or> second > second_max \<or> third < 0x80 \<or> third > 0xbf
                    \<or> fourth < 0x80 \<or> fourth > 0xbf then None
                 else Some 4)
         else None)"

lemma utf8_sequence_range: "utf8_sequence p index = Some n \<Longrightarrow> 1 \<le> n \<and> n \<le> 4"
  unfolding utf8_sequence_def Let_def by (simp only: split: if_splits) simp_all

function utf8_loop :: "bytes \<Rightarrow> nat \<Rightarrow> bool" where
  "utf8_loop p index =
     (if index < length p
      then (case utf8_sequence p index of None \<Rightarrow> False | Some n \<Rightarrow> utf8_loop p (index + n))
      else True)"
  by pat_completeness auto
termination
  by (relation "measure (\<lambda>(p, index). length p - index)") (auto dest: utf8_sequence_range)

declare utf8_loop.simps [simp del]

definition utf8_is_valid :: "pbns_view \<Rightarrow> bool" where
  "utf8_is_valid text \<longleftrightarrow> utf8_loop (v_bytes text) 0"

subsection \<open>The encoding\<close>

definition unicode_scalar :: "nat \<Rightarrow> bool" where
  "unicode_scalar c \<longleftrightarrow> c < 0xd800 \<or> 0xe000 \<le> c \<and> c \<le> 0x10ffff"

definition utf8_octets :: "nat \<Rightarrow> nat list" where
  "utf8_octets c =
     (if c < 0x80 then [c]
      else if c < 0x800 then [0xc0 + c div 64, 0x80 + c mod 64]
      else if c < 0x10000 then [0xe0 + c div 4096, 0x80 + c div 64 mod 64, 0x80 + c mod 64]
      else [0xf0 + c div 262144, 0x80 + c div 4096 mod 64, 0x80 + c div 64 mod 64, 0x80 + c mod 64])"

definition utf8_encode :: "nat \<Rightarrow> bytes" where
  "utf8_encode c = map of_nat (utf8_octets c)"

subsection \<open>One step of the check\<close>

lemma utf8_sequence_append: "utf8_sequence (q @ p) (length q + i) = utf8_sequence p i"
  by (simp only: utf8_sequence_def nth_append_length_plus add.assoc length_append add_le_cancel_left)

lemma utf8_loop_shift: "utf8_loop (q @ p) (length q + i) = utf8_loop p i"
proof (induction p i rule: utf8_loop.induct)
  case (1 p i)
  show ?case
    by (subst utf8_loop.simps, subst (2) utf8_loop.simps)
      (auto simp: 1 utf8_sequence_append add.assoc split: option.split)
qed

lemma utf8_loop_at: "length q = n \<Longrightarrow> utf8_loop (q @ p) n = utf8_loop p 0"
  using utf8_loop_shift [of q p 0] by simp

lemma utf8_loop_step:
  assumes "p \<noteq> []" and "utf8_sequence p 0 = Some n" and "n \<le> length p"
  shows "utf8_loop p 0 = utf8_loop (drop n p) 0"
  using assms utf8_loop_at [of "take n p" n "drop n p"] by (simp add: utf8_loop.simps [of p 0])

text \<open>The bytes of a sequence as numbers: the lead byte and its continuation bytes.\<close>

definition utf8_ok :: "nat list \<Rightarrow> bool" where
  "utf8_ok v \<longleftrightarrow>
     (length v = 1 \<and> v ! 0 \<le> 0x7f) \<or>
     (length v = 2 \<and> 0xc2 \<le> v ! 0 \<and> v ! 0 \<le> 0xdf \<and> 0x80 \<le> v ! 1 \<and> v ! 1 \<le> 0xbf) \<or>
     (length v = 3 \<and> 0xe0 \<le> v ! 0 \<and> v ! 0 \<le> 0xef \<and> 0x80 \<le> v ! 1 \<and> v ! 1 \<le> 0xbf \<and> 0x80 \<le> v ! 2 \<and> v ! 2 \<le> 0xbf \<and>
       (v ! 0 = 0xe0 \<longrightarrow> 0xa0 \<le> v ! 1) \<and> (v ! 0 = 0xed \<longrightarrow> v ! 1 \<le> 0x9f)) \<or>
     (length v = 4 \<and> 0xf0 \<le> v ! 0 \<and> v ! 0 \<le> 0xf4 \<and> 0x80 \<le> v ! 1 \<and> v ! 1 \<le> 0xbf \<and> 0x80 \<le> v ! 2 \<and> v ! 2 \<le> 0xbf \<and>
       0x80 \<le> v ! 3 \<and> v ! 3 \<le> 0xbf \<and> (v ! 0 = 0xf0 \<longrightarrow> 0x90 \<le> v ! 1) \<and> (v ! 0 = 0xf4 \<longrightarrow> v ! 1 \<le> 0x8f))"

lemma utf8_sequence_nat:
  "utf8_sequence p i =
     (let f = unat (p ! i)
      in if f \<le> 0x7f then Some 1
         else if 0xc2 \<le> f \<and> f \<le> 0xdf then
           (if length p \<le> i + 1 \<or> unat (p ! (i + 1)) < 0x80 \<or> 0xbf < unat (p ! (i + 1)) then None else Some 2)
         else if 0xe0 \<le> f \<and> f \<le> 0xef then
           (if length p \<le> i + 2 then None
            else if unat (p ! (i + 1)) < (if f = 0xe0 then 0xa0 else 0x80) \<or>
               (if f = 0xed then 0x9f else 0xbf) < unat (p ! (i + 1)) \<or>
               unat (p ! (i + 2)) < 0x80 \<or> 0xbf < unat (p ! (i + 2)) then None else Some 3)
         else if 0xf0 \<le> f \<and> f \<le> 0xf4 then
           (if length p \<le> i + 3 then None
            else if unat (p ! (i + 1)) < (if f = 0xf0 then 0x90 else 0x80) \<or>
               (if f = 0xf4 then 0x8f else 0xbf) < unat (p ! (i + 1)) \<or>
               unat (p ! (i + 2)) < 0x80 \<or> 0xbf < unat (p ! (i + 2)) \<or>
               unat (p ! (i + 3)) < 0x80 \<or> 0xbf < unat (p ! (i + 3)) then None else Some 4)
         else None)"
proof -
  have n: "unat (0x7f :: byte) = 0x7f" "unat (0xc2 :: byte) = 0xc2" "unat (0xdf :: byte) = 0xdf" "unat (0x80 :: byte) = 0x80"
    "unat (0xbf :: byte) = 0xbf" "unat (0xe0 :: byte) = 0xe0" "unat (0xef :: byte) = 0xef" "unat (0xa0 :: byte) = 0xa0"
    "unat (0xed :: byte) = 0xed" "unat (0x9f :: byte) = 0x9f" "unat (0xf0 :: byte) = 0xf0" "unat (0xf4 :: byte) = 0xf4"
    "unat (0x90 :: byte) = 0x90" "unat (0x8f :: byte) = 0x8f" by simp_all
  show ?thesis
    unfolding utf8_sequence_def Let_def word_le_nat_alt word_less_nat_alt word_unat_eq_iff if_distrib [of unat] n
    by (rule refl)
qed

lemma utf8_sequence_sound:
  assumes "utf8_sequence p 0 = Some n" and "p \<noteq> []"
  shows "n \<le> length p \<and> utf8_ok (map unat (take n p))"
  using assms(1) assms(2) [folded length_greater_0_conv] unfolding utf8_sequence_nat Let_def
  by (simp only: option.simps split: if_splits) (auto simp: utf8_ok_def numeral_2_eq_2 Suc_le_eq)

lemma utf8_sequence_complete:
  assumes "utf8_ok (map unat q)"
  shows "utf8_sequence (q @ r) 0 = Some (length q)"
  using assms unfolding utf8_ok_def utf8_sequence_nat Let_def
  by (elim disjE conjE) (simp_all add: nth_append numeral_2_eq_2 not_less)

lemma utf8_octets_ok:
  assumes "unicode_scalar c"
  shows "utf8_ok (utf8_octets c)"
proof -
  have sc: "c \<le> 0x10ffff" "0xd800 \<le> c \<Longrightarrow> 0xe000 \<le> c" using assms by (auto simp: unicode_scalar_def)
  consider "c < 0x80" | "0x80 \<le> c" "c < 0x800" | "0x800 \<le> c" "c < 0x10000" | "0x10000 \<le> c" by linarith
  then show ?thesis
  proof cases
    case 1
    then show ?thesis by (simp add: utf8_octets_def utf8_ok_def)
  next
    case 2
    define a r where "a = c div 64" and "r = c mod 64"
    have c: "c = 64 * a + r" "r \<le> 63" by (simp_all add: a_def r_def flip: less_Suc_eq_le)
    have o: "utf8_octets c = [0xc0 + a, 0x80 + r]" using 2 by (simp add: utf8_octets_def a_def r_def)
    have "2 \<le> a" "a \<le> 31" using 2 c by linarith+
    with c show ?thesis unfolding o by (simp add: utf8_ok_def)
  next
    case 3
    define a b r where "a = c div 4096" and "b = c div 64 mod 64" and "r = c mod 64"
    have "c div 64 = 64 * a + b" by (simp add: a_def b_def div_mult2_eq [of c 64 64, simplified])
    then have c: "c = 4096 * a + 64 * b + r" "r \<le> 63" "b \<le> 63"
      using mult_div_mod_eq [of 64 c, folded r_def] by (simp, simp_all add: b_def r_def flip: less_Suc_eq_le)
    have o: "utf8_octets c = [0xe0 + a, 0x80 + b, 0x80 + r]" using 3 by (simp add: utf8_octets_def a_def b_def r_def)
    have "a \<le> 15" using 3 c by linarith
    moreover have "a = 0 \<Longrightarrow> 32 \<le> b" using 3 c by linarith
    moreover have "a = 13 \<Longrightarrow> b \<le> 31" using 3 c sc(2) by (cases "0xd800 \<le> c") linarith+
    ultimately
    show ?thesis using c unfolding o by (simp add: utf8_ok_def)
  next
    case 4
    define a b d r where "a = c div 262144" and "b = c div 4096 mod 64" and "d = c div 64 mod 64" and "r = c mod 64"
    have "c div 4096 = 64 * a + b" by (simp add: a_def b_def div_mult2_eq [of c 4096 64, simplified])
    moreover have "c div 64 = 64 * (c div 4096) + d" by (simp add: d_def div_mult2_eq [of c 64 64, simplified])
    ultimately have c: "c = 262144 * a + 4096 * b + 64 * d + r" "r \<le> 63" "d \<le> 63" "b \<le> 63"
      using mult_div_mod_eq [of 64 c, folded r_def] by (simp, simp_all add: b_def d_def r_def flip: less_Suc_eq_le)
    have o: "utf8_octets c = [0xf0 + a, 0x80 + b, 0x80 + d, 0x80 + r]" using 4 by (simp add: utf8_octets_def a_def b_def d_def r_def)
    have "a \<le> 4" using 4 c sc(1) by linarith
    moreover have "a = 0 \<Longrightarrow> 16 \<le> b" using 4 c by linarith
    moreover have "a = 4 \<Longrightarrow> b \<le> 15" using c sc(1) by linarith
    ultimately show ?thesis using c unfolding o by (simp add: utf8_ok_def)
  qed
qed

lemma utf8_octets_code2:
  "c = 64 * a + r \<Longrightarrow> r < 64 \<Longrightarrow> 0x80 \<le> c \<Longrightarrow> c < 0x800 \<Longrightarrow> utf8_octets c = [0xc0 + a, 0x80 + r]"
  by (simp add: utf8_octets_def)

lemma utf8_octets_code3:
  assumes c: "c = 4096 * a + 64 * b + r" "r < 64" "b < 64" and range: "0x800 \<le> c" "c < 0x10000"
  shows "utf8_octets c = [0xe0 + a, 0x80 + b, 0x80 + r]"
proof -
  have "c div 4096 = a" using c by (intro div_nat_eqI) simp_all
  moreover have "c div 64 = 64 * a + b" using c by (intro div_nat_eqI) simp_all
  moreover have "c mod 64 = r" using c(2) unfolding c(1) by (simp add: mod_add_eq [symmetric])
  ultimately show ?thesis using range c(3) by (simp add: utf8_octets_def)
qed

lemma utf8_octets_code4:
  assumes c: "c = 262144 * a + 4096 * b + 64 * d + r" "r < 64" "d < 64" "b < 64" and range: "0x10000 \<le> c"
  shows "utf8_octets c = [0xf0 + a, 0x80 + b, 0x80 + d, 0x80 + r]"
proof -
  have "c div 262144 = a" using c by (intro div_nat_eqI) simp_all
  moreover have "c div 4096 = 64 * a + b" using c by (intro div_nat_eqI) simp_all
  moreover have "c div 64 = 64 * (64 * a + b) + d" using c by (intro div_nat_eqI) simp_all
  moreover have "c mod 64 = r" using c(2) unfolding c(1) by (simp add: mod_add_eq [symmetric])
  moreover have "(64 * (64 * a + b) + d) mod 64 = d" using c(3) by (simp only: mod_mult_self4 mod_less)
  ultimately show ?thesis using range c(4) by (simp add: utf8_octets_def)
qed

lemma length_small_cases:
  "length v = 2 \<Longrightarrow> \<exists>f x. v = [f, x]" "length v = 3 \<Longrightarrow> \<exists>f x y. v = [f, x, y]" "length v = 4 \<Longrightarrow> \<exists>f x y z. v = [f, x, y, z]"
  by (auto simp: length_Suc_conv eval_nat_numeral)

lemma utf8_okE:
  assumes "utf8_ok v"
  obtains f where "v = [f]" "f \<le> 0x7f"
    | f x where "v = [f, x]" "0xc2 \<le> f" "f \<le> 0xdf" "0x80 \<le> x" "x \<le> 0xbf"
    | f x y where "v = [f, x, y]" "0xe0 \<le> f" "f \<le> 0xef" "0x80 \<le> x" "x \<le> 0xbf" "0x80 \<le> y" "y \<le> 0xbf"
        "f = 0xe0 \<longrightarrow> 0xa0 \<le> x" "f = 0xed \<longrightarrow> x \<le> 0x9f"
    | f x y z where "v = [f, x, y, z]" "0xf0 \<le> f" "f \<le> 0xf4" "0x80 \<le> x" "x \<le> 0xbf" "0x80 \<le> y" "y \<le> 0xbf"
        "0x80 \<le> z" "z \<le> 0xbf" "f = 0xf0 \<longrightarrow> 0x90 \<le> x" "f = 0xf4 \<longrightarrow> x \<le> 0x8f"
proof -
  consider "length v = 1" | "length v = 2" | "length v = 3" | "length v = 4" using assms unfolding utf8_ok_def by blast
  then show ?thesis
  proof cases
    case 1
    then obtain f where "v = [f]" by (auto simp: length_Suc_conv)
    with assms that(1) show ?thesis by (simp add: utf8_ok_def)
  next
    case 2
    with length_small_cases(1) obtain f x where "v = [f, x]" by blast
    with assms that(2) show ?thesis by (simp add: utf8_ok_def)
  next
    case 3
    with length_small_cases(2) obtain f x y where "v = [f, x, y]" by blast
    with assms that(3) show ?thesis by (simp add: utf8_ok_def)
  next
    case 4
    with length_small_cases(3) obtain f x y z where "v = [f, x, y, z]" by blast
    with assms that(4) show ?thesis by (simp add: utf8_ok_def)
  qed
qed

lemma utf8_ok_octets:
  assumes "utf8_ok v"
  shows "\<exists>c. unicode_scalar c \<and> v = utf8_octets c"
  using assms
proof (cases rule: utf8_okE)
  case (1 f)
  then show ?thesis by (intro exI [of _ f]) (simp add: unicode_scalar_def utf8_octets_def)
next
  case (2 f x)
  then obtain a r where v: "f = 0xc0 + a" "x = 0x80 + r" 
    using le_iff_add [THEN iffD1, of "0xc0" f] le_iff_add [THEN iffD1, of "0x80" x] by auto
  have "0x80 \<le> 64 * a + r" "64 * a + r < 0x800" using 2 unfolding v by simp_all
  with 2 utf8_octets_code2 [OF refl] show ?thesis
    unfolding v by (intro exI [of _ "64 * a + r"]) (simp add: unicode_scalar_def)
next
  case (3 f x y)
  then obtain a b r where v: "f = 0xe0 + a" "x = 0x80 + b" "y = 0x80 + r"
    using le_iff_add [THEN iffD1, of "0xe0" f] le_iff_add [THEN iffD1, of "0x80" x] le_iff_add [THEN iffD1, of "0x80" y] by auto
  let ?c = "4096 * a + 64 * b + r"
  have b: "b < 64" "r < 64" "a \<le> 15" "a = 0 \<Longrightarrow> 32 \<le> b" "a = 13 \<Longrightarrow> b \<le> 31" using 3 unfolding v by simp_all
  then have "0x800 \<le> ?c" "?c < 0x10000" by (cases "a = 0"; simp)+
  moreover have "?c < 0xd800 \<or> 0xe000 \<le> ?c" using b by (cases "a = 13"; cases "a < 13"; simp)
  ultimately show ?thesis using 3 utf8_octets_code3 [OF refl b(2,1)]
    unfolding v by (intro exI [of _ ?c]) (auto simp: unicode_scalar_def)
next
  case (4 f x y z)
  then obtain a b d r where v: "f = 0xf0 + a" "x = 0x80 + b" "y = 0x80 + d" "z = 0x80 + r"
    using le_iff_add [THEN iffD1, of "0xf0" f] le_iff_add [THEN iffD1, of "0x80" x] le_iff_add [THEN iffD1, of "0x80" y] le_iff_add [THEN iffD1, of "0x80" z] by auto
  let ?c = "262144 * a + 4096 * b + 64 * d + r"
  have b: "b < 64" "d < 64" "r < 64" "a \<le> 4" "a = 0 \<Longrightarrow> 16 \<le> b" "a = 4 \<Longrightarrow> b \<le> 15" using 4 unfolding v by simp_all
  then have "0x10000 \<le> ?c" "?c \<le> 0x10ffff" by (cases "a = 0"; cases "a = 4"; simp)+
  then show ?thesis using 4 utf8_octets_code4 [OF refl b(3,2,1)]
    unfolding v by (intro exI [of _ ?c]) (auto simp: unicode_scalar_def)
qed

lemma utf8_loop_sound: "utf8_loop p 0 \<Longrightarrow> \<exists>cs. list_all unicode_scalar cs \<and> p = concat (map utf8_encode cs)"
proof (induction "length p" arbitrary: p rule: less_induct)
  case less
  show ?case
  proof (cases "p = []")
    case True
    then show ?thesis by (intro exI [of _ "[]"]) simp
  next
    case ne: False
    with less.prems obtain n where n: "utf8_sequence p 0 = Some n"
      by (auto simp: utf8_loop.simps [of p 0] split: option.splits)
    note ok = utf8_sequence_sound [OF n ne] and n1 = utf8_sequence_range [OF n]
    from ok have "utf8_loop (drop n p) 0" using less.prems utf8_loop_step [OF ne n] by simp
    moreover have "length (drop n p) < length p" using n1 ne by simp
    ultimately obtain cs where cs: "list_all unicode_scalar cs" "drop n p = concat (map utf8_encode cs)" using less.hyps by blast
    from ok obtain c where c: "unicode_scalar c" "map unat (take n p) = utf8_octets c" using utf8_ok_octets by blast
    have "utf8_encode c = map (of_nat \<circ> unat) (take n p)" unfolding utf8_encode_def c(2) [symmetric] by simp
    then have "take n p = utf8_encode c" by (simp add: comp_def map_idI)
    then have "p = concat (map utf8_encode (c # cs))" using append_take_drop_id [of n p] by (simp add: cs(2))
    with c(1) cs(1) show ?thesis by (intro exI [of _ "c # cs"]) simp
  qed
qed

lemma utf8_ok_bytes: "utf8_ok v \<Longrightarrow> map unat (map of_nat v :: bytes) = v"
  by (erule utf8_okE) (simp_all add: unat_of_nat_small)

lemma utf8_loop_complete: "list_all unicode_scalar cs \<Longrightarrow> utf8_loop (concat (map utf8_encode cs)) 0"
proof (induction cs)
  case Nil
  then show ?case by (simp add: utf8_loop.simps)
next
  case (Cons c cs)
  let ?q = "utf8_encode c"
  have ok: "utf8_ok (utf8_octets c)" using Cons.prems by (simp add: utf8_octets_ok)
  then have "utf8_ok (map unat ?q)" by (simp only: utf8_encode_def utf8_ok_bytes)
  from utf8_sequence_complete [OF this] have seq: "utf8_sequence (?q @ concat (map utf8_encode cs)) 0 = Some (length ?q)" .
  have "?q \<noteq> []" using utf8_sequence_range [OF seq] by auto
  with utf8_loop_step [OF _ seq] Cons show ?case by simp
qed

subsection \<open>Properties\<close>

text \<open>C24:
  The UTF-8 check decides well-formedness in the sense of RFC 3629: it accepts a text exactly
  when its bytes are the concatenated encodings of Unicode scalar values.  Overlong forms,
  surrogate code points, values above U+10FFFF, stray continuation bytes and truncated sequences
  have no such decomposition and are refused.
\<close>

theorem utf8_is_valid_correct:
  "utf8_is_valid text \<longleftrightarrow> (\<exists>cs. list_all unicode_scalar cs \<and> v_bytes text = concat (map utf8_encode cs))"
  unfolding utf8_is_valid_def using utf8_loop_sound utf8_loop_complete by metis

end
