(* ===== verification/Broker.thy ===== *)
theory Broker
  imports Record_Reader Stream_State Cbor Utf8
begin

text \<open>
  The request broker, \<open>include/pbns/broker.h\<close>, \<open>include/pbns/transport.h\<close> and
  \<open>src/core/broker.c\<close>.

  The transport and the platform are callbacks over an arbitrary environment \<open>'e\<close>; every call
  returns the new environment.  A callback that fills a buffer returns the bytes it stores from
  the start of the buffer (\<open>filled\<close>: it cannot write past the capacity).  An operation takes and
  returns the broker and the environment explicitly; the operations that contain the receive
  loop are option-valued, \<open>None\<close> being a call that never returns.

  The record reader keeps its partial record in the storage buffer \<open>encoded\<close>, which the senders
  also use.  Both records name that memory, so every write goes to both (\<open>set_encoded\<close>, and the
  assignment after the push).  A request body is read after the storage has been wiped, so the
  bytes sent are those found then at the address of the body (\<open>view_reload\<close>).

  The calls of the vendored CBOR decoder are a parameter (\<open>qcbor_decoder\<close>), as is what a CBOR
  encoding that does not fit leaves in the buffer (\<open>residue\<close>).
\<close>

subsection \<open>Transport and platform\<close>

record 'e pbns_transport_ops =
  t_open :: "('e \<Rightarrow> pbns_status \<times> 'e) option"
  t_close :: "('e \<Rightarrow> pbns_status \<times> 'e) option"
  t_send :: "('e \<Rightarrow> pbns_view \<Rightarrow> u32 \<Rightarrow> pbns_status \<times> 'e) option"
  t_receive :: "('e \<Rightarrow> pbns_buffer \<Rightarrow> u32 \<Rightarrow> pbns_status \<times> bytes \<times> nat \<times> 'e) option"
  t_cancel :: "('e \<Rightarrow> pbns_request_id \<Rightarrow> pbns_status \<times> 'e) option"
  t_limits :: "('e \<Rightarrow> pbns_status \<times> pbns_frame_limits \<times> 'e) option"

record 'e pbns_broker_platform_ops =
  p_random :: "('e \<Rightarrow> pbns_buffer \<Rightarrow> pbns_status \<times> bytes \<times> 'e) option"
  p_monotonic_ms :: "('e \<Rightarrow> pbns_status \<times> u64 \<times> 'e) option"

type_synonym 'e pbns_transport = "'e pbns_transport_ops ptr"
type_synonym 'e pbns_broker_platform = "'e pbns_broker_platform_ops ptr"

subsection \<open>State\<close>

record pbns_broker_storage =
  encoded :: pbns_buffer
  raw_scratch :: pbns_buffer
  receive :: pbns_buffer
  decoded :: pbns_buffer

record pbns_broker_response =
  resp_frame :: pbns_frame
  resp_payload :: pbns_view

record 'e pbns_broker =
  transport :: "'e pbns_transport"
  platform :: "'e pbns_broker_platform"
  storage :: pbns_broker_storage
  reader :: pbns_record_reader
  stream :: pbns_stream_state
  limits :: pbns_frame_limits
  request_id :: pbns_request_id
  service :: pbns_service_id
  deadline_ms :: u64
  receive_offset :: nat
  receive_length :: nat
  bulk_exact_data_size :: u64
  bulk_received_data_size :: u64
  bulk_next_ack_sequence :: u32
  upload_next_sequence :: u32
  initialized :: bool
  opened :: bool
  active :: bool
  deadline_active :: bool
  bulk_mode :: bool
  bulk_failed :: bool
  upload_mode :: bool
  upload_response_received :: bool

definition zero_response :: pbns_broker_response where
  "zero_response = \<lparr>resp_frame = zero_frame, resp_payload = null_view\<rparr>"

definition zero_storage :: pbns_broker_storage where
  "zero_storage = \<lparr>encoded = null_buffer, raw_scratch = null_buffer, receive = null_buffer, decoded = null_buffer\<rparr>"

definition zero_broker :: "'e pbns_broker" where
  "zero_broker = \<lparr>transport = None, platform = None, storage = zero_storage, reader = zero_reader, stream = zero_stream,
     limits = \<lparr>control_payload_max = 0, data_payload_max = 0, encoded_record_max = 0\<rparr>, request_id = zero_request_id,
     service = PBNS_SERVICE_INVALID, deadline_ms = 0, receive_offset = 0, receive_length = 0, bulk_exact_data_size = 0,
     bulk_received_data_size = 0, bulk_next_ack_sequence = 0, upload_next_sequence = 0, initialized = False, opened = False,
     active = False, deadline_active = False, bulk_mode = False, bulk_failed = False, upload_mode = False,
     upload_response_received = False\<rparr>"

abbreviation PBNS_BROKER_CANCEL_TIMEOUT_MS :: u32 where "PBNS_BROKER_CANCEL_TIMEOUT_MS \<equiv> 1000"
abbreviation PBNS_ERROR_FIELD_COUNT :: nat where "PBNS_ERROR_FIELD_COUNT \<equiv> 3"
abbreviation PBNS_ERROR_DETAIL_MAX :: nat where "PBNS_ERROR_DETAIL_MAX \<equiv> 256"
abbreviation PBNS_BROKER_BULK_WINDOW :: u32 where "PBNS_BROKER_BULK_WINDOW \<equiv> 8"

subsection \<open>Validation\<close>

definition buffer_ranges_overlap :: "pbns_buffer \<Rightarrow> pbns_buffer \<Rightarrow> bool" where
  "buffer_ranges_overlap left right = ranges_overlap (b_ptr left) (b_cap left) (b_ptr right) (b_cap right)"

fun any_overlap :: "pbns_buffer list \<Rightarrow> bool" where
  "any_overlap [] = False"
| "any_overlap (left # rest) = (list_ex (buffer_ranges_overlap left) rest \<or> any_overlap rest)"

definition storage_is_valid :: "pbns_broker_storage \<Rightarrow> bool" where
  "storage_is_valid st =
     (let minimum_raw = PBNS_FRAME_V1_HEADER_SIZE + PBNS_FRAME_V1_TRAILER_SIZE;
          minimum_wire = minimum_raw + 2
      in if \<not> buffer_is_valid (encoded st) \<or> \<not> buffer_is_valid (raw_scratch st) \<or>
            \<not> buffer_is_valid (receive st) \<or> \<not> buffer_is_valid (decoded st) \<or>
            b_cap (encoded st) < minimum_wire \<or> b_cap (raw_scratch st) < minimum_raw \<or>
            b_cap (receive st) = 0 \<or> b_cap (decoded st) = 0
         then False
         else \<not> any_overlap [encoded st, raw_scratch st, receive st, decoded st])"

definition transport_is_valid :: "'e pbns_transport \<Rightarrow> bool" where
  "transport_is_valid t \<longleftrightarrow>
     (case t of None \<Rightarrow> False
      | Some ops \<Rightarrow> t_open ops \<noteq> None \<and> t_close ops \<noteq> None \<and> t_send ops \<noteq> None \<and> t_receive ops \<noteq> None \<and>
          t_cancel ops \<noteq> None \<and> t_limits ops \<noteq> None)"

definition platform_is_valid :: "'e pbns_broker_platform \<Rightarrow> bool" where
  "platform_is_valid p \<longleftrightarrow>
     (case p of None \<Rightarrow> False | Some ops \<Rightarrow> p_random ops \<noteq> None \<and> p_monotonic_ms ops \<noteq> None)"

subsection \<open>Storage\<close>

definition wipe_buffer :: "pbns_buffer \<Rightarrow> pbns_buffer" where
  "wipe_buffer b = b\<lparr>b_mem := replicate (b_cap b) 0\<rparr>"

definition clear_response :: "pbns_broker_response ptr \<Rightarrow> pbns_broker_response ptr" where
  "clear_response response = map_option (\<lambda>_. zero_response) response"

text \<open>A write to the memory that the storage and the reader share.\<close>

definition set_encoded :: "'e pbns_broker \<Rightarrow> bytes \<Rightarrow> 'e pbns_broker" where
  "set_encoded b mem =
     b\<lparr>storage := (storage b)\<lparr>encoded := (encoded (storage b))\<lparr>b_mem := mem\<rparr>\<rparr>,
       reader := (reader b)\<lparr>r_storage := (r_storage (reader b))\<lparr>b_mem := mem\<rparr>\<rparr>\<rparr>"

definition set_raw_scratch :: "'e pbns_broker \<Rightarrow> bytes \<Rightarrow> 'e pbns_broker" where
  "set_raw_scratch b mem = b\<lparr>storage := (storage b)\<lparr>raw_scratch := (raw_scratch (storage b))\<lparr>b_mem := mem\<rparr>\<rparr>\<rparr>"

definition set_receive :: "'e pbns_broker \<Rightarrow> bytes \<Rightarrow> 'e pbns_broker" where
  "set_receive b mem = b\<lparr>storage := (storage b)\<lparr>receive := (receive (storage b))\<lparr>b_mem := mem\<rparr>\<rparr>\<rparr>"

definition set_decoded :: "'e pbns_broker \<Rightarrow> bytes \<Rightarrow> nat \<Rightarrow> 'e pbns_broker" where
  "set_decoded b mem len = b\<lparr>storage := (storage b)\<lparr>decoded := (decoded (storage b))\<lparr>b_mem := mem, b_len := len\<rparr>\<rparr>\<rparr>"

definition wipe_request_storage :: "'e pbns_broker \<Rightarrow> bool \<Rightarrow> 'e pbns_broker" where
  "wipe_request_storage b preserve_decoded =
     (let b = set_encoded b (replicate (b_cap (encoded (storage b))) 0);
          b = b\<lparr>storage := (storage b)
                 \<lparr>encoded := (encoded (storage b))\<lparr>b_len := 0\<rparr>,
                  raw_scratch := (wipe_buffer (raw_scratch (storage b)))\<lparr>b_len := 0\<rparr>,
                  receive := (wipe_buffer (receive (storage b)))\<lparr>b_len := 0\<rparr>\<rparr>\<rparr>
      in if \<not> preserve_decoded
         then b\<lparr>storage := (storage b)\<lparr>decoded := (wipe_buffer (decoded (storage b)))\<lparr>b_len := 0\<rparr>\<rparr>\<rparr>
         else b)"

text \<open>The bytes found at the address of a view, when part of it may lie in the storage.\<close>

definition buffer_at :: "pbns_buffer \<Rightarrow> nat \<Rightarrow> byte option" where
  "buffer_at b a = (if b_ptr b \<le> a \<and> a < b_ptr b + b_cap b then Some (b_mem b ! (a - b_ptr b)) else None)"

definition view_reload :: "pbns_broker_storage \<Rightarrow> pbns_view \<Rightarrow> pbns_view" where
  "view_reload st v = v\<lparr>v_bytes := map (\<lambda>i.
     case List.map_filter (\<lambda>b. buffer_at b (v_ptr v + i)) [encoded st, raw_scratch st, receive st, decoded st] of
       [] \<Rightarrow> v_bytes v ! i | x # _ \<Rightarrow> x) [0..<v_len v]\<rparr>"

definition minimum_size :: "nat \<Rightarrow> nat \<Rightarrow> nat" where
  "minimum_size left right = (if left < right then left else right)"

subsection \<open>Limits and deadlines\<close>

definition query_effective_limits :: "'e pbns_broker \<Rightarrow> 'e \<Rightarrow> pbns_status \<times> 'e pbns_broker \<times> 'e" where
  "query_effective_limits b e =
     (case the (t_limits (the (transport b))) e of
        (status, transport_limits, e) \<Rightarrow>
          if status \<noteq> PBNS_OK then (status, b, e)
          else if control_payload_max transport_limits > PBNS_FRAME_V1_CONTROL_PAYLOAD_MAX \<or>
                  data_payload_max transport_limits > PBNS_FRAME_V1_DATA_PAYLOAD_MAX \<or>
                  encoded_record_max transport_limits > PBNS_FRAME_V1_WIRE_MAX \<or>
                  encoded_record_max transport_limits < 2
          then (PBNS_ERR_LIMIT, b, e)
          else
            let payload_capacity =
                  b_cap (raw_scratch (storage b)) - PBNS_FRAME_V1_HEADER_SIZE - PBNS_FRAME_V1_TRAILER_SIZE;
                room = minimum_size payload_capacity (b_cap (decoded (storage b)))
            in (PBNS_OK, b\<lparr>limits :=
                  \<lparr>control_payload_max = minimum_size (control_payload_max transport_limits) room,
                   data_payload_max = minimum_size (data_payload_max transport_limits) room,
                   encoded_record_max = minimum_size (encoded_record_max transport_limits) (b_cap (encoded (storage b)))\<rparr>\<rparr>, e))"

definition begin_deadline :: "'e pbns_broker \<Rightarrow> u32 \<Rightarrow> 'e \<Rightarrow> pbns_status \<times> 'e pbns_broker \<times> 'e" where
  "begin_deadline b timeout_ms e =
     (case the (p_monotonic_ms (the (platform b))) e of
        (status, now_ms, e) \<Rightarrow>
          if status \<noteq> PBNS_OK then (status, b, e)
          else
            let duration = ucast timeout_ms
            in (PBNS_OK, b\<lparr>deadline_ms := (if duration > - 1 - now_ms then - 1 else now_ms + duration),
                          deadline_active := True\<rparr>, e))"

definition remaining_timeout :: "'e pbns_broker \<Rightarrow> u32 ptr \<Rightarrow> 'e \<Rightarrow> pbns_status \<times> u32 ptr \<times> 'e" where
  "remaining_timeout b remaining_ms e =
     (if remaining_ms = None then (PBNS_ERR_ARGUMENT, None, e)
      else if \<not> deadline_active b then (PBNS_ERR_STATE, Some 0, e)
      else
        (case the (p_monotonic_ms (the (platform b))) e of
           (status, now_ms, e) \<Rightarrow>
             if status \<noteq> PBNS_OK then (status, Some 0, e)
             else if now_ms \<ge> deadline_ms b then (PBNS_ERR_TIMEOUT, Some 0, e)
             else
               let remaining = deadline_ms b - now_ms
               in (PBNS_OK, Some (if remaining > ucast (- 1 :: u32) then - 1 else ucast remaining), e)))"

subsection \<open>Request identifiers\<close>

definition broker_request_ids_match :: "pbns_request_id \<Rightarrow> pbns_request_id \<Rightarrow> bool" where
  "broker_request_ids_match left right \<longleftrightarrow>
     foldl (\<lambda>difference index. difference OR (left ! index XOR right ! index)) 0 [0..<PBNS_REQUEST_ID_SIZE] = 0"

definition request_id_is_nonzero :: "pbns_request_id \<Rightarrow> bool" where
  "request_id_is_nonzero rid \<longleftrightarrow>
     foldl (\<lambda>combined index. combined OR rid ! index) 0 [0..<PBNS_REQUEST_ID_SIZE] \<noteq> 0"

subsection \<open>Remote errors\<close>

definition next_labeled_item :: "qcbor_decoder \<Rightarrow> bytes \<Rightarrow> nat \<Rightarrow> int \<Rightarrow> qcbor_item option" where
  "next_labeled_item qc input n expected_label =
     (case QCBORDecode_GetNext qc input n of
        None \<Rightarrow> None
      | Some item \<Rightarrow>
          if q_nesting item \<noteq> 1 \<or> q_label item \<noteq> Q_LABEL_INT64 expected_label then None else Some item)"

definition error_map :: "u64 \<Rightarrow> u64 \<Rightarrow> bytes \<Rightarrow> bytes" where
  "error_map code svc detail =
     cbor_map [(cbor_uint 1, cbor_uint code), (cbor_uint 2, cbor_uint svc), (cbor_uint 3, cbor_text detail)]"

text \<open>The decoding of the three fields: the status to return, or the code, service and detail.\<close>

definition error_fields ::
  "qcbor_decoder \<Rightarrow> bytes \<Rightarrow> pbns_service_id \<Rightarrow> pbns_status + (u64 \<times> u64 \<times> bytes)" where
  "error_fields qc payload expected_service =
     (case QCBORDecode_GetNext qc payload 0 of
        None \<Rightarrow> Inl PBNS_ERR_FORMAT
      | Some item \<Rightarrow>
          if q_value item \<noteq> Q_MAP PBNS_ERROR_FIELD_COUNT \<or> q_label item \<noteq> Q_LABEL_NONE then Inl PBNS_ERR_FORMAT
          else
            (case Option.bind (next_labeled_item qc payload 1 1) item_to_uint64 of
               None \<Rightarrow> Inl PBNS_ERR_FORMAT
             | Some code \<Rightarrow>
                 if code < 1 \<or> code > 22 then Inl PBNS_ERR_FORMAT
                 else
                   (case Option.bind (next_labeled_item qc payload 2 2) item_to_uint64 of
                      None \<Rightarrow> Inl PBNS_ERR_FORMAT
                    | Some svc \<Rightarrow>
                        if svc \<noteq> of_nat (service_code expected_service) then Inl PBNS_ERR_SERVICE
                        else
                          (case next_labeled_item qc payload 3 3 of
                             None \<Rightarrow> Inl PBNS_ERR_FORMAT
                           | Some item \<Rightarrow>
                               (case q_value item of
                                  Q_TEXT_STRING detail \<Rightarrow>
                                    if length detail > PBNS_ERROR_DETAIL_MAX then Inl PBNS_ERR_FORMAT
                                    else if \<not> utf8_is_valid \<lparr>v_ptr = 1, v_bytes = detail\<rparr> \<or>
                                            \<not> QCBORDecode_Finish qc payload 4 then Inl PBNS_ERR_FORMAT
                                    else Inr (code, svc, detail)
                                | _ \<Rightarrow> Inl PBNS_ERR_FORMAT)))))"

definition decode_remote_error ::
  "qcbor_decoder \<Rightarrow> (bytes \<Rightarrow> bytes \<Rightarrow> bytes) \<Rightarrow> 'e pbns_broker \<Rightarrow> pbns_view \<Rightarrow> pbns_service_id \<Rightarrow> pbns_status \<times> 'e pbns_broker" where
  "decode_remote_error qc residue b payload expected_service =
     (case error_fields qc (v_bytes payload) expected_service of
        Inl status \<Rightarrow> (status, b)
      | Inr (code, svc, detail) \<Rightarrow>
          let canonical = error_map code svc detail;
              buffer = decoded (storage b)
          in if length canonical > b_cap buffer
             then (PBNS_ERR_LIMIT, set_decoded b (filled (b_mem buffer) (residue canonical (b_mem buffer))) (b_len buffer))
             else
               let b = set_decoded b (store_at (b_mem buffer) 0 canonical) (b_len buffer)
               in if canonical \<noteq> v_bytes payload then (PBNS_ERR_FORMAT, b)
                  else (pbns_status_table ! unat code, b))"

subsection \<open>Ending a session\<close>

definition finish_session :: "'e pbns_broker \<Rightarrow> bool \<Rightarrow> 'e \<Rightarrow> pbns_status \<times> 'e pbns_broker \<times> 'e" where
  "finish_session b preserve_decoded e =
     (case (if opened b then the (t_close (the (transport b))) e else (PBNS_OK, e)) of
        (close_status, e) \<Rightarrow>
          let b = b\<lparr>opened := False, active := False, deadline_active := False, deadline_ms := 0,
                    receive_offset := 0, receive_length := 0, bulk_exact_data_size := 0,
                    bulk_received_data_size := 0, bulk_next_ack_sequence := 0, upload_next_sequence := 0,
                    bulk_mode := False, bulk_failed := False, upload_mode := False,
                    upload_response_received := False, service := PBNS_SERVICE_INVALID,
                    request_id := zero_request_id,
                    reader := the (pbns_record_reader_reset (Some (reader b))), stream := zero_stream\<rparr>
          in (close_status, wipe_request_storage b preserve_decoded, e))"

text \<open>The call of the frame encoder on the broker's storage, as every sender makes it.\<close>

definition broker_encode :: "'e pbns_broker \<Rightarrow> pbns_frame \<Rightarrow> pbns_view \<Rightarrow> pbns_status \<times> 'e pbns_broker \<times> nat" where
  "broker_encode b frame payload =
     (case pbns_frame_encode (Some frame) payload
        ((raw_scratch (storage b))\<lparr>b_len := 0\<rparr>) ((encoded (storage b))\<lparr>b_len := 0\<rparr>) (Some 0) of
        (status, raw, out, written) \<Rightarrow> (status, set_encoded (set_raw_scratch b raw) out, the written))"

definition broker_send :: "'e pbns_broker \<Rightarrow> nat \<Rightarrow> u32 \<Rightarrow> 'e \<Rightarrow> pbns_status \<times> 'e" where
  "broker_send b written timeout_ms e =
     the (t_send (the (transport b))) e
       \<lparr>v_ptr = b_ptr (encoded (storage b)), v_bytes = take written (b_mem (encoded (storage b)))\<rparr> timeout_ms"

text \<open>Encoding and sending within the deadline: the calls that the three kinds of request share.\<close>

definition emit_frame :: "'e pbns_broker \<Rightarrow> pbns_frame \<Rightarrow> pbns_view \<Rightarrow> 'e \<Rightarrow> pbns_status \<times> 'e pbns_broker \<times> 'e" where
  "emit_frame b frame payload e =
     (case broker_encode b frame payload of
        (status, b, written) \<Rightarrow>
          if status \<noteq> PBNS_OK then (status, b, e)
          else
            (case remaining_timeout b (Some 0) e of
               (status, remaining_ms, e) \<Rightarrow>
                 if status \<noteq> PBNS_OK then (status, b, e)
                 else (case broker_send b written (the remaining_ms) e of (status, e) \<Rightarrow> (status, b, e))))"

text \<open>
  The opening of a session, which the three kinds of request share up to what they do to the
  storage when the clock or the transport fails (\<open>undo\<close>): an early return, or the status of the
  limits query with the transport open.
\<close>

definition open_session ::
  "('e pbns_broker \<Rightarrow> 'e pbns_broker) \<Rightarrow> 'e pbns_broker \<Rightarrow> pbns_request_id \<Rightarrow> u32 \<Rightarrow> 'e \<Rightarrow>
   (pbns_status \<times> 'e pbns_broker \<times> 'e) + (pbns_status \<times> 'e pbns_broker \<times> 'e)" where
  "open_session undo b rid timeout_ms e =
     (case begin_deadline (b\<lparr>request_id := rid\<rparr>) timeout_ms e of
        (status, b, e) \<Rightarrow>
          if status \<noteq> PBNS_OK then Inl (status, undo (b\<lparr>request_id := zero_request_id\<rparr>), e)
          else
            (case the (t_open (the (transport b))) e of
               (status, e) \<Rightarrow>
                 if status \<noteq> PBNS_OK
                 then Inl (status, undo (b\<lparr>deadline_active := False, request_id := zero_request_id\<rparr>), e)
                 else Inr (query_effective_limits (b\<lparr>opened := True\<rparr>) e)))"

text \<open>The wipe and the reader reset that precede every request.\<close>

definition fresh_session :: "'e pbns_broker \<Rightarrow> 'e pbns_broker" where
  "fresh_session b =
     (let b = wipe_request_storage b False
      in b\<lparr>reader := the (pbns_record_reader_reset (Some (reader b)))\<rparr>)"

text \<open>A session abandoned before it became active.\<close>

definition drop_session :: "pbns_status \<Rightarrow> 'e pbns_broker \<Rightarrow> 'e \<Rightarrow> pbns_status \<times> 'e pbns_broker \<times> 'e" where
  "drop_session status b e = (case finish_session b False e of (_, b, e) \<Rightarrow> (status, b, e))"

definition emit_cancel :: "'e pbns_broker \<Rightarrow> 'e \<Rightarrow> pbns_status \<times> 'e pbns_broker \<times> 'e" where
  "emit_cancel b e =
     (case broker_encode b \<lparr>f_service = service b, f_type = PBNS_MESSAGE_CANCEL, f_flags = 0,
                            f_request_id = request_id b, f_sequence = 1\<rparr> null_view of
        (status, b, written) \<Rightarrow>
          if status \<noteq> PBNS_OK then (status, b, e)
          else (case broker_send b written PBNS_BROKER_CANCEL_TIMEOUT_MS e of (status, e) \<Rightarrow> (status, b, e)))"

definition pbns_broker_init ::
  "'e pbns_broker ptr \<Rightarrow> 'e pbns_transport \<Rightarrow> 'e pbns_broker_platform \<Rightarrow> pbns_broker_storage \<Rightarrow>
   pbns_status \<times> 'e pbns_broker ptr" where
  "pbns_broker_init broker tr pl st =
     (if broker = None then (PBNS_ERR_ARGUMENT, None)
      else if \<not> transport_is_valid tr \<or> \<not> platform_is_valid pl \<or> \<not> storage_is_valid st
        then (PBNS_ERR_ARGUMENT, Some zero_broker)
      else
        let b = zero_broker\<lparr>transport := tr, platform := pl, storage := st\<rparr>;
            b = b\<lparr>reader := the (pbns_record_reader_init (Some (reader b)) (encoded (storage b)))\<rparr>
        in if \<not> r_initialized (reader b) then (PBNS_ERR_ARGUMENT, Some zero_broker)
           else (PBNS_OK, Some (b\<lparr>initialized := True\<rparr>)))"

subsection \<open>Receiving\<close>

text \<open>
  One attempt to obtain something: try again (the \<open>continue\<close> of the loops), give up with a status,
  or the result.
\<close>

datatype 'a attempt = Again | Failed pbns_status | Got 'a

text \<open>The first part of both receive loops: refill the receive buffer when it is used up.\<close>

definition receive_fill :: "'e pbns_broker \<Rightarrow> 'e \<Rightarrow> unit attempt \<times> 'e pbns_broker \<times> 'e" where
  "receive_fill b e =
     (if receive_offset b \<ge> receive_length b then
        let b = b\<lparr>receive_offset := 0, receive_length := 0\<rparr>
        in case remaining_timeout b (Some 0) e of
             (status, remaining_ms, e) \<Rightarrow>
               if status \<noteq> PBNS_OK then (Failed status, b, e)
               else
                 (case the (t_receive (the (transport b))) e ((receive (storage b))\<lparr>b_len := 0\<rparr>) (the remaining_ms) of
                    (status, bytes, received, e) \<Rightarrow>
                      let b = set_receive b (filled (b_mem (receive (storage b))) bytes)
                      in if status = PBNS_ERR_WOULD_BLOCK then
                           (if received \<noteq> 0 then (Failed PBNS_ERR_TRANSPORT, b, e) else (Again, b, e))
                         else if status \<noteq> PBNS_OK then (Failed status, b, e)
                         else if received = 0 \<or> received > b_cap (receive (storage b)) then (Failed PBNS_ERR_TRANSPORT, b, e)
                         else (Got (), b\<lparr>receive_length := received\<rparr>, e))
      else (Got (), b, e))"

text \<open>The second part: push the pending bytes to the record reader and decode a finished record.\<close>

definition receive_record :: "'e pbns_broker \<Rightarrow> (pbns_frame \<times> pbns_view) attempt \<times> 'e pbns_broker" where
  "receive_record b =
     (case pbns_record_reader_push (Some (reader b))
        \<lparr>v_ptr = b_ptr (receive (storage b)) + receive_offset b,
         v_bytes = drop (receive_offset b) (take (receive_length b) (b_mem (receive (storage b))))\<rparr>
        (Some 0) (Some False) (Some null_view) of
        (reader_status, r, consumed, ready, record) \<Rightarrow>
          let b = (set_encoded b (b_mem (r_storage (the r))))
                \<lparr>reader := the r, receive_offset := receive_offset b + the consumed\<rparr>
          in if reader_status = PBNS_ERR_WOULD_BLOCK then (Again, b)
             else if reader_status \<noteq> PBNS_OK \<or> \<not> the ready
               then (Failed (if reader_status \<noteq> PBNS_OK then reader_status else PBNS_ERR_STATE), b)
             else
               (case pbns_frame_decode (the record) (limits b) ((raw_scratch (storage b))\<lparr>b_len := 0\<rparr>)
                  (Some zero_frame) (Some null_view) of
                  (status, raw, frame, payload) \<Rightarrow>
                    let b = (set_raw_scratch b raw)\<lparr>reader := the (pbns_record_reader_reset (Some (reader b)))\<rparr>
                    in if status \<noteq> PBNS_OK then (Failed status, b) else (Got (the frame, the payload), b)))"

text \<open>The last part: copy the payload to the decoded buffer and fill in the response.\<close>

definition store_response ::
  "'e pbns_broker \<Rightarrow> pbns_frame \<Rightarrow> pbns_view \<Rightarrow> pbns_status \<times> 'e pbns_broker \<times> pbns_broker_response" where
  "store_response b frame payload =
     (let buffer = decoded (storage b)
      in if v_len payload > b_cap buffer then (PBNS_ERR_LIMIT, b, zero_response)
         else
           let mem = store_at (b_mem buffer) 0 (v_bytes payload)
           in (PBNS_OK, set_decoded b mem (v_len payload),
               \<lparr>resp_frame = frame, resp_payload = \<lparr>v_ptr = b_ptr buffer, v_bytes = take (v_len payload) mem\<rparr>\<rparr>))"

definition receive_body ::
  "qcbor_decoder \<Rightarrow> (bytes \<Rightarrow> bytes \<Rightarrow> bytes) \<Rightarrow> 'e pbns_broker \<times> 'e \<Rightarrow>
   'e pbns_broker \<times> 'e + pbns_status \<times> 'e pbns_broker \<times> pbns_broker_response \<times> 'e" where
  "receive_body qc residue = (\<lambda>(b, e).
     case receive_fill b e of
       (Again, b, e) \<Rightarrow> Inl (b, e)
     | (Failed status, b, e) \<Rightarrow> Inr (status, b, zero_response, e)
     | (Got _, b, e) \<Rightarrow>
         (case receive_record b of
            (Again, b) \<Rightarrow> Inl (b, e)
          | (Failed status, b) \<Rightarrow> Inr (status, b, zero_response, e)
          | (Got (frame, payload), b) \<Rightarrow>
              (case pbns_stream_accept (Some (stream b)) (Some frame) payload of
                 (status, s) \<Rightarrow>
                   let b = b\<lparr>stream := the s\<rparr>
                   in if status \<noteq> PBNS_OK then Inr (status, b, zero_response, e)
                      else if \<not> broker_request_ids_match (f_request_id frame) (request_id b)
                        then Inr (PBNS_ERR_STATE, b, zero_response, e)
                      else if f_type frame = PBNS_MESSAGE_ERROR then
                        (case decode_remote_error qc residue b payload (service b) of
                           (status, b) \<Rightarrow> Inr (status, b, zero_response, e))
                      else if f_type frame \<noteq> PBNS_MESSAGE_RESPONSE then Inr (PBNS_ERR_MESSAGE_TYPE, b, zero_response, e)
                      else (case store_response b frame payload of (status, b, response) \<Rightarrow> Inr (status, b, response, e)))))"

definition pbns_broker_receive ::
  "qcbor_decoder \<Rightarrow> (bytes \<Rightarrow> bytes \<Rightarrow> bytes) \<Rightarrow> 'e pbns_broker ptr \<Rightarrow> pbns_broker_response ptr \<Rightarrow> 'e \<Rightarrow>
   (pbns_status \<times> 'e pbns_broker ptr \<times> pbns_broker_response ptr \<times> 'e) option" where
  "pbns_broker_receive qc residue broker response e =
     (let response = clear_response response
      in if broker = None \<or> response = None then Some (PBNS_ERR_ARGUMENT, broker, response, e)
         else
           let b = the broker
           in if \<not> initialized b \<or> \<not> active b \<or> bulk_mode b then Some (PBNS_ERR_STATE, broker, response, e)
              else map_option (\<lambda>(status, b, r, e). (status, Some b, Some r, e)) (loop (receive_body qc residue) (b, e)))"

subsection \<open>Bulk transfers\<close>

definition fail_bulk_session :: "'e pbns_broker \<Rightarrow> pbns_status \<Rightarrow> pbns_status \<times> 'e pbns_broker" where
  "fail_bulk_session b status = (status, b\<lparr>bulk_failed := True, stream := (stream b)\<lparr>s_failed := True\<rparr>\<rparr>)"

definition bulk_begin_opened ::
  "'e pbns_broker \<Rightarrow> pbns_status \<Rightarrow> pbns_service_id \<Rightarrow> pbns_view \<Rightarrow> u64 \<Rightarrow> 'e \<Rightarrow> pbns_status \<times> 'e pbns_broker \<times> 'e" where
  "bulk_begin_opened b status svc request_body exact_data_size e =
     (let status =
            (if status = PBNS_OK \<and>
                (v_len request_body > control_payload_max (limits b) \<or> data_payload_max (limits b) = 0 \<or>
                 exact_data_size > of_nat (data_payload_max (limits b)) * (ucast (- 1 :: u32) - 1))
             then PBNS_ERR_LIMIT else status)
      in if status \<noteq> PBNS_OK then drop_session status b e
         else
           (case emit_frame b \<lparr>f_service = svc, f_type = PBNS_MESSAGE_REQUEST, f_flags = 0,
                               f_request_id = request_id b, f_sequence = 0\<rparr> (view_reload (storage b) request_body) e of
              (status, b, e) \<Rightarrow>
                if status \<noteq> PBNS_OK then drop_session status b e
                else
                  let b = b\<lparr>service := svc, active := True, bulk_mode := True, bulk_exact_data_size := exact_data_size,
                            stream := the (pbns_stream_init (Some (stream b)) svc (request_id b) (- 1))\<rparr>
                  in if \<not> s_initialized (stream b) then drop_session PBNS_ERR_STATE b e else (PBNS_OK, b, e)))"

definition pbns_broker_bulk_begin ::
  "'e pbns_broker ptr \<Rightarrow> pbns_service_id \<Rightarrow> pbns_request_id ptr \<Rightarrow> pbns_view \<Rightarrow> u64 \<Rightarrow> u32 \<Rightarrow> 'e \<Rightarrow>
   pbns_status \<times> 'e pbns_broker ptr \<times> 'e" where
  "pbns_broker_bulk_begin broker svc rid request_body exact_data_size timeout_ms e =
     (if broker = None \<or> rid = None \<or> \<not> view_is_valid request_body \<or> \<not> request_id_is_nonzero (the rid) \<or>
         exact_data_size = 0 \<or> timeout_ms = 0
      then (PBNS_ERR_ARGUMENT, broker, e)
      else
        let b = the broker
        in if \<not> initialized b then (PBNS_ERR_STATE, broker, e)
        else if \<not> service_is_valid svc then (PBNS_ERR_SERVICE, broker, e)
        else if active b \<or> opened b then (PBNS_ERR_BUSY, broker, e)
        else
          (case (case open_session (\<lambda>b. wipe_request_storage b False) (fresh_session b) (the rid) timeout_ms e of
                   Inl result \<Rightarrow> result
                 | Inr (status, b, e) \<Rightarrow> bulk_begin_opened b status svc request_body exact_data_size e) of
             (status, b, e) \<Rightarrow> (status, Some b, e)))"

definition bulk_deliver ::
  "qcbor_decoder \<Rightarrow> (bytes \<Rightarrow> bytes \<Rightarrow> bytes) \<Rightarrow> 'e pbns_broker \<Rightarrow> pbns_frame \<Rightarrow> pbns_view \<Rightarrow>
   pbns_status \<times> 'e pbns_broker \<times> pbns_broker_response" where
  "bulk_deliver qc residue b frame payload =
     (let fail = (\<lambda>b status. case fail_bulk_session b status of (status, b) \<Rightarrow> (status, b, zero_response));
          deliver = (\<lambda>b. case store_response b frame payload of
            (status, b, response) \<Rightarrow> if status \<noteq> PBNS_OK then fail b status else (PBNS_OK, b, response))
      in if f_type frame \<notin> {PBNS_MESSAGE_DATA, PBNS_MESSAGE_COMPLETE, PBNS_MESSAGE_ERROR} then fail b PBNS_ERR_MESSAGE_TYPE
         else
           (case pbns_stream_accept (Some (stream b)) (Some frame) payload of
              (status, s) \<Rightarrow>
                let b = b\<lparr>stream := the s\<rparr>
                in if status \<noteq> PBNS_OK then fail b status
                   else if f_type frame = PBNS_MESSAGE_ERROR then
                     (case decode_remote_error qc residue b payload (service b) of (status, b) \<Rightarrow> fail b status)
                   else if f_type frame = PBNS_MESSAGE_DATA then
                     (if v_len payload = 0 then fail b PBNS_ERR_FORMAT
                      else
                        let payload_size = of_nat (v_len payload)
                        in if bulk_received_data_size b > bulk_exact_data_size b \<or>
                              payload_size > bulk_exact_data_size b - bulk_received_data_size b
                           then fail b PBNS_ERR_LIMIT
                           else deliver (b\<lparr>bulk_received_data_size := bulk_received_data_size b + payload_size\<rparr>))
                   else if bulk_received_data_size b \<noteq> bulk_exact_data_size b then fail b PBNS_ERR_LIMIT
                   else deliver b))"

definition bulk_receive_body ::
  "qcbor_decoder \<Rightarrow> (bytes \<Rightarrow> bytes \<Rightarrow> bytes) \<Rightarrow> 'e pbns_broker \<times> 'e \<Rightarrow>
   'e pbns_broker \<times> 'e + pbns_status \<times> 'e pbns_broker \<times> pbns_broker_response \<times> 'e" where
  "bulk_receive_body qc residue = (\<lambda>(b, e).
     case receive_fill b e of
       (Again, b, e) \<Rightarrow> Inl (b, e)
     | (Failed status, b, e) \<Rightarrow> (case fail_bulk_session b status of (status, b) \<Rightarrow> Inr (status, b, zero_response, e))
     | (Got _, b, e) \<Rightarrow>
         (case receive_record b of
            (Again, b) \<Rightarrow> Inl (b, e)
          | (Failed status, b) \<Rightarrow> (case fail_bulk_session b status of (status, b) \<Rightarrow> Inr (status, b, zero_response, e))
          | (Got (frame, payload), b) \<Rightarrow>
              (case bulk_deliver qc residue b frame payload of (status, b, response) \<Rightarrow> Inr (status, b, response, e))))"

definition pbns_broker_bulk_receive ::
  "qcbor_decoder \<Rightarrow> (bytes \<Rightarrow> bytes \<Rightarrow> bytes) \<Rightarrow> 'e pbns_broker ptr \<Rightarrow> pbns_broker_response ptr \<Rightarrow> 'e \<Rightarrow>
   (pbns_status \<times> 'e pbns_broker ptr \<times> pbns_broker_response ptr \<times> 'e) option" where
  "pbns_broker_bulk_receive qc residue broker response e =
     (let response = clear_response response
      in if broker = None \<or> response = None then Some (PBNS_ERR_ARGUMENT, broker, response, e)
         else
           let b = the broker
           in if \<not> initialized b \<or> \<not> active b \<or> \<not> bulk_mode b \<or> bulk_failed b \<or> s_complete (stream b)
              then Some (PBNS_ERR_STATE, broker, response, e)
              else map_option (\<lambda>(status, b, r, e). (status, Some b, Some r, e)) (loop (bulk_receive_body qc residue) (b, e)))"

text \<open>\<open>stack\<close> is the address of the local array that holds the payload of the acknowledgement.\<close>

definition pbns_broker_bulk_ack ::
  "nat \<Rightarrow> 'e pbns_broker ptr \<Rightarrow> u32 \<Rightarrow> u32 \<Rightarrow> 'e \<Rightarrow> pbns_status \<times> 'e pbns_broker ptr \<times> 'e" where
  "pbns_broker_bulk_ack stack broker next_data_sequence window e =
     (if broker = None then (PBNS_ERR_ARGUMENT, broker, e)
      else
        let b = the broker;
            fail = (\<lambda>b status e. case fail_bulk_session b status of (status, b) \<Rightarrow> (status, Some b, e))
        in if \<not> initialized b \<or> \<not> active b \<or> \<not> bulk_mode b \<or> bulk_failed b \<or> s_complete (stream b)
           then (PBNS_ERR_STATE, broker, e)
           else
             let expected_data_sequence = (ucast (bulk_next_ack_sequence b) + 1) * ucast PBNS_BROKER_BULK_WINDOW :: u64
             in if next_data_sequence = 0 \<or> next_data_sequence \<noteq> s_next_sequence (stream b) \<or>
                   ucast next_data_sequence \<noteq> expected_data_sequence \<or>
                   window \<noteq> PBNS_BROKER_BULK_WINDOW \<or> bulk_next_ack_sequence b = - 1
                then (PBNS_ERR_ARGUMENT, broker, e)
                else
                  (case remaining_timeout b (Some 0) e of
                     (status, remaining_ms, e) \<Rightarrow>
                       if status \<noteq> PBNS_OK then fail b status e
                       else
                         (case broker_encode b \<lparr>f_service = service b, f_type = PBNS_MESSAGE_ACK, f_flags = 0,
                                                f_request_id = request_id b, f_sequence = bulk_next_ack_sequence b\<rparr>
                                 \<lparr>v_ptr = stack, v_bytes = write_u32_be next_data_sequence @ write_u32_be window\<rparr> of
                            (status, b, written) \<Rightarrow>
                              (case (if status = PBNS_OK then broker_send b written (the remaining_ms) e else (status, e)) of
                                 (status, e) \<Rightarrow>
                                   if status \<noteq> PBNS_OK then fail b status e
                                   else (PBNS_OK, Some (b\<lparr>bulk_next_ack_sequence := bulk_next_ack_sequence b + 1\<rparr>), e)))))"

definition pbns_broker_bulk_finish :: "'e pbns_broker ptr \<Rightarrow> 'e \<Rightarrow> pbns_status \<times> 'e pbns_broker ptr \<times> 'e" where
  "pbns_broker_bulk_finish broker e =
     (if broker = None then (PBNS_ERR_ARGUMENT, broker, e)
      else
        let b = the broker
        in if \<not> initialized b \<or> \<not> active b \<or> \<not> bulk_mode b \<or> bulk_failed b \<or> \<not> s_complete (stream b) \<or>
              bulk_received_data_size b \<noteq> bulk_exact_data_size b
           then (PBNS_ERR_STATE, broker, e)
           else (case finish_session b False e of (status, b, e) \<Rightarrow> (status, Some b, e)))"

subsection \<open>Uploads\<close>

definition abort_upload_session :: "'e pbns_broker \<Rightarrow> pbns_status \<Rightarrow> 'e \<Rightarrow> pbns_status \<times> 'e pbns_broker \<times> 'e" where
  "abort_upload_session b primary e =
     (if active b then
        (case emit_cancel b e of
           (_, b, e) \<Rightarrow>
             (case the (t_cancel (the (transport b))) e (request_id b) of (_, e) \<Rightarrow> drop_session primary b e))
      else (primary, b, e))"

definition upload_begin_opened ::
  "'e pbns_broker \<Rightarrow> pbns_status \<Rightarrow> pbns_service_id \<Rightarrow> pbns_request_id \<Rightarrow> pbns_view \<Rightarrow> 'e \<Rightarrow> pbns_status \<times> 'e pbns_broker \<times> 'e" where
  "upload_begin_opened b status svc rid request_body e =
     (let status =
            (if status = PBNS_OK \<and> (v_len request_body > control_payload_max (limits b) \<or> data_payload_max (limits b) = 0)
             then PBNS_ERR_LIMIT else status)
      in if status \<noteq> PBNS_OK then drop_session status b e
         else
           let b = b\<lparr>service := svc, upload_mode := True, upload_next_sequence := 0,
                     stream := the (pbns_stream_init (Some (stream b)) svc rid (of_nat (control_payload_max (limits b))))\<rparr>
           in if \<not> s_initialized (stream b) then drop_session PBNS_ERR_STATE b e
              else
                let b = b\<lparr>active := True\<rparr>
                in case emit_frame b \<lparr>f_service = svc, f_type = PBNS_MESSAGE_REQUEST, f_flags = 0, f_request_id = rid,
                                      f_sequence = 0\<rparr> (view_reload (storage b) request_body) e of
                     (status, b, e) \<Rightarrow>
                       if status \<noteq> PBNS_OK then abort_upload_session b status e else (PBNS_OK, b, e))"

definition pbns_broker_upload_begin ::
  "'e pbns_broker ptr \<Rightarrow> pbns_service_id \<Rightarrow> pbns_request_id ptr \<Rightarrow> pbns_view \<Rightarrow> u32 \<Rightarrow> 'e \<Rightarrow>
   pbns_status \<times> 'e pbns_broker ptr \<times> 'e" where
  "pbns_broker_upload_begin broker svc rid request_body timeout_ms e =
     (if broker = None \<or> rid = None \<or> \<not> view_is_valid request_body \<or> \<not> request_id_is_nonzero (the rid) \<or> timeout_ms = 0
      then (PBNS_ERR_ARGUMENT, broker, e)
      else
        let b = the broker
        in if \<not> initialized b \<or> active b \<or> opened b then (PBNS_ERR_STATE, broker, e)
        else if \<not> service_is_valid svc then (PBNS_ERR_SERVICE, broker, e)
        else
          (case (case open_session (\<lambda>b. b) (fresh_session b) (the rid) timeout_ms e of
                   Inl result \<Rightarrow> result
                 | Inr (status, b, e) \<Rightarrow> upload_begin_opened b status svc (the rid) request_body e) of
             (status, b, e) \<Rightarrow> (status, Some b, e)))"

definition upload_emit ::
  "'e pbns_broker \<Rightarrow> pbns_message_type \<Rightarrow> pbns_view \<Rightarrow> u32 \<Rightarrow> 'e \<Rightarrow> pbns_status \<times> 'e pbns_broker \<times> 'e" where
  "upload_emit b type payload sequence e =
     emit_frame b \<lparr>f_service = service b, f_type = type, f_flags = 0, f_request_id = request_id b, f_sequence = sequence\<rparr>
       payload e"

definition pbns_broker_upload_send ::
  "qcbor_decoder \<Rightarrow> (bytes \<Rightarrow> bytes \<Rightarrow> bytes) \<Rightarrow> 'e pbns_broker ptr \<Rightarrow> pbns_view \<Rightarrow> bool \<Rightarrow> pbns_broker_response ptr \<Rightarrow> 'e \<Rightarrow>
   (pbns_status \<times> 'e pbns_broker ptr \<times> pbns_broker_response ptr \<times> 'e) option" where
  "pbns_broker_upload_send qc residue broker payload final_record response e =
     (let response = clear_response response;
          abort = (\<lambda>b status e. case abort_upload_session b status e of
            (status, b, e) \<Rightarrow> Some (status, Some b, Some zero_response, e))
      in if broker = None \<or> response = None \<or> \<not> view_is_valid payload \<or> v_len payload = 0
         then Some (PBNS_ERR_ARGUMENT, broker, response, e)
         else
           let b = the broker
           in if \<not> initialized b \<or> \<not> active b \<or> \<not> upload_mode b \<or> bulk_mode b
                then Some (PBNS_ERR_STATE, broker, response, e)
              else if v_len payload > data_payload_max (limits b) \<or> upload_next_sequence b = - 1
                then abort b PBNS_ERR_LIMIT e
              else
                (case upload_emit b PBNS_MESSAGE_DATA payload (upload_next_sequence b) e of
                   (status, b, e) \<Rightarrow>
                     let b = (if status = PBNS_OK then b\<lparr>upload_next_sequence := upload_next_sequence b + 1\<rparr> else b)
                     in case (if status = PBNS_OK \<and> final_record
                              then upload_emit b PBNS_MESSAGE_COMPLETE null_view (upload_next_sequence b) e
                              else (status, b, e)) of
                          (status, b, e) \<Rightarrow>
                            if status \<noteq> PBNS_OK then abort b status e
                            else if \<not> final_record then Some (PBNS_OK, Some b, response, e)
                            else
                              (case pbns_broker_receive qc residue (Some (b\<lparr>upload_mode := False\<rparr>)) response e of
                                 None \<Rightarrow> None
                               | Some (status, b, response, e) \<Rightarrow>
                                   if status \<noteq> PBNS_OK then abort (the b) status e
                                   else Some (PBNS_OK, Some ((the b)\<lparr>upload_response_received := True\<rparr>), response, e))))"

definition pbns_broker_upload_finish :: "'e pbns_broker ptr \<Rightarrow> 'e \<Rightarrow> pbns_status \<times> 'e pbns_broker ptr \<times> 'e" where
  "pbns_broker_upload_finish broker e =
     (if broker = None then (PBNS_ERR_ARGUMENT, broker, e)
      else
        let b = the broker
        in if \<not> initialized b \<or> \<not> active b \<or> upload_mode b \<or> \<not> upload_response_received b
           then (PBNS_ERR_STATE, broker, e)
           else (case finish_session b False e of (status, b, e) \<Rightarrow> (status, Some b, e)))"

subsection \<open>Cancellation, requests and reset\<close>

definition pbns_broker_cancel :: "'e pbns_broker ptr \<Rightarrow> 'e \<Rightarrow> pbns_status \<times> 'e pbns_broker ptr \<times> 'e" where
  "pbns_broker_cancel broker e =
     (if broker = None then (PBNS_ERR_ARGUMENT, broker, e)
      else
        let b = the broker
        in if \<not> initialized b \<or> \<not> active b then (PBNS_ERR_STATE, broker, e)
           else
             (case emit_cancel b e of
                (status, b, e) \<Rightarrow>
                  (case the (t_cancel (the (transport b))) e (request_id b) of
                     (local_status, e) \<Rightarrow>
                       let status = (if status = PBNS_OK \<and> local_status \<noteq> PBNS_OK \<and> local_status \<noteq> PBNS_ERR_UNSUPPORTED
                                     then local_status else status)
                       in case finish_session b False e of
                            (close_status, b, e) \<Rightarrow>
                              ((if status = PBNS_OK \<and> close_status \<noteq> PBNS_OK then close_status else status), Some b, e))))"

definition request_id_for ::
  "'e pbns_broker \<Rightarrow> pbns_request_id ptr \<Rightarrow> 'e \<Rightarrow> pbns_status \<times> pbns_request_id \<times> 'e" where
  "request_id_for b supplied_request_id e =
     (case supplied_request_id of
        Some rid \<Rightarrow> (PBNS_OK, rid, e)
      | None \<Rightarrow>
          (case the (p_random (the (platform b))) e \<lparr>b_ptr = 1, b_len = 0, b_mem = zero_request_id\<rparr> of
             (status, bytes, e) \<Rightarrow>
               let rid = filled zero_request_id bytes
               in if status \<noteq> PBNS_OK then (status, rid, e)
                  else if \<not> request_id_is_nonzero rid then (PBNS_ERR_ENTROPY, rid, e)
                  else (PBNS_OK, rid, e)))"

definition request_finish ::
  "'e pbns_broker \<Rightarrow> pbns_status \<Rightarrow> pbns_broker_response ptr \<Rightarrow> 'e \<Rightarrow>
   pbns_status \<times> 'e pbns_broker \<times> pbns_broker_response ptr \<times> 'e" where
  "request_finish b status response e =
     (if status = PBNS_ERR_TIMEOUT then
        (case pbns_broker_cancel (Some b) e of (_, b, e) \<Rightarrow> (PBNS_ERR_TIMEOUT, the b, clear_response response, e))
      else
        let preserve_decoded = (status = PBNS_OK)
        in case finish_session b preserve_decoded e of
             (close_status, b, e) \<Rightarrow>
               if close_status \<noteq> PBNS_OK then
                 let b = set_decoded b (replicate (b_cap (decoded (storage b))) 0) 0
                 in ((if status = PBNS_OK then close_status else status), b, clear_response response, e)
               else (status, b, response, e))"

definition request_opened ::
  "qcbor_decoder \<Rightarrow> (bytes \<Rightarrow> bytes \<Rightarrow> bytes) \<Rightarrow> 'e pbns_broker \<Rightarrow> pbns_status \<Rightarrow> pbns_service_id \<Rightarrow> pbns_view \<Rightarrow>
   pbns_broker_response ptr \<Rightarrow> 'e \<Rightarrow> (pbns_status \<times> 'e pbns_broker \<times> pbns_broker_response ptr \<times> 'e) option" where
  "request_opened qc residue b status svc request_body response e =
     (let status = (if status = PBNS_OK \<and> v_len request_body > control_payload_max (limits b) then PBNS_ERR_LIMIT else status);
          drop = (\<lambda>status b e. case drop_session status b e of (status, b, e) \<Rightarrow> Some (status, b, response, e))
      in if status \<noteq> PBNS_OK then drop status b e
         else
           (case emit_frame b \<lparr>f_service = svc, f_type = PBNS_MESSAGE_REQUEST, f_flags = 0,
                               f_request_id = request_id b, f_sequence = 0\<rparr> (view_reload (storage b) request_body) e of
              (status, b, e) \<Rightarrow>
                if status \<noteq> PBNS_OK then drop status b e
                else
                  let b = b\<lparr>service := svc, active := True,
                            stream := the (pbns_stream_init (Some (stream b)) svc (request_id b)
                                             (of_nat (control_payload_max (limits b))))\<rparr>
                  in if \<not> s_initialized (stream b) then drop PBNS_ERR_STATE b e
                     else
                       (case pbns_broker_receive qc residue
                               (Some (b\<lparr>reader := the (pbns_record_reader_reset (Some (reader b)))\<rparr>)) response e of
                          None \<Rightarrow> None
                        | Some (status, b, response, e) \<Rightarrow> Some (request_finish (the b) status response e))))"

definition broker_request ::
  "qcbor_decoder \<Rightarrow> (bytes \<Rightarrow> bytes \<Rightarrow> bytes) \<Rightarrow> 'e pbns_broker ptr \<Rightarrow> pbns_service_id \<Rightarrow> pbns_request_id ptr \<Rightarrow>
   pbns_view \<Rightarrow> u32 \<Rightarrow> pbns_broker_response ptr \<Rightarrow> 'e \<Rightarrow>
   (pbns_status \<times> 'e pbns_broker ptr \<times> pbns_broker_response ptr \<times> 'e) option" where
  "broker_request qc residue broker svc supplied_request_id request_body timeout_ms response e =
     (let response = clear_response response
      in if broker = None \<or> response = None \<or> \<not> view_is_valid request_body \<or> timeout_ms = 0 \<or>
            (supplied_request_id \<noteq> None \<and> \<not> request_id_is_nonzero (the supplied_request_id))
         then Some (PBNS_ERR_ARGUMENT, broker, response, e)
         else
           let b = the broker
           in if \<not> initialized b then Some (PBNS_ERR_STATE, broker, response, e)
              else if \<not> service_is_valid svc then Some (PBNS_ERR_SERVICE, broker, response, e)
              else if active b \<or> opened b then Some (PBNS_ERR_BUSY, broker, response, e)
              else
                let b = (fresh_session b)\<lparr>request_id := zero_request_id\<rparr>
                in case request_id_for b supplied_request_id e of
                     (status, rid, e) \<Rightarrow>
                       if status \<noteq> PBNS_OK then Some (status, Some b, response, e)
                       else
                         (case open_session (\<lambda>b. wipe_request_storage b False) b rid timeout_ms e of
                            Inl (status, b, e) \<Rightarrow> Some (status, Some b, response, e)
                          | Inr (status, b, e) \<Rightarrow>
                              map_option (\<lambda>(status, b, response, e). (status, Some b, response, e))
                                (request_opened qc residue b status svc request_body response e)))"

definition pbns_broker_request_with_id ::
  "qcbor_decoder \<Rightarrow> (bytes \<Rightarrow> bytes \<Rightarrow> bytes) \<Rightarrow> 'e pbns_broker ptr \<Rightarrow> pbns_service_id \<Rightarrow> pbns_request_id ptr \<Rightarrow>
   pbns_view \<Rightarrow> u32 \<Rightarrow> pbns_broker_response ptr \<Rightarrow> 'e \<Rightarrow>
   (pbns_status \<times> 'e pbns_broker ptr \<times> pbns_broker_response ptr \<times> 'e) option" where
  "pbns_broker_request_with_id qc residue broker svc rid request_body timeout_ms response e =
     (case rid of
        None \<Rightarrow> Some (PBNS_ERR_ARGUMENT, broker, clear_response response, e)
      | Some supplied \<Rightarrow> broker_request qc residue broker svc (Some supplied) request_body timeout_ms response e)"

definition pbns_broker_request ::
  "qcbor_decoder \<Rightarrow> (bytes \<Rightarrow> bytes \<Rightarrow> bytes) \<Rightarrow> 'e pbns_broker ptr \<Rightarrow> pbns_service_id \<Rightarrow>
   pbns_view \<Rightarrow> u32 \<Rightarrow> pbns_broker_response ptr \<Rightarrow> 'e \<Rightarrow>
   (pbns_status \<times> 'e pbns_broker ptr \<times> pbns_broker_response ptr \<times> 'e) option" where
  "pbns_broker_request qc residue broker svc request_body timeout_ms response e =
     broker_request qc residue broker svc None request_body timeout_ms response e"

text \<open>The second result is what the reset leaves in the caller's buffers.\<close>

definition pbns_broker_reset :: "'e pbns_broker ptr \<Rightarrow> 'e \<Rightarrow> 'e pbns_broker ptr \<times> pbns_broker_storage ptr \<times> 'e" where
  "pbns_broker_reset broker e =
     (if broker = None \<or> \<not> initialized (the broker) then (broker, map_option storage broker, e)
      else
        let b = the broker
        in case (if active b then (case pbns_broker_cancel (Some b) e of (_, b, e) \<Rightarrow> (the b, e))
                 else if opened b then (case the (t_close (the (transport b))) e of (_, e) \<Rightarrow> (b\<lparr>opened := False\<rparr>, e))
                 else (b, e)) of
             (b, e) \<Rightarrow> (Some zero_broker, Some (storage (wipe_request_storage b False)), e))"

end
