(* ===== verification/Broker_Session.thy ===== *)
theory Broker_Session
  imports Broker
begin

text \<open>
  The session invariant of the broker (\<open>src/core/broker.c\<close>) and its use of the transport.

  \<open>broker_reach\<close> is the set of states that any sequence of calls reaches from
  \<open>pbns_broker_init\<close>.  \<open>broker_wf\<close> is the invariant: the four buffers keep their place and size,
  the reader works in the encoded buffer, a session is active exactly while the transport is
  open, an open session belongs to one service and one request identifier, and a closed one
  leaves no trace in the buffers.  Each operation has one preservation lemma, proved in the
  locale \<open>broker_env\<close> against any description of the environment that the callbacks respect.
  The locale is interpreted twice, for an arbitrary environment and for one that records every
  transport call (\<open>logged\<close>), which gives the calling discipline.
\<close>

subsection \<open>Memory sizes\<close>

lemma length_frame_write_raw:
  assumes "length (f_request_id f) = 16" "40 + v_len payload \<le> length raw" "n = 40 + v_len payload"
  shows "length (frame_write_raw f payload n p raw) = length raw"
  using assms by (simp add: frame_write_raw_def Let_def)

lemma pbns_cobs_encode_length:
  assumes "pbns_cobs_encode input output (Some w) = (status, out, n)"
  shows "length out = b_cap output"
proof (cases "view_is_valid input \<and> buffer_is_valid output")
  case True
  then show ?thesis using pbns_cobs_encode_eq [of input "output" w] assms by (auto split: if_splits)
next
  case False
  then show ?thesis using assms by (auto simp: pbns_cobs_encode_def)
qed

lemma pbns_frame_encode_length:
  assumes res: "pbns_frame_encode (Some f) p rs output (Some w) = (status, raw, out, n)"
    and id: "length (f_request_id f) = 16"
  shows "length raw = b_cap rs \<and> length out = b_cap output \<and> n \<noteq> None"
proof -
  have "40 + v_len p \<le> b_cap rs \<Longrightarrow> length (frame_write_raw f p (40 + v_len p) (b_ptr rs) (b_mem rs)) = b_cap rs"
    by (rule length_frame_write_raw) (use id in simp_all)
  then show ?thesis
    using res unfolding pbns_frame_encode_def Let_def by (auto dest!: pbns_cobs_encode_length split: if_splits prod.splits)
qed

lemma pbns_cobs_decode_length:
  assumes "pbns_cobs_decode input output (Some w) = (status, out, n)"
  shows "length out = b_cap output"
proof (cases "cobs_decode_loop (v_bytes input) 0 (b_mem output)")
  case (fields st wi o')
  with cobs_decode_loop_status [of "v_bytes input" "[]" "b_mem output" st wi o'] assms show ?thesis
    by (auto simp: pbns_cobs_decode_def split: if_splits)
qed

lemma pbns_frame_decode_length:
  assumes "pbns_frame_decode rec lim scratch f p = (status, mem, f', p')"
  shows "length mem = b_cap scratch"
proof -
  obtain st m n where dec: "pbns_cobs_decode rec scratch (Some 0) = (st, m, n)" by (metis prod_cases3)
  from pbns_cobs_decode_length [OF this] assms show ?thesis
    unfolding pbns_frame_decode_def dec by (auto split: if_splits sum.splits)
qed

lemma push_loop_storage:
  assumes "push_loop r input k = (status, r', n, ready, view)" and "b_len (r_storage r) \<le> b_cap (r_storage r)"
  shows "b_ptr (r_storage r') = b_ptr (r_storage r) \<and> b_cap (r_storage r') = b_cap (r_storage r) \<and>
    b_len (r_storage r') \<le> b_cap (r_storage r') \<and> r_initialized r' = r_initialized r \<and> n \<le> k + length input"
  using assms
proof (induction r input k rule: push_loop.induct)
  case (2 r octet input consumed)
  show ?case
    using "2.prems" "2.IH" by (auto split: if_splits)
qed auto

lemma record_reader_push_storage:
  assumes "pbns_record_reader_push (Some r) input (Some a) (Some c) (Some d) = (status, r', n, ready, view)"
    and "b_len (r_storage r) \<le> b_cap (r_storage r)"
  obtains r1 n1 rd v1 where "r' = Some r1" "n = Some n1" "ready = Some rd" "view = Some v1"
    "b_ptr (r_storage r1) = b_ptr (r_storage r)" "b_cap (r_storage r1) = b_cap (r_storage r)"
    "b_len (r_storage r1) \<le> b_cap (r_storage r1)" "r_initialized r1 = r_initialized r" "n1 \<le> v_len input"
proof -
  obtain st r1 m rd vw where lp: "push_loop r (v_bytes input) 0 = (st, r1, m, rd, vw)" by (metis prod_cases5)
  from push_loop_storage [OF lp assms(2)] assms that show thesis
    by (auto simp: pbns_record_reader_push_def lp Let_def split: if_splits)
qed

subsection \<open>The shape of a broker\<close>

text \<open>
  What initialisation establishes and no operation changes: the callbacks, the four disjoint
  buffers, and that the reader works in the encoded buffer.
\<close>

definition storage_shape :: "pbns_broker_storage \<Rightarrow> (nat \<times> nat) list" where
  "storage_shape st = map (\<lambda>b. (b_ptr b, b_cap b)) [encoded st, raw_scratch st, receive st, decoded st]"

definition broker_static :: "(nat \<times> nat) list \<Rightarrow> 'e pbns_broker \<Rightarrow> bool" where
  "broker_static shape b \<longleftrightarrow>
     initialized b \<and> storage_shape (storage b) = shape \<and>
     b_len (encoded (storage b)) = 0 \<and> b_len (raw_scratch (storage b)) = 0 \<and> b_len (receive (storage b)) = 0 \<and>
     r_initialized (reader b) \<and> b_ptr (r_storage (reader b)) = b_ptr (encoded (storage b)) \<and>
     b_mem (r_storage (reader b)) = b_mem (encoded (storage b)) \<and>
     b_len (r_storage (reader b)) \<le> b_cap (encoded (storage b))"

lemma broker_encode_effect:
  assumes "broker_encode b f p = (status, b', w)" and "length (f_request_id f) = 16" and "broker_static sh b"
  shows "broker_static sh b' \<and> b' = b\<lparr>storage := storage b', reader := reader b'\<rparr>"
proof -
  obtain st raw out n where enc: "pbns_frame_encode (Some f) p ((raw_scratch (storage b))\<lparr>b_len := 0\<rparr>)
      ((encoded (storage b))\<lparr>b_len := 0\<rparr>) (Some 0) = (st, raw, out, n)"
    by (metis prod_cases4)
  from pbns_frame_encode_length [OF this assms(2)] assms(1,3) show ?thesis
    by (auto simp: broker_encode_def enc set_encoded_def set_raw_scratch_def broker_static_def storage_shape_def)
qed

lemma receive_record_effect:
  assumes "receive_record b = (result, b')" and "broker_static sh b" and "receive_offset b \<le> receive_length b"
  shows "broker_static sh b' \<and>
    b' = b\<lparr>storage := storage b', reader := reader b', receive_offset := receive_offset b'\<rparr> \<and>
    receive_offset b' \<le> receive_length b"
proof -
  let ?in = "\<lparr>v_ptr = b_ptr (receive (storage b)) + receive_offset b,
         v_bytes = drop (receive_offset b) (take (receive_length b) (b_mem (receive (storage b))))\<rparr>"
  obtain st r n rd v where push: "pbns_record_reader_push (Some (reader b)) ?in (Some 0) (Some False) (Some null_view) = (st, r, n, rd, v)"
    by (metis prod_cases5)
  have len: "b_len (r_storage (reader b)) \<le> b_cap (r_storage (reader b))" using assms(2) by (auto simp: broker_static_def)
  obtain r1 n1 rd1 v1 where r: "r = Some r1" "n = Some n1" "rd = Some rd1" "v = Some v1"
    "b_ptr (r_storage r1) = b_ptr (r_storage (reader b))" "b_cap (r_storage r1) = b_cap (r_storage (reader b))"
    "b_len (r_storage r1) \<le> b_cap (r_storage r1)" "r_initialized r1 = r_initialized (reader b)" "n1 \<le> v_len ?in"
    by (rule record_reader_push_storage [OF push len])
  have n1: "receive_offset b + n1 \<le> receive_length b" using r(9) assms(3) by simp
  define b1 where "b1 = (set_encoded b (b_mem (r_storage r1)))\<lparr>reader := r1, receive_offset := receive_offset b + n1\<rparr>"
  have b1: "broker_static sh b1" "b1 = b\<lparr>storage := storage b1, reader := reader b1, receive_offset := receive_offset b1\<rparr>"
    "receive_offset b1 \<le> receive_length b"
    using assms(2) r n1 by (simp_all add: b1_def set_encoded_def broker_static_def storage_shape_def)
  obtain dst raw f p where dec: "pbns_frame_decode v1 (limits b1) ((raw_scratch (storage b1))\<lparr>b_len := 0\<rparr>)
      (Some zero_frame) (Some null_view) = (dst, raw, f, p)"
    by (metis prod_cases4)
  have raw: "length raw = b_cap (raw_scratch (storage b1))" using pbns_frame_decode_length [OF dec] by simp
  define b2 where "b2 = (set_raw_scratch b1 raw)\<lparr>reader := the (pbns_record_reader_reset (Some (reader b1)))\<rparr>"
  have b2: "broker_static sh b2" "receive_offset b2 = receive_offset b1"
    using b1(1) raw by (simp_all add: b2_def set_raw_scratch_def broker_static_def storage_shape_def pbns_record_reader_reset_def)
  have "b2 = b\<lparr>storage := storage b2, reader := reader b2, receive_offset := receive_offset b2\<rparr>"
    by (simp add: b2_def set_raw_scratch_def b1_def set_encoded_def)
  note b2 = b2 this
  have "b' = b1 \<or> b' = b2"
    using assms(1) unfolding receive_record_def push prod.case r option.sel b1_def [symmetric] Let_def dec b2_def [symmetric]
    by (auto split: if_splits)
  then show ?thesis using b1 b2 by metis
qed

lemma set_decoded_effect:
  assumes "broker_static sh b" and "length mem = b_cap (decoded (storage b))"
  shows "broker_static sh (set_decoded b mem n)" "set_decoded b mem n = b\<lparr>storage := storage (set_decoded b mem n)\<rparr>"
  using assms by (simp_all add: set_decoded_def broker_static_def storage_shape_def)

lemma store_response_effect:
  assumes "store_response b f p = (status, b', r)" and "broker_static sh b"
  shows "broker_static sh b' \<and> b' = b\<lparr>storage := storage b'\<rparr>"
  using assms set_decoded_effect [OF assms(2)] by (auto simp: store_response_def Let_def split: if_splits)

lemma decode_remote_error_effect:
  assumes "decode_remote_error qc residue b p svc = (status, b')" and "broker_static sh b"
  shows "broker_static sh b' \<and> b' = b\<lparr>storage := storage b'\<rparr>"
  using assms set_decoded_effect [OF assms(2)]
  by (auto simp: decode_remote_error_def Let_def split: if_splits sum.splits)

lemma wipe_request_storage_effect:
  assumes "broker_static sh b"
  shows "broker_static sh (wipe_request_storage b pd)"
    "wipe_request_storage b pd = b\<lparr>storage := storage (wipe_request_storage b pd), reader := reader (wipe_request_storage b pd)\<rparr>"
  using assms
  by (auto simp: wipe_request_storage_def Let_def set_encoded_def wipe_buffer_def broker_static_def storage_shape_def)

text \<open>
  The three buffers that every end of a session wipes.  The decoded buffer is kept by a request
  that succeeded, as its response is a view of it.
\<close>

definition storage_clean :: "pbns_broker_storage \<Rightarrow> bool" where
  "storage_clean st \<longleftrightarrow> set (b_mem (encoded st)) \<union> set (b_mem (raw_scratch st)) \<union> set (b_mem (receive st)) \<subseteq> {0}"

lemma wipe_request_storage_clean: "storage_clean (storage (wipe_request_storage b pd))"
  by (auto simp: storage_clean_def wipe_request_storage_def Let_def set_encoded_def wipe_buffer_def)

subsection \<open>Invariant\<close>

definition session_wf :: "'e pbns_broker \<Rightarrow> bool" where
  "session_wf b \<longleftrightarrow>
     service_is_valid (service b) \<and> length (request_id b) = PBNS_REQUEST_ID_SIZE \<and> limits_are_valid (limits b) \<and>
     s_initialized (stream b) \<and> s_service (stream b) = service b \<and> s_request_id (stream b) = request_id b \<and>
     \<not> (bulk_mode b \<and> upload_mode b) \<and> (upload_response_received b \<longrightarrow> \<not> bulk_mode b \<and> \<not> upload_mode b) \<and>
     (bulk_mode b \<and> \<not> bulk_failed b \<longrightarrow> bulk_received_data_size b \<le> bulk_exact_data_size b)"

definition idle_wf :: "bool \<Rightarrow> 'e pbns_broker \<Rightarrow> bool" where
  "idle_wf clean b \<longleftrightarrow>
     \<not> bulk_mode b \<and> \<not> bulk_failed b \<and> \<not> upload_mode b \<and> \<not> upload_response_received b \<and>
     bulk_received_data_size b = 0 \<and> bulk_next_ack_sequence b = 0 \<and>
     receive_offset b = 0 \<and> receive_length b = 0 \<and> (clean \<longrightarrow> storage_clean (storage b))"

definition broker_wf :: "(nat \<times> nat) list \<Rightarrow> bool \<Rightarrow> 'e pbns_broker \<Rightarrow> bool" where
  "broker_wf shape clean b \<longleftrightarrow>
     broker_static shape b \<and> active b = opened b \<and> deadline_active b = opened b \<and>
     receive_offset b \<le> receive_length b \<and> receive_length b \<le> b_cap (receive (storage b)) \<and>
     (if opened b then session_wf b else idle_wf clean b)"

definition broker_inv ::
  "'e pbns_transport \<Rightarrow> 'e pbns_broker_platform \<Rightarrow> ('e \<Rightarrow> bool) \<Rightarrow> ('e \<Rightarrow> bool) \<Rightarrow> (nat \<times> nat) list \<Rightarrow> bool \<Rightarrow>
   'e pbns_broker \<Rightarrow> 'e \<Rightarrow> bool" where
  "broker_inv T P is_open is_closed shape clean b e \<longleftrightarrow>
     broker_wf shape clean b \<and> transport b = T \<and> platform b = P \<and> (if opened b then is_open e else is_closed e)"

lemma session_wf_memory [simp]:
  "session_wf (b\<lparr>storage := st\<rparr>) = session_wf b" "session_wf (b\<lparr>reader := r\<rparr>) = session_wf b"
  "session_wf (b\<lparr>receive_offset := n\<rparr>) = session_wf b" "session_wf (b\<lparr>receive_length := n\<rparr>) = session_wf b"
  by (simp_all add: session_wf_def)

lemma broker_static_session [simp]:
  "broker_static sh (b\<lparr>stream := s\<rparr>) = broker_static sh b" "broker_static sh (b\<lparr>bulk_failed := f\<rparr>) = broker_static sh b"
  "broker_static sh (b\<lparr>bulk_received_data_size := n\<rparr>) = broker_static sh b"
  "broker_static sh (b\<lparr>request_id := rid\<rparr>) = broker_static sh b" "broker_static sh (b\<lparr>service := svc\<rparr>) = broker_static sh b"
  "broker_static sh (b\<lparr>active := f\<rparr>) = broker_static sh b" "broker_static sh (b\<lparr>opened := f\<rparr>) = broker_static sh b"
  "broker_static sh (b\<lparr>deadline_active := f\<rparr>) = broker_static sh b" "broker_static sh (b\<lparr>deadline_ms := d\<rparr>) = broker_static sh b"
  "broker_static sh (b\<lparr>bulk_mode := f\<rparr>) = broker_static sh b" "broker_static sh (b\<lparr>upload_mode := f\<rparr>) = broker_static sh b"
  "broker_static sh (b\<lparr>bulk_exact_data_size := n\<rparr>) = broker_static sh b" "broker_static sh (b\<lparr>limits := l\<rparr>) = broker_static sh b"
  "broker_static sh (b\<lparr>bulk_next_ack_sequence := k\<rparr>) = broker_static sh b"
  "broker_static sh (b\<lparr>upload_next_sequence := k\<rparr>) = broker_static sh b"
  "broker_static sh (b\<lparr>upload_response_received := f\<rparr>) = broker_static sh b"
  by (simp_all add: broker_static_def)

lemma stream_accept_keeps:
  assumes "pbns_stream_accept (Some s) (Some f) p = (st, s')"
  obtains s1 where "s' = Some s1" "s_initialized s1 = s_initialized s" "s_service s1 = s_service s" "s_request_id s1 = s_request_id s"
  using assms that by (auto simp: pbns_stream_accept_def fail_stream_def Let_def split: if_splits prod.splits)

text \<open>An open session that changes only in its stream keeps the invariant.\<close>

lemma session_wf_stream:
  "session_wf b \<Longrightarrow> s_initialized s = s_initialized (stream b) \<Longrightarrow> s_service s = s_service (stream b) \<Longrightarrow>
   s_request_id s = s_request_id (stream b) \<Longrightarrow> session_wf (b\<lparr>stream := s\<rparr>)"
  by (simp add: session_wf_def)

lemma broker_wf_memory:
  assumes "broker_wf sh c b" and "opened b" and "broker_static sh b'"
    and "b' = b\<lparr>storage := storage b', reader := reader b'\<rparr>"
  shows "broker_wf sh c b'"
proof -
  obtain s1 r1 where b': "b' = b\<lparr>storage := s1, reader := r1\<rparr>" using assms(4) by blast
  have "b_cap (receive (storage b')) = b_cap (receive (storage b))"
    using assms(1,3) by (auto simp: broker_wf_def broker_static_def storage_shape_def)
  with assms(1-3) show ?thesis unfolding broker_wf_def by (simp add: b')
qed

text \<open>A step of an open session that leaves it open.\<close>

definition session_kept :: "(nat \<times> nat) list \<Rightarrow> bool \<Rightarrow> 'e pbns_broker \<Rightarrow> 'e pbns_broker \<Rightarrow> bool" where
  "session_kept sh c b b' \<longleftrightarrow>
     broker_wf sh c b' \<and> opened b' \<and> transport b' = transport b \<and> platform b' = platform b \<and>
     request_id b' = request_id b \<and> service b' = service b \<and> bulk_mode b' = bulk_mode b \<and> upload_mode b' = upload_mode b"

lemma session_kept_storage:
  assumes "broker_wf sh c b" and "opened b" and "broker_static sh b' \<and> b' = b\<lparr>storage := storage b'\<rparr>"
  shows "session_kept sh c b b'"
proof -
  obtain s1 where b': "b' = b\<lparr>storage := s1\<rparr>" using assms(3) by blast
  then have "b' = b\<lparr>storage := storage b', reader := reader b'\<rparr>" by simp
  from broker_wf_memory [OF assms(1,2) _ this] assms(2,3) show ?thesis by (simp add: session_kept_def b')
qed

lemma broker_wf_static: "broker_wf sh c b \<Longrightarrow> broker_static sh b"
  by (simp add: broker_wf_def)

lemmas session_kept_storage_response = session_kept_storage [OF _ _ store_response_effect [OF _ broker_wf_static]]
lemmas session_kept_remote_error = session_kept_storage [OF _ _ decode_remote_error_effect [OF _ broker_wf_static]]

lemma session_kept_fail_bulk:
  assumes "broker_wf sh c b" and "opened b" and "fail_bulk_session b st = (st', b')"
  shows "session_kept sh c b b'"
proof -
  have "b' = b\<lparr>bulk_failed := True, stream := (stream b)\<lparr>s_failed := True\<rparr>\<rparr>" using assms(3) by (simp add: fail_bulk_session_def)
  with assms(1,2) show ?thesis by (simp add: broker_wf_def session_wf_def session_kept_def)
qed

lemma session_kept_stream:
  assumes "broker_wf sh c b" and "opened b" and "pbns_stream_accept (Some (stream b)) (Some f) p = (st, s)"
  shows "session_kept sh c b (b\<lparr>stream := the s\<rparr>)"
proof -
  obtain s1 where s: "s = Some s1" "s_initialized s1 = s_initialized (stream b)" "s_service s1 = s_service (stream b)"
    "s_request_id s1 = s_request_id (stream b)" by (rule stream_accept_keeps [OF assms(3)])
  with assms(1,2) session_wf_stream [OF _ s(2-4)] show ?thesis by (simp add: broker_wf_def session_kept_def)
qed

lemma word_sub_add_le:
  fixes a n lim :: u64
  assumes "\<not> a > lim" and "\<not> n > lim - a"
  shows "unat (a + n) = unat a + unat n" "a + n \<le> lim"
proof -
  have le: "unat a \<le> unat lim" "unat n \<le> unat lim - unat a"
    using assms unat_sub_nowrap [of a lim] by (simp_all add: word_le_nat_alt not_less)
  then show s: "unat (a + n) = unat a + unat n"
    using unat_lt [of lim] by (intro unat_add_nowrap) linarith
  show "a + n \<le> lim" using le unfolding word_le_nat_alt s by linarith
qed

lemma session_kept_received:
  assumes "broker_wf sh c b" and "opened b"
    and "\<not> bulk_received_data_size b > bulk_exact_data_size b" "\<not> n > bulk_exact_data_size b - bulk_received_data_size b"
  shows "session_kept sh c b (b\<lparr>bulk_received_data_size := bulk_received_data_size b + n\<rparr>)"
  using assms word_sub_add_le(2) [OF assms(3,4)] by (simp add: broker_wf_def session_wf_def session_kept_def)

lemma session_kept_trans: "session_kept sh c b b1 \<Longrightarrow> session_kept sh c b1 b2 \<Longrightarrow> session_kept sh c b b2"
  by (simp add: session_kept_def)

lemma session_keptD: "session_kept sh c b b' \<Longrightarrow> broker_wf sh c b'" "session_kept sh c b b' \<Longrightarrow> opened b'"
  by (simp_all add: session_kept_def)

lemma bulk_deliver_kept:
  assumes "broker_wf sh c b" and "opened b" and "bulk_deliver qc residue b f p = (st, b', r)"
  shows "session_kept sh c b b'"
proof -
  define F where "F = (\<lambda>b :: 'a pbns_broker. b\<lparr>bulk_failed := True, stream := (stream b)\<lparr>s_failed := True\<rparr>\<rparr>)"
  have fail: "fail_bulk_session x y = (y, F x)" for x y by (simp add: fail_bulk_session_def F_def)
  have F: "session_kept sh c b (F x)" if "session_kept sh c b x" for x
    by (rule session_kept_trans [OF that session_kept_fail_bulk [OF session_keptD [OF that] fail]])
  have b: "session_kept sh c b b" using assms(1,2) by (simp add: session_kept_def)
  obtain st1 s where acc: "pbns_stream_accept (Some (stream b)) (Some f) p = (st1, s)" by (metis surj_pair)
  define b1 where "b1 = b\<lparr>stream := the s\<rparr>"
  note b1 = session_kept_stream [OF assms(1,2) acc, folded b1_def]
  obtain st2 b2 where dre: "decode_remote_error qc residue b1 p (service b1) = (st2, b2)" by (metis surj_pair)
  have b2: "session_kept sh c b b2"
    by (rule session_kept_trans [OF b1 session_kept_remote_error [OF session_keptD [OF b1] dre session_keptD(1) [OF b1]]])
  define n where "n = (of_nat (v_len p) :: u64)"
  define b3 where "b3 = b1\<lparr>bulk_received_data_size := bulk_received_data_size b1 + n\<rparr>"
  obtain st4 b4 r4 where sr3: "store_response b3 f p = (st4, b4, r4)" by (metis prod_cases3)
  obtain st5 b5 r5 where sr1: "store_response b1 f p = (st5, b5, r5)" by (metis prod_cases3)
  have b5: "session_kept sh c b b5"
    by (rule session_kept_trans [OF b1 session_kept_storage_response [OF session_keptD [OF b1] sr1 session_keptD(1) [OF b1]]])
  have b4: "session_kept sh c b b4"
    if "\<not> bulk_received_data_size b1 > bulk_exact_data_size b1" "\<not> n > bulk_exact_data_size b1 - bulk_received_data_size b1"
  proof -
    have b3: "session_kept sh c b b3"
      unfolding b3_def by (rule session_kept_trans [OF b1 session_kept_received [OF session_keptD [OF b1] that]])
    show ?thesis
      by (rule session_kept_trans [OF b3 session_kept_storage_response [OF session_keptD [OF b3] sr3 session_keptD(1) [OF b3]]])
  qed
  show ?thesis
    using assms(3) b b1 b2 b5 b4 F
    unfolding bulk_deliver_def Let_def acc prod.case b1_def [symmetric] n_def [symmetric] b3_def [symmetric] dre sr3 sr1 fail
    by (simp only: prod.inject split: if_splits) metis+
qed

lemma broker_wf_offsets:
  assumes "broker_wf sh c b" and "opened b" and "broker_static sh b'"
    and "b' = b\<lparr>storage := storage b', reader := reader b', receive_offset := receive_offset b', receive_length := receive_length b'\<rparr>"
    and "receive_offset b' \<le> receive_length b'" and "receive_length b' \<le> b_cap (receive (storage b'))"
  shows "session_kept sh c b b'"
proof -
  obtain s1 r1 o1 l1 where b': "b' = b\<lparr>storage := s1, reader := r1, receive_offset := o1, receive_length := l1\<rparr>"
    using assms(4) by blast
  from assms(1-3,5,6) show ?thesis unfolding broker_wf_def session_kept_def by (simp add: b')
qed

lemma receive_record_kept:
  assumes "broker_wf sh c b" and "opened b" and "receive_record b = (result, b')"
  shows "session_kept sh c b b'"
proof -
  have st: "broker_static sh b" "receive_offset b \<le> receive_length b" using assms(1) by (simp_all add: broker_wf_def)
  note eff = receive_record_effect [OF assms(3) st]
  then obtain s1 r1 o1 where b': "b' = b\<lparr>storage := s1, reader := r1, receive_offset := o1\<rparr>" by blast
  have "b_cap (receive (storage b')) = b_cap (receive (storage b))"
    using eff st(1) by (auto simp: broker_static_def storage_shape_def)
  with assms(1) eff show ?thesis
    by (intro broker_wf_offsets [OF assms(1,2)]) (simp_all add: b' broker_wf_def)
qed

text \<open>A session between the opening of the transport and its activation.\<close>

definition session_opening :: "(nat \<times> nat) list \<Rightarrow> pbns_request_id \<Rightarrow> 'e pbns_broker \<Rightarrow> bool" where
  "session_opening sh rid b \<longleftrightarrow>
     broker_static sh b \<and> opened b \<and> \<not> active b \<and> deadline_active b \<and> idle_wf False b \<and> request_id b = rid"

lemma idle_wf_memory [simp]:
  "idle_wf False (b\<lparr>storage := st\<rparr>) = idle_wf False b" "idle_wf False (b\<lparr>reader := r\<rparr>) = idle_wf False b"
  "idle_wf c (b\<lparr>request_id := rid\<rparr>) = idle_wf c b" "idle_wf c (b\<lparr>deadline_active := f\<rparr>) = idle_wf c b"
  "idle_wf c (b\<lparr>deadline_ms := d\<rparr>) = idle_wf c b" "idle_wf c (b\<lparr>opened := f\<rparr>) = idle_wf c b"
  "idle_wf c (b\<lparr>limits := l\<rparr>) = idle_wf c b"
  by (simp_all add: idle_wf_def)

lemma idle_wf_clean: "idle_wf c b \<longleftrightarrow> idle_wf False b \<and> (c \<longrightarrow> storage_clean (storage b))"
  by (auto simp: idle_wf_def)

lemma session_opening_memory:
  assumes "session_opening sh rid b" and "broker_static sh b'" and "b' = b\<lparr>storage := storage b', reader := reader b'\<rparr>"
  shows "session_opening sh rid b'" and "limits b' = limits b" and "stream b' = stream b" and "transport b' = transport b"
    and "platform b' = platform b"
proof -
  obtain s1 r1 where b': "b' = b\<lparr>storage := s1, reader := r1\<rparr>" using assms(3) by blast
  from assms(1,2) show "session_opening sh rid b'" "limits b' = limits b" "stream b' = stream b" "transport b' = transport b"
    "platform b' = platform b" by (simp_all add: session_opening_def b')
qed

lemma fresh_session_effect:
  assumes "broker_static sh b"
  shows "broker_static sh (fresh_session b)" "storage_clean (storage (fresh_session b))"
    "fresh_session b = b\<lparr>storage := storage (fresh_session b), reader := reader (fresh_session b)\<rparr>"
proof -
  define b1 where "b1 = wipe_request_storage b False"
  note w = wipe_request_storage_effect [OF assms, of False, folded b1_def] wipe_request_storage_clean [of b False, folded b1_def]
  then obtain s1 r1 where b1: "b1 = b\<lparr>storage := s1, reader := r1\<rparr>" by blast
  have f: "fresh_session b = b1\<lparr>reader := the (pbns_record_reader_reset (Some (reader b1)))\<rparr>"
    by (simp add: fresh_session_def b1_def Let_def)
  from w(1) show "broker_static sh (fresh_session b)" unfolding f by (auto simp: broker_static_def pbns_record_reader_reset_def)
  from w(3) show "storage_clean (storage (fresh_session b))" by (simp add: f)
  show "fresh_session b = b\<lparr>storage := storage (fresh_session b), reader := reader (fresh_session b)\<rparr>" by (simp add: f b1)
qed

lemma query_effective_limits_effect:
  assumes "query_effective_limits b e = (st, b', e')"
  shows "b' = b\<lparr>limits := limits b'\<rparr>" and "st = PBNS_OK \<Longrightarrow> limits_are_valid (limits b')"
  using assms by (auto simp: query_effective_limits_def Let_def limits_are_valid_def minimum_size_def split: prod.splits if_splits)

text \<open>
  What a broker may rely on from its environment: \<open>is_open\<close> and \<open>is_closed\<close> describe the
  environment while a session is open and while none is; the transport and the platform,
  called only when they may be, keep to that description.
\<close>

locale broker_env =
  fixes T :: "'e pbns_transport" and P :: "'e pbns_broker_platform" and is_open is_closed :: "'e \<Rightarrow> bool"
  assumes open_env: "is_closed e \<Longrightarrow> the (t_open (the T)) e = (st, e') \<Longrightarrow> if st = PBNS_OK then is_open e' else is_closed e'"
    and close_env: "is_open e \<Longrightarrow> the (t_close (the T)) e = (st, e') \<Longrightarrow> is_closed e'"
    and send_env: "is_open e \<Longrightarrow> the (t_send (the T)) e v ms = (st, e') \<Longrightarrow> is_open e'"
    and receive_env: "is_open e \<Longrightarrow> the (t_receive (the T)) e buf ms = (st, bs, n, e') \<Longrightarrow> is_open e'"
    and cancel_env: "is_open e \<Longrightarrow> the (t_cancel (the T)) e rid = (st, e') \<Longrightarrow> is_open e'"
    and limits_env: "is_open e \<Longrightarrow> the (t_limits (the T)) e = (st, lim, e') \<Longrightarrow> is_open e'"
    and random_env: "is_closed e \<Longrightarrow> the (p_random (the P)) e buf = (st, bs, e') \<Longrightarrow> is_closed e'"
    and clock_open_env: "is_open e \<Longrightarrow> the (p_monotonic_ms (the P)) e = (st, now, e') \<Longrightarrow> is_open e'"
    and clock_closed_env: "is_closed e \<Longrightarrow> the (p_monotonic_ms (the P)) e = (st, now, e') \<Longrightarrow> is_closed e'"
begin

lemma remaining_timeout_env:
  assumes "remaining_timeout b ms e = (st, ms', e')" and "platform b = P"
  shows "(is_open e \<longrightarrow> is_open e') \<and> (is_closed e \<longrightarrow> is_closed e')"
  using assms clock_open_env clock_closed_env
  by (auto simp: remaining_timeout_def Let_def split: if_splits prod.splits)

lemma emit_frame_inv:
  assumes "emit_frame b f p e = (st, b', e')" and "length (f_request_id f) = 16" and "broker_static sh b"
    and "transport b = T" and "platform b = P" and "is_open e"
  shows "broker_static sh b' \<and> b' = b\<lparr>storage := storage b', reader := reader b'\<rparr> \<and> is_open e'"
proof -
  obtain st1 b1 w where enc: "broker_encode b f p = (st1, b1, w)" by (metis prod_cases3)
  note eff = broker_encode_effect [OF enc assms(2,3)]
  have T: "transport b1 = T" "platform b1 = P" using eff assms(4,5) by (metis pbns_broker.select_convs(1,2) pbns_broker.surjective pbns_broker.update_convs(3,4))+
  obtain st2 ms e2 where rem: "remaining_timeout b1 (Some 0) e = (st2, ms, e2)" by (metis prod_cases3)
  have "is_open e2" using remaining_timeout_env [OF rem T(2)] assms(6) by blast
  with send_env assms(1,6) eff show ?thesis
    by (auto simp: emit_frame_def enc rem broker_send_def T split: if_splits prod.splits)
qed

lemma emit_cancel_inv:
  assumes "emit_cancel b e = (st, b', e')" and "length (request_id b) = 16" and "broker_static sh b"
    and "transport b = T" and "platform b = P" and "is_open e"
  shows "broker_static sh b' \<and> b' = b\<lparr>storage := storage b', reader := reader b'\<rparr> \<and> is_open e'"
proof -
  let ?f = "\<lparr>f_service = service b, f_type = PBNS_MESSAGE_CANCEL, f_flags = 0, f_request_id = request_id b, f_sequence = 1\<rparr>"
  obtain st1 b1 w where enc: "broker_encode b ?f null_view = (st1, b1, w)" by (metis prod_cases3)
  have eff: "broker_static sh b1 \<and> b1 = b\<lparr>storage := storage b1, reader := reader b1\<rparr>"
    using broker_encode_effect [OF enc _ assms(3)] assms(2) by simp
  then obtain s1 r1 where b1: "b1 = b\<lparr>storage := s1, reader := r1\<rparr>" by blast
  with send_env assms(1,4,6) eff show ?thesis
    by (auto simp: emit_cancel_def enc broker_send_def split: if_splits prod.splits)
qed

lemma finish_session_inv:
  assumes "finish_session b pd e = (st, b', e')" and "broker_static sh b" and "transport b = T" and "platform b = P"
    and "if opened b then is_open e else is_closed e"
  shows "broker_wf sh c b' \<and> \<not> opened b' \<and> is_closed e' \<and> transport b' = T \<and> platform b' = P"
proof -
  define b1 where "b1 = b\<lparr>opened := False, active := False, deadline_active := False, deadline_ms := 0,
                    receive_offset := 0, receive_length := 0, bulk_exact_data_size := 0,
                    bulk_received_data_size := 0, bulk_next_ack_sequence := 0, upload_next_sequence := 0,
                    bulk_mode := False, bulk_failed := False, upload_mode := False,
                    upload_response_received := False, service := PBNS_SERVICE_INVALID,
                    request_id := zero_request_id,
                    reader := the (pbns_record_reader_reset (Some (reader b))), stream := zero_stream\<rparr>"
  have b1: "broker_static sh b1" using assms(2)
    by (auto simp: b1_def broker_static_def pbns_record_reader_reset_def)
  have b': "b' = wipe_request_storage b1 pd" and e': "is_closed e'"
    using assms(1,3,5) close_env by (auto simp: finish_session_def b1_def Let_def split: if_splits prod.splits)
  note eff = wipe_request_storage_effect [OF b1, of pd, folded b']
  obtain s1 r1 where "b' = b1\<lparr>storage := s1, reader := r1\<rparr>" using eff(2) by blast
  with eff(1) e' wipe_request_storage_clean [of b1 pd, folded b'] assms(3,4) show ?thesis
    by (simp add: broker_wf_def idle_wf_def b1_def)
qed

lemma drop_session_inv:
  assumes "drop_session st b e = (st', b', e')" and "broker_static sh b" and "transport b = T" and "platform b = P"
    and "if opened b then is_open e else is_closed e"
  shows "broker_wf sh c b' \<and> \<not> opened b' \<and> is_closed e' \<and> transport b' = T \<and> platform b' = P \<and> st' = st"
  using assms finish_session_inv by (auto simp: drop_session_def split: prod.splits)

lemma receive_fill_inv:
  assumes "receive_fill b e = (result, b', e')" and "broker_static sh b" and "transport b = T" and "platform b = P"
    and "is_open e" and "receive_offset b \<le> receive_length b" and "receive_length b \<le> b_cap (receive (storage b))"
  shows "broker_static sh b' \<and> is_open e' \<and>
    b' = b\<lparr>storage := storage b', receive_offset := receive_offset b', receive_length := receive_length b'\<rparr> \<and>
    receive_offset b' \<le> receive_length b' \<and> receive_length b' \<le> b_cap (receive (storage b'))"
proof (cases "receive_offset b \<ge> receive_length b")
  case False
  then show ?thesis using assms by (simp add: receive_fill_def)
next
  case True
  let ?b = "b\<lparr>receive_offset := 0, receive_length := 0\<rparr>"
  obtain st ms e1 where rem: "remaining_timeout ?b (Some 0) e = (st, ms, e1)" by (metis prod_cases3)
  have e1: "is_open e1" using remaining_timeout_env [OF rem] assms(4,5) by simp
  obtain st2 bs n e2 where rcv: "the (t_receive (the T)) e1 ((receive (storage b))\<lparr>b_len := 0\<rparr>) (the ms) = (st2, bs, n, e2)"
    by (metis prod_cases4)
  have e2: "is_open e2" by (rule receive_env [OF e1 rcv])
  have st: "broker_static sh ?b" using assms(2) by (simp add: broker_static_def)
  show ?thesis
    using assms True st e1 e2
    by (auto simp: receive_fill_def Let_def rem rcv set_receive_def broker_static_def storage_shape_def split: if_splits)
qed

lemma receive_fill_kept:
  assumes "broker_wf sh c b" and "opened b" and "transport b = T" and "platform b = P" and "is_open e"
    and "receive_fill b e = (result, b', e')"
  shows "session_kept sh c b b'" and "is_open e'"
proof -
  have st: "broker_static sh b" "receive_offset b \<le> receive_length b" "receive_length b \<le> b_cap (receive (storage b))"
    using assms(1) by (simp_all add: broker_wf_def)
  note eff = receive_fill_inv [OF assms(6) st(1) assms(3,4,5) st(2,3)]
  then obtain s1 o1 l1 where b': "b' = b\<lparr>storage := s1, receive_offset := o1, receive_length := l1\<rparr>" by blast
  from eff show "session_kept sh c b b'"
    by (intro broker_wf_offsets [OF assms(1,2)]) (simp_all add: b')
  from eff show "is_open e'" by simp
qed

text \<open>One iteration of the two receive loops.\<close>

lemma receive_body_inv:
  assumes "broker_wf sh c b" and "opened b" and "transport b = T" and "platform b = P" and "is_open e"
  shows "receive_body qc residue (b, e) = Inl (b', e') \<Longrightarrow> session_kept sh c b b' \<and> is_open e'"
    and "receive_body qc residue (b, e) = Inr (st, b', r, e') \<Longrightarrow> session_kept sh c b b' \<and> is_open e'"
proof -
  obtain res1 b1 e1 where fill: "receive_fill b e = (res1, b1, e1)" by (metis prod_cases3)
  note k1 = receive_fill_kept [OF assms fill]
  obtain res2 b2 where rec: "receive_record b1 = (res2, b2)" by (metis surj_pair)
  note k2 = session_kept_trans [OF k1(1) receive_record_kept [OF session_keptD [OF k1(1)] rec]]
  have out: "session_kept sh c b b5" if "pbns_stream_accept (Some (stream b2)) (Some f) p = (st3, s)" and
    "b5 = b2\<lparr>stream := the s\<rparr> \<or> (\<exists>st4. decode_remote_error qc residue (b2\<lparr>stream := the s\<rparr>) p svc = (st4, b5)) \<or>
     (\<exists>st4 r4. store_response (b2\<lparr>stream := the s\<rparr>) f p = (st4, b5, r4))" for f p st3 s b5 svc
  proof -
    note k3 = session_kept_trans [OF k2 session_kept_stream [OF session_keptD [OF k2] that(1)]]
    from that(2) show ?thesis
      using k3 session_kept_trans [OF k3 session_kept_remote_error [OF session_keptD [OF k3] _ session_keptD(1) [OF k3]]]
        session_kept_trans [OF k3 session_kept_storage_response [OF session_keptD [OF k3] _ session_keptD(1) [OF k3]]]
      by metis
  qed
  show "receive_body qc residue (b, e) = Inl (b', e') \<Longrightarrow> session_kept sh c b b' \<and> is_open e'"
    using k1 k2 by (auto simp: receive_body_def fill rec Let_def split: attempt.splits prod.splits if_splits)
  show "receive_body qc residue (b, e) = Inr (st, b', r, e') \<Longrightarrow> session_kept sh c b b' \<and> is_open e'"
    using k1 k2 out
    by (simp add: receive_body_def fill rec Let_def split: attempt.splits prod.splits if_splits) metis+
qed

lemma bulk_receive_body_inv:
  assumes "broker_wf sh c b" and "opened b" and "transport b = T" and "platform b = P" and "is_open e"
  shows "bulk_receive_body qc residue (b, e) = Inl (b', e') \<Longrightarrow> session_kept sh c b b' \<and> is_open e'"
    and "bulk_receive_body qc residue (b, e) = Inr (st, b', r, e') \<Longrightarrow> session_kept sh c b b' \<and> is_open e'"
proof -
  obtain res1 b1 e1 where fill: "receive_fill b e = (res1, b1, e1)" by (metis prod_cases3)
  note k1 = receive_fill_kept [OF assms fill]
  obtain res2 b2 where rec: "receive_record b1 = (res2, b2)" by (metis surj_pair)
  note k2 = session_kept_trans [OF k1(1) receive_record_kept [OF session_keptD [OF k1(1)] rec]]
  note f1 = session_kept_trans [OF k1(1) session_kept_fail_bulk [OF session_keptD [OF k1(1)]]]
  note f2 = session_kept_trans [OF k2 session_kept_fail_bulk [OF session_keptD [OF k2]]]
  note d2 = session_kept_trans [OF k2 bulk_deliver_kept [OF session_keptD [OF k2]]]
  show "bulk_receive_body qc residue (b, e) = Inl (b', e') \<Longrightarrow> session_kept sh c b b' \<and> is_open e'"
    using k1 k2 by (auto simp: bulk_receive_body_def fill rec Let_def split: attempt.splits prod.splits if_splits)
  show "bulk_receive_body qc residue (b, e) = Inr (st, b', r, e') \<Longrightarrow> session_kept sh c b b' \<and> is_open e'"
    using k1(2) f1 f2 d2
    by (auto simp: bulk_receive_body_def fill rec Let_def split: attempt.splits prod.splits if_splits)
qed

lemma session_loop_inv:
  assumes lp: "loop body (b, e) = Some (st, b', r, e')"
    and b: "broker_wf sh c b" "opened b" "transport b = T" "platform b = P" "is_open e"
    and again: "\<And>b e b' e'. broker_wf sh c b \<Longrightarrow> opened b \<Longrightarrow> transport b = T \<Longrightarrow> platform b = P \<Longrightarrow> is_open e \<Longrightarrow>
      body (b, e) = Inl (b', e') \<Longrightarrow> session_kept sh c b b' \<and> is_open e'"
    and leave: "\<And>b e st b' r e'. broker_wf sh c b \<Longrightarrow> opened b \<Longrightarrow> transport b = T \<Longrightarrow> platform b = P \<Longrightarrow> is_open e \<Longrightarrow>
      body (b, e) = Inr (st, b', r, e') \<Longrightarrow> session_kept sh c b b' \<and> is_open e'"
  shows "session_kept sh c b b' \<and> is_open e'"
proof -
  let ?Q = "\<lambda>(b1, e1). session_kept sh c b b1 \<and> is_open e1"
  have use: "broker_wf sh c b1 \<and> opened b1 \<and> transport b1 = T \<and> platform b1 = P" if "session_kept sh c b b1" for b1
    using that b by (simp add: session_kept_def)
  have "(\<lambda>(st, b1, r1, e'). session_kept sh c b b1 \<and> is_open e') (st, b', r, e')"
  proof (rule loop_partial [OF lp, of ?Q])
    show "?Q (b, e)" using b by (simp add: session_kept_def)
  next
    fix s s' assume Q: "?Q s" and body: "body s = Inl s'"
    obtain b1 e1 b2 e2 where s: "s = (b1, e1)" "s' = (b2, e2)" by fastforce
    from Q use [of b1] again [OF _ _ _ _ _ body [unfolded s]] show "?Q s'" by (auto simp: s intro: session_kept_trans)
  next
    fix s q assume Q: "?Q s" and body: "body s = Inr q"
    obtain b1 e1 where s: "s = (b1, e1)" by fastforce
    obtain st2 b2 r2 e2 where q: "q = (st2, b2, r2, e2)" by (metis prod_cases4)
    from Q use [of b1] leave [OF _ _ _ _ _ body [unfolded s q]] show "(\<lambda>(st, b1, r1, e'). session_kept sh c b b1 \<and> is_open e') q"
      by (auto simp: s q intro: session_kept_trans)
  qed
  then show ?thesis by simp
qed

lemma receive_inv:
  assumes inv: "broker_inv T P is_open is_closed sh c b e"
    and res: "pbns_broker_receive qc residue (Some b) r e = Some (st, b', r', e')"
  shows "\<exists>b1. b' = Some b1 \<and> broker_inv T P is_open is_closed sh c b1 e' \<and> opened b1 = opened b \<and>
    bulk_mode b1 = bulk_mode b \<and> upload_mode b1 = upload_mode b"
proof (cases "r = None \<or> \<not> initialized b \<or> \<not> active b \<or> bulk_mode b")
  case True
  then show ?thesis using inv res by (auto simp: pbns_broker_receive_def Let_def clear_response_def split: if_splits)
next
  case False
  with inv have b: "broker_wf sh c b" "opened b" "transport b = T" "platform b = P" "is_open e"
    by (auto simp: broker_inv_def broker_wf_def split: if_splits)
  from False res obtain b1 r1 where lp: "loop (receive_body qc residue) (b, e) = Some (st, b1, r1, e')" and b': "b' = Some b1"
    by (auto simp: pbns_broker_receive_def Let_def clear_response_def)
  have "session_kept sh c b b1 \<and> is_open e'" by (rule session_loop_inv [OF lp b receive_body_inv])
  then show ?thesis using b(2-4) b' by (simp add: session_kept_def broker_inv_def)
qed

lemma bulk_receive_inv:
  assumes inv: "broker_inv T P is_open is_closed sh c b e"
    and res: "pbns_broker_bulk_receive qc residue (Some b) r e = Some (st, b', r', e')"
  shows "\<exists>b1. b' = Some b1 \<and> broker_inv T P is_open is_closed sh c b1 e'"
proof (cases "r = None \<or> \<not> initialized b \<or> \<not> active b \<or> \<not> bulk_mode b \<or> bulk_failed b \<or> s_complete (stream b)")
  case True
  then show ?thesis using inv res by (auto simp: pbns_broker_bulk_receive_def Let_def clear_response_def split: if_splits)
next
  case False
  with inv have b: "broker_wf sh c b" "opened b" "transport b = T" "platform b = P" "is_open e"
    by (auto simp: broker_inv_def broker_wf_def split: if_splits)
  from False res obtain b1 r1 where lp: "loop (bulk_receive_body qc residue) (b, e) = Some (st, b1, r1, e')" and b': "b' = Some b1"
    by (auto simp: pbns_broker_bulk_receive_def Let_def clear_response_def)
  have "session_kept sh c b b1 \<and> is_open e'" by (rule session_loop_inv [OF lp b bulk_receive_body_inv])
  then show ?thesis using b(2-4) b' by (simp add: session_kept_def broker_inv_def)
qed

lemma open_session_inv:
  assumes b: "broker_static sh b" "\<not> opened b" "\<not> active b" "\<not> deadline_active b" "idle_wf c b" "transport b = T" "platform b = P"
    and e: "is_closed e" and undo: "\<And>x. broker_static sh x \<Longrightarrow> idle_wf c x \<Longrightarrow> broker_static sh (undo x) \<and> idle_wf c (undo x) \<and>
      undo x = x\<lparr>storage := storage (undo x), reader := reader (undo x)\<rparr>"
  shows "open_session undo b rid ms e = Inl (st, b', e') \<Longrightarrow> broker_inv T P is_open is_closed sh c b' e' \<and> \<not> opened b'"
    and "open_session undo b rid ms e = Inr (st, b', e') \<Longrightarrow> session_opening sh rid b' \<and> transport b' = T \<and> platform b' = P \<and> is_open e' \<and>
      (st = PBNS_OK \<longrightarrow> limits_are_valid (limits b'))"
proof -
  obtain st1 now e1 where clk: "the (p_monotonic_ms (the P)) e = (st1, now, e1)" by (metis prod_cases3)
  have e1: "is_closed e1" by (rule clock_closed_env [OF e clk])
  obtain st2 e2 where op: "the (t_open (the T)) e1 = (st2, e2)" by (metis surj_pair)
  have e2: "if st2 = PBNS_OK then is_open e2 else is_closed e2" by (rule open_env [OF e1 op])
  have un: "broker_inv T P is_open is_closed sh c (undo x) e0 \<and> \<not> opened (undo x)"
    if "broker_static sh x" "idle_wf c x" "\<not> opened x" "\<not> active x" "\<not> deadline_active x" "transport x = T" "platform x = P" "is_closed e0" for x e0
  proof -
    from undo [OF that(1,2)] obtain s1 r1 where u: "undo x = x\<lparr>storage := s1, reader := r1\<rparr>" by blast
    with undo [OF that(1,2)] that(2-) show ?thesis by (simp add: broker_inv_def broker_wf_def idle_wf_def)
  qed
  show "open_session undo b rid ms e = Inl (st, b', e') \<Longrightarrow> broker_inv T P is_open is_closed sh c b' e' \<and> \<not> opened b'"
    using b e1 e2 un by (auto simp: open_session_def begin_deadline_def Let_def clk op split: if_splits)
  assume os: "open_session undo b rid ms e = Inr (st, b', e')"
  then obtain b1 where q: "query_effective_limits b1 e2 = (st, b', e')" and "st2 = PBNS_OK"
    and b1: "session_opening sh rid b1" "transport b1 = T" "platform b1 = P"
    using b by (auto simp: open_session_def begin_deadline_def Let_def clk op session_opening_def idle_wf_clean [of c] split: if_splits)
  note qe = query_effective_limits_effect [OF q]
  obtain l where l: "b' = b1\<lparr>limits := l\<rparr>" using qe(1) by blast
  have "is_open e'" using q e2 \<open>st2 = PBNS_OK\<close> limits_env b1(2)
    by (auto simp: query_effective_limits_def Let_def split: prod.splits if_splits)
  with b1 qe(2) show "session_opening sh rid b' \<and> transport b' = T \<and> platform b' = P \<and> is_open e' \<and>
      (st = PBNS_OK \<longrightarrow> limits_are_valid (limits b'))" by (simp add: l session_opening_def)
qed

lemma drop_session_broker_inv:
  assumes "drop_session st b e = (st', b', e')" and "broker_static sh b" and "transport b = T" and "platform b = P"
    and "opened b" and "is_open e"
  shows "broker_inv T P is_open is_closed sh c b' e' \<and> \<not> opened b'"
  using drop_session_inv [OF assms(1-4), of c] assms(5,6) by (simp add: broker_inv_def)

lemma emit_opening:
  assumes "emit_frame b f p e = (st, b', e')" and "session_opening sh rid b" and "length rid = 16" and "f_request_id f = rid"
    and "transport b = T" and "platform b = P" and "is_open e"
  shows "session_opening sh rid b'" "limits b' = limits b" "stream b' = stream b" "transport b' = T" "platform b' = P" "is_open e'"
    "broker_static sh b'" "opened b'"
proof -
  have "broker_static sh b" using assms(2) by (simp add: session_opening_def)
  note eff = emit_frame_inv [OF assms(1) _ this assms(5-7), simplified assms(4), OF assms(3)]
  from session_opening_memory [OF assms(2), of b'] eff assms(5,6)
  show "session_opening sh rid b'" "limits b' = limits b" "stream b' = stream b" "transport b' = T" "platform b' = P" "is_open e'"
    "broker_static sh b'" "opened b'" by (simp_all add: session_opening_def)
qed

lemma bulk_begin_opened_inv:
  assumes "bulk_begin_opened b st svc body n e = (st', b', e')" and "session_opening sh rid b" and "length rid = 16"
    and "st = PBNS_OK \<longrightarrow> limits_are_valid (limits b)" and "transport b = T" and "platform b = P" and "is_open e"
  shows "broker_inv T P is_open is_closed sh c b' e'"
proof -
  let ?f = "\<lparr>f_service = svc, f_type = PBNS_MESSAGE_REQUEST, f_flags = 0, f_request_id = request_id b, f_sequence = 0\<rparr>"
  obtain st1 b1 e1 where emit: "emit_frame b ?f (view_reload (storage b) body) e = (st1, b1, e1)" by (metis prod_cases3)
  have o: "broker_static sh b" "opened b" "request_id b = rid" using assms(2) by (simp_all add: session_opening_def)
  note d0 = drop_session_broker_inv [OF _ o(1) assms(5,6) o(2) assms(7)]
  note e1 = emit_opening [OF emit assms(2,3) _ assms(5-7), simplified o(3), simplified]
  note d1 = drop_session_broker_inv [OF _ e1(7,4,5,8,6)]
  define b2 where "b2 = b1\<lparr>service := svc, active := True, bulk_mode := True, bulk_exact_data_size := n,
                            stream := the (pbns_stream_init (Some (stream b1)) svc (request_id b1) (- 1))\<rparr>"
  have s2: "broker_static sh b2" "transport b2 = T" "platform b2 = P" "opened b2" using e1 by (simp_all add: b2_def)
  note d2 = drop_session_broker_inv [OF _ s2 e1(6)]
  have act: "broker_inv T P is_open is_closed sh c b2 e1" if "s_initialized (stream b2)" "limits_are_valid (limits b)"
  proof -
    have "service_is_valid svc" using that(1) by (auto simp: b2_def pbns_stream_init_def zero_stream_def split: if_splits)
    with that(2) e1 assms(3) show ?thesis
      by (simp add: b2_def broker_inv_def broker_wf_def session_wf_def session_opening_def idle_wf_def pbns_stream_init_def)
  qed
  show ?thesis
    using assms(1,4) d0 d1 d2 act
    unfolding bulk_begin_opened_def Let_def emit prod.case b2_def [symmetric] by (auto split: if_splits)
qed

lemma wipe_undo:
  "broker_static sh x \<Longrightarrow> idle_wf c x \<Longrightarrow> broker_static sh (wipe_request_storage x False) \<and> idle_wf c (wipe_request_storage x False) \<and>
   wipe_request_storage x False = x\<lparr>storage := storage (wipe_request_storage x False), reader := reader (wipe_request_storage x False)\<rparr>"
proof -
  assume a: "broker_static sh x" "idle_wf c x"
  note w = wipe_request_storage_effect [OF a(1), of False] wipe_request_storage_clean [of x False]
  from w(2) obtain s1 r1 where "wipe_request_storage x False = x\<lparr>storage := s1, reader := r1\<rparr>" by blast
  with w a(2) show ?thesis by (simp add: idle_wf_clean [of c])
qed

lemma fresh_session_inv:
  assumes "broker_inv T P is_open is_closed sh c b e" and "\<not> opened b"
  shows "broker_static sh (fresh_session b)" "\<not> opened (fresh_session b)" "\<not> active (fresh_session b)"
    "\<not> deadline_active (fresh_session b)" "idle_wf c' (fresh_session b)" "transport (fresh_session b) = T"
    "platform (fresh_session b) = P" "is_closed e"
proof -
  have "broker_static sh b" using assms(1) by (simp add: broker_inv_def broker_wf_def)
  note f = fresh_session_effect [OF this]
  from f(3) obtain s1 r1 where u: "fresh_session b = b\<lparr>storage := s1, reader := r1\<rparr>" by blast
  from f(1,2) assms show "broker_static sh (fresh_session b)" "\<not> opened (fresh_session b)" "\<not> active (fresh_session b)"
    "\<not> deadline_active (fresh_session b)" "idle_wf c' (fresh_session b)" "transport (fresh_session b) = T"
    "platform (fresh_session b) = P" "is_closed e"
    by (simp_all add: u broker_inv_def broker_wf_def idle_wf_clean [of c] idle_wf_clean [of c'])
qed

lemma bulk_begin_inv:
  assumes inv: "broker_inv T P is_open is_closed sh c b e" and rid: "\<And>x. rid = Some x \<Longrightarrow> length x = 16"
    and res: "pbns_broker_bulk_begin (Some b) svc rid body n ms e = (st, b', e')"
  shows "\<exists>b1. b' = Some b1 \<and> broker_inv T P is_open is_closed sh c b1 e'"
proof (cases "opened b \<or> active b")
  case True
  then show ?thesis using inv res by (auto simp: pbns_broker_bulk_begin_def Let_def split: if_splits)
next
  case False
  then have closed: "\<not> opened b" by simp
  note f = fresh_session_inv [OF inv closed]
  note os = open_session_inv [OF f wipe_undo]
  have "\<exists>b1. b' = Some b1 \<and> broker_inv T P is_open is_closed sh c b1 e'" if "rid = Some x" for x
    using that res inv os bulk_begin_opened_inv [OF _ _ rid [OF that]]
    by (auto simp: pbns_broker_bulk_begin_def Let_def split: if_splits sum.splits prod.splits)
  then show ?thesis using inv res by (cases rid) (auto simp: pbns_broker_bulk_begin_def)
qed

lemma broker_invD:
  assumes "broker_inv T P is_open is_closed sh c b e" and "opened b"
  shows "broker_wf sh c b" "broker_static sh b" "transport b = T" "platform b = P" "is_open e" "length (request_id b) = 16"
  using assms by (simp_all add: broker_inv_def broker_wf_def session_wf_def)

lemma session_kept_inv:
  assumes "session_kept sh c b b'" and "transport b = T" and "platform b = P" and "is_open e"
  shows "broker_inv T P is_open is_closed sh c b' e"
  using assms by (simp add: session_kept_def broker_inv_def)

lemma emit_frame_kept:
  assumes "broker_wf sh c b" and "opened b" and "transport b = T" and "platform b = P" and "is_open e"
    and "emit_frame b f p e = (st, b', e')" and "length (f_request_id f) = 16"
  shows "session_kept sh c b b'" "is_open e'"
    "b' = b\<lparr>storage := storage b', reader := reader b'\<rparr>"
proof -
  note eff = emit_frame_inv [OF assms(6,7) broker_wf_static [OF assms(1)] assms(3-5)]
  then obtain s1 r1 where b': "b' = b\<lparr>storage := s1, reader := r1\<rparr>" by blast
  from broker_wf_memory [OF assms(1,2)] eff have "broker_wf sh c b'" by blast
  with assms(2) eff show "session_kept sh c b b'" "is_open e'" "b' = b\<lparr>storage := storage b', reader := reader b'\<rparr>"
    by (simp_all add: session_kept_def b')
qed

lemma bulk_ack_inv:
  assumes inv: "broker_inv T P is_open is_closed sh c b e"
    and res: "pbns_broker_bulk_ack stack (Some b) k w e = (st, b', e')"
  shows "\<exists>b1. b' = Some b1 \<and> broker_inv T P is_open is_closed sh c b1 e'"
proof (cases "opened b")
  case False
  then have "\<not> active b" using inv by (simp add: broker_inv_def broker_wf_def)
  then show ?thesis using inv res by (auto simp: pbns_broker_bulk_ack_def Let_def)
next
  case True
  note b = broker_invD [OF inv True]
  obtain st1 ms e1 where rem: "remaining_timeout b (Some 0) e = (st1, ms, e1)" by (metis prod_cases3)
  have e1: "is_open e1" using remaining_timeout_env [OF rem b(4)] b(5) by simp
  let ?f = "\<lparr>f_service = service b, f_type = PBNS_MESSAGE_ACK, f_flags = 0, f_request_id = request_id b,
    f_sequence = bulk_next_ack_sequence b\<rparr>"
  let ?p = "\<lparr>v_ptr = stack, v_bytes = write_u32_be k @ write_u32_be w\<rparr>"
  obtain st2 b2 n where enc: "broker_encode b ?f ?p = (st2, b2, n)" by (metis prod_cases3)
  have eff: "broker_static sh b2 \<and> b2 = b\<lparr>storage := storage b2, reader := reader b2\<rparr>"
    using broker_encode_effect [OF enc _ b(2)] b(6) by simp
  then obtain s1 r1 where b2: "b2 = b\<lparr>storage := s1, reader := r1\<rparr>" by blast
  have wf2: "broker_wf sh c b2" using broker_wf_memory [OF b(1) True] eff by blast
  obtain st3 e3 where send: "broker_send b2 n (the ms) e1 = (st3, e3)" by (metis surj_pair)
  have e3: "is_open e3" using send_env [OF e1] send b(3) by (simp add: broker_send_def b2)
  have o2: "opened b2" using True by (simp add: b2)
  have "broker_inv T P is_open is_closed sh c b4 e0" if "fail_bulk_session x y = (z, b4)" "x = b \<or> x = b2" "is_open e0" for x y z b4 e0
    using session_kept_fail_bulk [OF b(1) True] session_kept_fail_bulk [OF wf2 o2] that b(3,4)
    by (auto simp: session_kept_def broker_inv_def b2)
  moreover have "broker_inv T P is_open is_closed sh c (b2\<lparr>bulk_next_ack_sequence := q\<rparr>) e3" for q
    using wf2 o2 e3 b(3,4) by (simp add: broker_inv_def broker_wf_def session_wf_def b2)
  ultimately show ?thesis
    using res inv e1 e3
    unfolding pbns_broker_bulk_ack_def Let_def option.sel rem prod.case enc send
    by (auto split: if_splits prod.splits)
qed

lemma finish_broker_inv:
  assumes "finish_session b pd e = (st, b', e')" and "broker_inv T P is_open is_closed sh c b e"
  shows "broker_inv T P is_open is_closed sh c b' e' \<and> \<not> opened b'"
  using finish_session_inv [OF assms(1), of sh c] assms(2) broker_wf_static [of sh c b] by (auto simp: broker_inv_def)

lemma bulk_finish_inv:
  assumes "broker_inv T P is_open is_closed sh c b e" and "pbns_broker_bulk_finish (Some b) e = (st, b', e')"
  shows "\<exists>b1. b' = Some b1 \<and> broker_inv T P is_open is_closed sh c b1 e'"
  using assms finish_broker_inv by (fastforce simp: pbns_broker_bulk_finish_def Let_def split: if_splits prod.splits)

lemma upload_finish_inv:
  assumes "broker_inv T P is_open is_closed sh c b e" and "pbns_broker_upload_finish (Some b) e = (st, b', e')"
  shows "\<exists>b1. b' = Some b1 \<and> broker_inv T P is_open is_closed sh c b1 e'"
  using assms finish_broker_inv by (fastforce simp: pbns_broker_upload_finish_def Let_def split: if_splits prod.splits)

text \<open>Cancelling an active session, by the broker or by the caller.\<close>

lemma cancel_env_inv:
  assumes inv: "broker_inv T P is_open is_closed sh c b e" and op: "opened b"
    and emit: "emit_cancel b e = (st1, b1, e1)" and can: "the (t_cancel (the (transport b1))) e1 (request_id b1) = (st2, e2)"
  shows "broker_static sh b1" "transport b1 = T" "platform b1 = P" "opened b1" "is_open e2" "initialized b1"
proof -
  note b = broker_invD [OF inv op]
  note eff = emit_cancel_inv [OF emit b(6,2-5)]
  then obtain s1 r1 where b1: "b1 = b\<lparr>storage := s1, reader := r1\<rparr>" by blast
  from eff b op cancel_env [of e1] can show "broker_static sh b1" "transport b1 = T" "platform b1 = P" "opened b1" "is_open e2" "initialized b1"
    by (simp_all add: b1 broker_static_def)
qed

lemma cancel_inv:
  assumes inv: "broker_inv T P is_open is_closed sh c b e" and res: "pbns_broker_cancel (Some b) e = (st, b', e')"
  shows "\<exists>b1. b' = Some b1 \<and> broker_inv T P is_open is_closed sh c b1 e' \<and> \<not> opened b1"
proof (cases "active b")
  case False
  then show ?thesis using inv res by (auto simp: pbns_broker_cancel_def Let_def broker_inv_def broker_wf_def)
next
  case True
  then have op: "opened b" and init: "initialized b" using inv by (auto simp: broker_inv_def broker_wf_def broker_static_def)
  obtain st1 b1 e1 where emit: "emit_cancel b e = (st1, b1, e1)" by (metis prod_cases3)
  obtain st2 e2 where can: "the (t_cancel (the (transport b1))) e1 (request_id b1) = (st2, e2)" by (metis surj_pair)
  note c = cancel_env_inv [OF inv op emit can]
  obtain st3 b3 e3 where fin: "finish_session b1 False e2 = (st3, b3, e3)" by (metis prod_cases3)
  from finish_session_inv [OF fin c(1-3)] c(4,5) res True init show ?thesis
    by (auto simp: pbns_broker_cancel_def Let_def emit can fin broker_inv_def)
qed

lemma abort_upload_inv:
  assumes inv: "broker_inv T P is_open is_closed sh c b e" and res: "abort_upload_session b st e = (st', b', e')"
  shows "broker_inv T P is_open is_closed sh c b' e' \<and> \<not> opened b' \<and> st' = st"
proof (cases "active b")
  case False
  then show ?thesis using inv res by (auto simp: abort_upload_session_def broker_inv_def broker_wf_def)
next
  case True
  then have op: "opened b" using inv by (auto simp: broker_inv_def broker_wf_def)
  obtain st1 b1 e1 where emit: "emit_cancel b e = (st1, b1, e1)" by (metis prod_cases3)
  obtain st2 e2 where can: "the (t_cancel (the (transport b1))) e1 (request_id b1) = (st2, e2)" by (metis surj_pair)
  note c = cancel_env_inv [OF inv op emit can]
  from drop_session_inv [OF _ c(1-3)] c(4,5) res True show ?thesis
    by (auto simp: abort_upload_session_def emit can broker_inv_def split: prod.splits)
qed

lemma upload_begin_opened_inv:
  assumes "upload_begin_opened b st svc rid body e = (st', b', e')" and "session_opening sh rid b" and "length rid = 16"
    and "st = PBNS_OK \<longrightarrow> limits_are_valid (limits b)" and "transport b = T" and "platform b = P" and "is_open e"
  shows "broker_inv T P is_open is_closed sh c b' e'"
proof -
  let ?f = "\<lparr>f_service = svc, f_type = PBNS_MESSAGE_REQUEST, f_flags = 0, f_request_id = rid, f_sequence = 0\<rparr>"
  have o: "broker_static sh b" "opened b" using assms(2) by (simp_all add: session_opening_def)
  note d0 = drop_session_broker_inv [OF _ o(1) assms(5,6) o(2) assms(7)]
  define b1 where "b1 = b\<lparr>service := svc, upload_mode := True, upload_next_sequence := 0,
    stream := the (pbns_stream_init (Some (stream b)) svc rid (of_nat (control_payload_max (limits b))))\<rparr>"
  have s1: "broker_static sh b1" "transport b1 = T" "platform b1 = P" "opened b1" using o assms(5,6) by (simp_all add: b1_def)
  note d1 = drop_session_broker_inv [OF _ s1 assms(7)]
  define b2 where "b2 = b1\<lparr>active := True\<rparr>"
  obtain st3 b3 e3 where emit: "emit_frame b2 ?f (view_reload (storage b2) body) e = (st3, b3, e3)" by (metis prod_cases3)
  have inv3: "broker_inv T P is_open is_closed sh c b3 e3" if "s_initialized (stream b1)" "limits_are_valid (limits b)"
  proof -
    have "service_is_valid svc" using that(1) by (auto simp: b1_def pbns_stream_init_def zero_stream_def split: if_splits)
    with that(2) assms(2,3) have wf2: "broker_wf sh c b2"
      by (simp add: b2_def b1_def broker_wf_def session_wf_def session_opening_def idle_wf_def pbns_stream_init_def)
    have o2: "opened b2" "transport b2 = T" "platform b2 = P" using s1 by (simp_all add: b2_def)
    have id: "length (f_request_id ?f) = 16" using assms(3) by simp
    note k = emit_frame_kept [OF wf2 o2 assms(7) emit id]
    show ?thesis by (rule session_kept_inv [OF k(1) o2(2,3) k(2)])
  qed
  show ?thesis
    using assms(1,4) d0 d1 inv3 abort_upload_inv [OF inv3]
    unfolding upload_begin_opened_def Let_def b1_def [symmetric] b2_def [symmetric] emit prod.case by (auto split: if_splits)
qed

lemma upload_begin_inv:
  assumes inv: "broker_inv T P is_open is_closed sh c b e" and rid: "\<And>x. rid = Some x \<Longrightarrow> length x = 16"
    and res: "pbns_broker_upload_begin (Some b) svc rid body ms e = (st, b', e')"
  shows "\<exists>b1. b' = Some b1 \<and> broker_inv T P is_open is_closed sh c b1 e'"
proof (cases "opened b \<or> active b")
  case True
  then show ?thesis using inv res by (auto simp: pbns_broker_upload_begin_def Let_def split: if_splits)
next
  case False
  then have closed: "\<not> opened b" by simp
  note f = fresh_session_inv [OF inv closed]
  have id: "broker_static sh x \<Longrightarrow> idle_wf c x \<Longrightarrow> broker_static sh x \<and> idle_wf c x \<and> x = x\<lparr>storage := storage x, reader := reader x\<rparr>" for x
    by simp
  note os = open_session_inv [OF f id]
  have "\<exists>b1. b' = Some b1 \<and> broker_inv T P is_open is_closed sh c b1 e'" if "rid = Some x" for x
    using that res inv os upload_begin_opened_inv [OF _ _ rid [OF that]]
    by (auto simp: pbns_broker_upload_begin_def Let_def split: if_splits sum.splits prod.splits)
  then show ?thesis using inv res by (cases rid) (auto simp: pbns_broker_upload_begin_def)
qed

lemma upload_emit_inv:
  assumes inv: "broker_inv T P is_open is_closed sh c b e" and op: "opened b" and res: "upload_emit b t p k e = (st, b', e')"
  shows "broker_inv T P is_open is_closed sh c b' e'" "opened b'" "b' = b\<lparr>storage := storage b', reader := reader b'\<rparr>"
proof -
  note b = broker_invD [OF inv op]
  note k = emit_frame_kept [OF b(1) op b(3-5) res [unfolded upload_emit_def]]
  show "broker_inv T P is_open is_closed sh c b' e'" "opened b'" "b' = b\<lparr>storage := storage b', reader := reader b'\<rparr>"
    using k b(6) session_kept_inv [OF k(1) b(3,4) k(2)] by (simp_all add: session_kept_def)
qed

lemma broker_inv_flags:
  assumes "broker_inv T P is_open is_closed sh c b e" and "opened b"
  shows "broker_inv T P is_open is_closed sh c (b\<lparr>upload_next_sequence := k\<rparr>) e"
    and "broker_inv T P is_open is_closed sh c (b\<lparr>upload_mode := False\<rparr>) e"
    and "\<not> bulk_mode b \<Longrightarrow> \<not> upload_mode b \<Longrightarrow> broker_inv T P is_open is_closed sh c (b\<lparr>upload_response_received := True\<rparr>) e"
  using assms by (simp_all add: broker_inv_def broker_wf_def session_wf_def)

lemma upload_send_inv:
  assumes inv: "broker_inv T P is_open is_closed sh c b e"
    and res: "pbns_broker_upload_send qc residue (Some b) p fin r e = Some (st, b', r', e')"
  shows "\<exists>b1. b' = Some b1 \<and> broker_inv T P is_open is_closed sh c b1 e'"
proof (cases "r = None \<or> \<not> view_is_valid p \<or> v_len p = 0 \<or> \<not> initialized b \<or> \<not> active b \<or> \<not> upload_mode b \<or> bulk_mode b")
  case True
  then show ?thesis
    using inv res unfolding pbns_broker_upload_send_def Let_def clear_response_def by (auto split: if_splits)
next
  case False
  then have op: "opened b" using inv by (auto simp: broker_inv_def broker_wf_def)
  have ab: "\<exists>b1. b' = Some b1 \<and> broker_inv T P is_open is_closed sh c b1 e'"
    if "(case abort_upload_session x y e0 of (status, b, e) \<Rightarrow> Some (status, Some b, Some zero_response, e)) = Some (st, b', r', e')"
      "broker_inv T P is_open is_closed sh c x e0" for x y e0
    using that abort_upload_inv [OF that(2)] by (auto split: prod.splits)
  obtain st1 b1 e1 where em1: "upload_emit b PBNS_MESSAGE_DATA p (upload_next_sequence b) e = (st1, b1, e1)" by (metis prod_cases3)
  note i1 = upload_emit_inv [OF inv op em1]
  then obtain s1 r1 where b1: "b1 = b\<lparr>storage := s1, reader := r1\<rparr>" by blast
  define b2 where "b2 = (if st1 = PBNS_OK then b1\<lparr>upload_next_sequence := upload_next_sequence b1 + 1\<rparr> else b1)"
  have i2: "broker_inv T P is_open is_closed sh c b2 e1" "opened b2" "\<not> bulk_mode b2"
    using i1(1,2) broker_inv_flags(1) [OF i1(1,2)] False by (simp_all add: b2_def b1)
  obtain st3 b3 e3 where em3: "(if st1 = PBNS_OK \<and> fin then upload_emit b2 PBNS_MESSAGE_COMPLETE null_view (upload_next_sequence b2) e1
      else (st1, b2, e1)) = (st3, b3, e3)" by (metis prod_cases3)
  have i3: "broker_inv T P is_open is_closed sh c b3 e3" "opened b3" "\<not> bulk_mode b3"
  proof -
    have "broker_inv T P is_open is_closed sh c b3 e3 \<and> opened b3 \<and> \<not> bulk_mode b3"
    proof (cases "st1 = PBNS_OK \<and> fin")
      case True
      with em3 have em: "upload_emit b2 PBNS_MESSAGE_COMPLETE null_view (upload_next_sequence b2) e1 = (st3, b3, e3)" by simp
      note i = upload_emit_inv [OF i2(1,2) em]
      then obtain s3 r3 where "b3 = b2\<lparr>storage := s3, reader := r3\<rparr>" by blast
      with i i2(3) show ?thesis by simp
    next
      case False
      with em3 i2 show ?thesis by auto
    qed
    then show "broker_inv T P is_open is_closed sh c b3 e3" "opened b3" "\<not> bulk_mode b3" by auto
  qed
  have i4: "broker_inv T P is_open is_closed sh c (b3\<lparr>upload_mode := False\<rparr>) e3" by (rule broker_inv_flags(2) [OF i3(1,2)])
  have i5: "broker_inv T P is_open is_closed sh c (the x) e5 \<and>
      broker_inv T P is_open is_closed sh c ((the x)\<lparr>upload_response_received := True\<rparr>) e5"
    if "pbns_broker_receive qc residue (Some (b3\<lparr>upload_mode := False\<rparr>)) y e3 = Some (st5, x, r5, e5)" for y st5 x r5 e5
    using receive_inv [OF i4 that] i3 broker_inv_flags(3) by auto
  show ?thesis
    using False res inv i3 ab i5
    unfolding pbns_broker_upload_send_def Let_def option.sel em1 prod.case b2_def [symmetric] em3
    by (auto split: if_splits option.splits)
qed

lemma request_finish_inv:
  assumes inv: "broker_inv T P is_open is_closed sh c b e" and res: "request_finish b st r e = (st', b', r', e')"
  shows "broker_inv T P is_open is_closed sh c b' e' \<and> \<not> opened b'"
proof (cases "st = PBNS_ERR_TIMEOUT")
  case True
  then show ?thesis using res cancel_inv [OF inv] by (auto simp: request_finish_def split: prod.splits)
next
  case False
  obtain st1 b1 e1 where fin: "finish_session b (st = PBNS_OK) e = (st1, b1, e1)" by (metis prod_cases3)
  note f = finish_broker_inv [OF fin inv]
  define b2 where "b2 = set_decoded b1 (replicate (b_cap (decoded (storage b1))) 0) 0"
  have st1: "broker_static sh b1" using f by (simp add: broker_inv_def broker_wf_def)
  have "broker_static sh b2" using set_decoded_effect(1) [OF st1] by (simp add: b2_def)
  then have "broker_inv T P is_open is_closed sh c b2 e1 \<and> \<not> opened b2"
    using f by (auto simp: b2_def set_decoded_def broker_inv_def broker_wf_def idle_wf_def storage_clean_def)
  with res False fin f show ?thesis by (auto simp: request_finish_def Let_def b2_def split: if_splits)
qed

lemma request_opened_inv:
  assumes "request_opened qc residue b st svc body r e = Some (st', b', r', e')" and "session_opening sh rid b" and "length rid = 16"
    and "st = PBNS_OK \<longrightarrow> limits_are_valid (limits b)" and "transport b = T" and "platform b = P" and "is_open e"
  shows "broker_inv T P is_open is_closed sh c b' e' \<and> \<not> opened b'"
proof -
  let ?f = "\<lparr>f_service = svc, f_type = PBNS_MESSAGE_REQUEST, f_flags = 0, f_request_id = request_id b, f_sequence = 0\<rparr>"
  obtain st1 b1 e1 where emit: "emit_frame b ?f (view_reload (storage b) body) e = (st1, b1, e1)" by (metis prod_cases3)
  have o: "broker_static sh b" "opened b" "request_id b = rid" using assms(2) by (simp_all add: session_opening_def)
  note d0 = drop_session_broker_inv [OF _ o(1) assms(5,6) o(2) assms(7)]
  note e1 = emit_opening [OF emit assms(2,3) _ assms(5-7), simplified o(3), simplified]
  note d1 = drop_session_broker_inv [OF _ e1(7,4,5,8,6)]
  define b2 where "b2 = b1\<lparr>service := svc, active := True,
    stream := the (pbns_stream_init (Some (stream b1)) svc (request_id b1) (of_nat (control_payload_max (limits b1))))\<rparr>"
  have s2: "broker_static sh b2" "transport b2 = T" "platform b2 = P" "opened b2" using e1 by (simp_all add: b2_def)
  note d2 = drop_session_broker_inv [OF _ s2 e1(6)]
  define b3 where "b3 = b2\<lparr>reader := the (pbns_record_reader_reset (Some (reader b2)))\<rparr>"
  have i3: "broker_inv T P is_open is_closed sh c b3 e1" if "s_initialized (stream b2)" "limits_are_valid (limits b)"
  proof -
    have "service_is_valid svc" using that(1) by (auto simp: b2_def pbns_stream_init_def zero_stream_def split: if_splits)
    moreover have "broker_static sh b3" using s2(1) by (auto simp: b3_def broker_static_def pbns_record_reader_reset_def)
    ultimately show ?thesis using that(2) e1 assms(3)
      by (simp add: b3_def b2_def broker_inv_def broker_wf_def session_wf_def session_opening_def idle_wf_def pbns_stream_init_def)
  qed
  have rcv: "broker_inv T P is_open is_closed sh c b5 e5 \<and> \<not> opened b5"
    if "pbns_broker_receive qc residue (Some b3) r e1 = Some (st4, x, r4, e4)" "request_finish (the x) st4 r4 e4 = (st5, b5, r5, e5)"
      "s_initialized (stream b2)" "limits_are_valid (limits b)" for st4 x r4 e4 st5 b5 r5 e5
    using receive_inv [OF i3 [OF that(3,4)] that(1)] request_finish_inv [OF _ that(2)] by auto
  show ?thesis
    using assms(1,4) d0 d1 d2 rcv
    unfolding request_opened_def Let_def emit prod.case b2_def [symmetric] b3_def [symmetric]
    by (auto split: if_splits option.splits prod.splits)
qed

lemma request_inv:
  assumes inv: "broker_inv T P is_open is_closed sh c b e" and rid: "\<And>x. rid = Some x \<Longrightarrow> length x = 16"
    and res: "broker_request qc residue (Some b) svc rid body ms r e = Some (st, b', r', e')"
  shows "\<exists>b1. b' = Some b1 \<and> broker_inv T P is_open is_closed sh c b1 e' \<and> opened b1 = opened b"
proof (cases "opened b \<or> active b")
  case True
  then show ?thesis using inv res unfolding broker_request_def Let_def option.sel by (auto split: if_splits)
next
  case False
  then have closed: "\<not> opened b" by simp
  define b0 where "b0 = (fresh_session b)\<lparr>request_id := zero_request_id\<rparr>"
  have f: "broker_static sh b0" "\<not> opened b0" "\<not> active b0" "\<not> deadline_active b0" "idle_wf c b0" "transport b0 = T"
    "platform b0 = P" "is_closed e"
    using fresh_session_inv [OF inv closed] by (simp_all add: b0_def)
  obtain st1 id e1 where rf: "request_id_for b0 rid e = (st1, id, e1)" by (metis prod_cases3)
  have id: "length id = 16" and e1: "is_closed e1"
    using rf f(7,8) rid random_env
    by (auto simp: request_id_for_def Let_def zero_request_id_def split: option.splits prod.splits if_splits)
  have i0: "broker_inv T P is_open is_closed sh c b0 e1 \<and> \<not> opened b0"
    using f e1 by (simp add: broker_inv_def broker_wf_def idle_wf_def)
  note os = open_session_inv [OF f(1-7) e1 wipe_undo]
  have ro: "broker_inv T P is_open is_closed sh c b5 e5 \<and> \<not> opened b5"
    if "open_session (\<lambda>b. wipe_request_storage b False) b0 id ms e1 = Inr (x1, x2, x3)"
      "request_opened qc residue x2 x1 svc body y x3 = Some (st5, b5, r5, e5)" for x1 x2 x3 y st5 b5 r5 e5
  proof -
    have o: "session_opening sh id x2 \<and> transport x2 = T \<and> platform x2 = P \<and> is_open x3 \<and>
      (x1 = PBNS_OK \<longrightarrow> limits_are_valid (limits x2))" by (rule os(2) [OF _ _ that(1)])
    show ?thesis by (rule request_opened_inv [OF that(2) _ id]) (use o in blast)+
  qed
  have oc: "broker_inv T P is_open is_closed sh c b5 e5 \<and> \<not> opened b5"
    if "open_session (\<lambda>b. wipe_request_storage b False) b0 id ms e1 = Inl (st5, b5, e5)" for st5 b5 e5
    by (rule os(1) [OF _ _ that])
  let ?open = "open_session (\<lambda>b. wipe_request_storage b False) b0 id ms e1"
  have "(b' = Some b \<and> e' = e) \<or> (b' = Some b0 \<and> e' = e1) \<or> (\<exists>st5 b5. ?open = Inl (st5, b5, e') \<and> b' = Some b5) \<or>
    (\<exists>x1 x2 x3 y st5 b5 r5. ?open = Inr (x1, x2, x3) \<and> request_opened qc residue x2 x1 svc body y x3 = Some (st5, b5, r5, e') \<and> b' = Some b5)"
    using res unfolding broker_request_def Let_def option.sel b0_def [symmetric] rf prod.case
    by (simp split: if_splits sum.splits prod.splits) blast+
  then consider "b' = Some b" "e' = e" | "b' = Some b0" "e' = e1" | st5 b5 where "?open = Inl (st5, b5, e')" "b' = Some b5"
    | x1 x2 x3 y st5 b5 r5 where "?open = Inr (x1, x2, x3)" "request_opened qc residue x2 x1 svc body y x3 = Some (st5, b5, r5, e')" "b' = Some b5"
    by blast
  then show ?thesis
  proof cases
    case 1
    with inv show ?thesis by simp
  next
    case 2
    with i0 closed show ?thesis by simp
  next
    case 3
    with oc [OF 3(1)] closed show ?thesis by simp
  next
    case 4
    with ro [OF 4(1,2)] closed show ?thesis by simp
  qed
qed

end

subsection \<open>Reachable states\<close>

text \<open>
  The states a broker reaches from its initialisation by any calls but the reset, in any order,
  with an environment that may change between them as \<open>idle\<close> allows.  A reset leaves the zero
  broker, which no longer knows its transport and buffers; the next initialisation starts anew.
\<close>

inductive broker_reach ::
  "qcbor_decoder \<Rightarrow> (bytes \<Rightarrow> bytes \<Rightarrow> bytes) \<Rightarrow> 'e pbns_transport \<Rightarrow> 'e pbns_broker_platform \<Rightarrow> pbns_broker_storage \<Rightarrow>
   ('e \<Rightarrow> 'e \<Rightarrow> bool) \<Rightarrow> 'e \<Rightarrow> 'e pbns_broker \<Rightarrow> 'e \<Rightarrow> bool"
  for qc :: qcbor_decoder and residue :: "bytes \<Rightarrow> bytes \<Rightarrow> bytes" and T :: "'e pbns_transport"
    and P :: "'e pbns_broker_platform" and st0 :: pbns_broker_storage and idle :: "'e \<Rightarrow> 'e \<Rightarrow> bool" and e0 :: 'e where
  init: "pbns_broker_init (Some b0) T P st0 = (PBNS_OK, Some b) \<Longrightarrow> broker_reach qc residue T P st0 idle e0 b e0"
| idle: "broker_reach qc residue T P st0 idle e0 b e \<Longrightarrow> idle e e' \<Longrightarrow> broker_reach qc residue T P st0 idle e0 b e'"
| request: "broker_reach qc residue T P st0 idle e0 b e \<Longrightarrow> (\<And>x. rid = Some x \<Longrightarrow> length x = PBNS_REQUEST_ID_SIZE) \<Longrightarrow>
    broker_request qc residue (Some b) svc rid body ms r e = Some (st, Some b', r', e') \<Longrightarrow>
    broker_reach qc residue T P st0 idle e0 b' e'"
| receive: "broker_reach qc residue T P st0 idle e0 b e \<Longrightarrow>
    pbns_broker_receive qc residue (Some b) r e = Some (st, Some b', r', e') \<Longrightarrow> broker_reach qc residue T P st0 idle e0 b' e'"
| bulk_begin: "broker_reach qc residue T P st0 idle e0 b e \<Longrightarrow> (\<And>x. rid = Some x \<Longrightarrow> length x = PBNS_REQUEST_ID_SIZE) \<Longrightarrow>
    pbns_broker_bulk_begin (Some b) svc rid body n ms e = (st, Some b', e') \<Longrightarrow> broker_reach qc residue T P st0 idle e0 b' e'"
| bulk_receive: "broker_reach qc residue T P st0 idle e0 b e \<Longrightarrow>
    pbns_broker_bulk_receive qc residue (Some b) r e = Some (st, Some b', r', e') \<Longrightarrow> broker_reach qc residue T P st0 idle e0 b' e'"
| bulk_ack: "broker_reach qc residue T P st0 idle e0 b e \<Longrightarrow> pbns_broker_bulk_ack stack (Some b) k w e = (st, Some b', e') \<Longrightarrow>
    broker_reach qc residue T P st0 idle e0 b' e'"
| bulk_finish: "broker_reach qc residue T P st0 idle e0 b e \<Longrightarrow> pbns_broker_bulk_finish (Some b) e = (st, Some b', e') \<Longrightarrow>
    broker_reach qc residue T P st0 idle e0 b' e'"
| upload_begin: "broker_reach qc residue T P st0 idle e0 b e \<Longrightarrow> (\<And>x. rid = Some x \<Longrightarrow> length x = PBNS_REQUEST_ID_SIZE) \<Longrightarrow>
    pbns_broker_upload_begin (Some b) svc rid body ms e = (st, Some b', e') \<Longrightarrow> broker_reach qc residue T P st0 idle e0 b' e'"
| upload_send: "broker_reach qc residue T P st0 idle e0 b e \<Longrightarrow>
    pbns_broker_upload_send qc residue (Some b) p fin r e = Some (st, Some b', r', e') \<Longrightarrow> broker_reach qc residue T P st0 idle e0 b' e'"
| upload_finish: "broker_reach qc residue T P st0 idle e0 b e \<Longrightarrow> pbns_broker_upload_finish (Some b) e = (st, Some b', e') \<Longrightarrow>
    broker_reach qc residue T P st0 idle e0 b' e'"
| cancel: "broker_reach qc residue T P st0 idle e0 b e \<Longrightarrow> pbns_broker_cancel (Some b) e = (st, Some b', e') \<Longrightarrow>
    broker_reach qc residue T P st0 idle e0 b' e'"

lemma broker_init_wf:
  assumes "pbns_broker_init (Some b0) T P st0 = (PBNS_OK, Some b)"
  shows "broker_wf (storage_shape st0) (storage_clean st0) b" "\<not> opened b" "transport b = T" "platform b = P"
    "transport_is_valid T" "platform_is_valid P" "storage_is_valid st0"
proof -
  have v: "transport_is_valid T" "platform_is_valid P" "storage_is_valid st0"
    and b: "b = zero_broker\<lparr>transport := T, platform := P, storage := st0,
      reader := the (pbns_record_reader_init (Some zero_reader) (encoded st0)), initialized := True\<rparr>"
    using assms by (auto simp: pbns_broker_init_def zero_broker_def Let_def split: if_splits)
  from v(3) have "buffer_is_valid (encoded st0)" "b_len (encoded st0) = 0" "b_len (raw_scratch st0) = 0" "b_len (receive st0) = 0"
    by (auto simp: storage_is_valid_def buffer_is_valid_def Let_def split: if_splits)
  then show "broker_wf (storage_shape st0) (storage_clean st0) b" "\<not> opened b" "transport b = T" "platform b = P"
    "transport_is_valid T" "platform_is_valid P" "storage_is_valid st0"
    using v by (simp_all add: b broker_wf_def broker_static_def idle_wf_def zero_broker_def pbns_record_reader_init_def zero_reader_def)
qed

context broker_env
begin

lemma broker_reach_inv:
  assumes "broker_reach qc residue T P st0 idle e0 b e" and "is_closed e0"
    and idle: "\<And>e e'. idle e e' \<Longrightarrow> (is_open e \<longrightarrow> is_open e') \<and> (is_closed e \<longrightarrow> is_closed e')"
  shows "broker_inv T P is_open is_closed (storage_shape st0) (storage_clean st0) b e"
  using assms(1)
proof induction
  case (init b0 b)
  then show ?case using broker_init_wf [OF init] assms(2) by (simp add: broker_inv_def)
next
  case (idle b e e')
  then show ?case using assms(3) by (auto simp: broker_inv_def)
next
  case (request b e rid svc body ms r st b' r' e')
  then show ?case using request_inv [OF request.IH request.hyps(2,3)] by simp
next
  case (receive b e r st b' r' e')
  then show ?case using receive_inv by blast
next
  case (bulk_begin b e rid svc body n ms st b' e')
  then show ?case using bulk_begin_inv [OF bulk_begin.IH bulk_begin.hyps(2,3)] by simp
next
  case (bulk_receive b e r st b' r' e')
  then show ?case using bulk_receive_inv by blast
next
  case (bulk_ack b e stack k w st b' e')
  then show ?case using bulk_ack_inv by blast
next
  case (bulk_finish b e st b' e')
  then show ?case using bulk_finish_inv by blast
next
  case (upload_begin b e rid svc body ms st b' e')
  then show ?case using upload_begin_inv [OF upload_begin.IH upload_begin.hyps(2,3)] by simp
next
  case (upload_send b e p fin r st b' r' e')
  then show ?case using upload_send_inv by blast
next
  case (upload_finish b e st b' e')
  then show ?case using upload_finish_inv by blast
next
  case (cancel b e st b' e')
  then show ?case using cancel_inv by blast
qed

end

subsection \<open>The transport discipline\<close>

datatype transport_event =
    Ev_open pbns_status
  | Ev_close pbns_status
  | Ev_send bytes pbns_status
  | Ev_receive bytes pbns_status
  | Ev_cancel pbns_request_id
  | Ev_limits

text \<open>
  A transport that behaves as the valid transport \<open>T\<close> and records its calls, and the platform
  beside it.
\<close>

definition logged :: "'e pbns_transport \<Rightarrow> ('e \<times> transport_event list) pbns_transport" where
  "logged T = Some
     \<lparr>t_open = Some (\<lambda>(e, log). case the (t_open (the T)) e of (st, e) \<Rightarrow> (st, e, log @ [Ev_open st])),
      t_close = Some (\<lambda>(e, log). case the (t_close (the T)) e of (st, e) \<Rightarrow> (st, e, log @ [Ev_close st])),
      t_send = Some (\<lambda>(e, log) v ms. case the (t_send (the T)) e v ms of (st, e) \<Rightarrow> (st, e, log @ [Ev_send (v_bytes v) st])),
      t_receive = Some (\<lambda>(e, log) buf ms. case the (t_receive (the T)) e buf ms of
        (st, bs, n, e) \<Rightarrow> (st, bs, n, e, log @ [Ev_receive (take n (filled (b_mem buf) bs)) st])),
      t_cancel = Some (\<lambda>(e, log) rid. case the (t_cancel (the T)) e rid of (st, e) \<Rightarrow> (st, e, log @ [Ev_cancel rid])),
      t_limits = Some (\<lambda>(e, log). case the (t_limits (the T)) e of (st, lim, e) \<Rightarrow> (st, lim, e, log @ [Ev_limits]))\<rparr>"

definition logged_platform :: "'e pbns_broker_platform \<Rightarrow> ('e \<times> transport_event list) pbns_broker_platform" where
  "logged_platform P = Some
     \<lparr>p_random = Some (\<lambda>(e, log) buf. case the (p_random (the P)) e buf of (st, bs, e) \<Rightarrow> (st, bs, e, log)),
      p_monotonic_ms = Some (\<lambda>(e, log). case the (p_monotonic_ms (the P)) e of (st, now, e) \<Rightarrow> (st, now, e, log))\<rparr>"

text \<open>Whether the transport is open after the recorded calls; \<open>None\<close> after a call out of turn.\<close>

fun session_after :: "bool \<Rightarrow> transport_event list \<Rightarrow> bool option" where
  "session_after is_open [] = Some is_open"
| "session_after is_open (Ev_open st # evs) = (if is_open then None else session_after (st = PBNS_OK) evs)"
| "session_after is_open (Ev_close st # evs) = (if is_open then session_after False evs else None)"
| "session_after is_open (_ # evs) = (if is_open then session_after True evs else None)"

lemma session_after_append: "session_after s (xs @ ys) = Option.bind (session_after s xs) (\<lambda>t. session_after t ys)"
  by (induction s xs rule: session_after.induct) auto

lemma logged_ops [simp]:
  "the (t_open (the (logged T))) (e, log) = (case the (t_open (the T)) e of (st, e) \<Rightarrow> (st, e, log @ [Ev_open st]))"
  "the (t_close (the (logged T))) (e, log) = (case the (t_close (the T)) e of (st, e) \<Rightarrow> (st, e, log @ [Ev_close st]))"
  "the (t_send (the (logged T))) (e, log) v ms =
     (case the (t_send (the T)) e v ms of (st, e) \<Rightarrow> (st, e, log @ [Ev_send (v_bytes v) st]))"
  "the (t_receive (the (logged T))) (e, log) buf ms = (case the (t_receive (the T)) e buf ms of
     (st, bs, n, e) \<Rightarrow> (st, bs, n, e, log @ [Ev_receive (take n (filled (b_mem buf) bs)) st]))"
  "the (t_cancel (the (logged T))) (e, log) rid = (case the (t_cancel (the T)) e rid of (st, e) \<Rightarrow> (st, e, log @ [Ev_cancel rid]))"
  "the (t_limits (the (logged T))) (e, log) = (case the (t_limits (the T)) e of (st, lim, e) \<Rightarrow> (st, lim, e, log @ [Ev_limits]))"
  by (simp_all add: logged_def)

lemma logged_platform_ops [simp]:
  "the (p_random (the (logged_platform P))) (e, log) buf = (case the (p_random (the P)) e buf of (st, bs, e) \<Rightarrow> (st, bs, e, log))"
  "the (p_monotonic_ms (the (logged_platform P))) (e, log) = (case the (p_monotonic_ms (the P)) e of (st, now, e) \<Rightarrow> (st, now, e, log))"
  by (simp_all add: logged_platform_def)

text \<open>Both interpretations of the interface: any environment, and the recording one.\<close>

interpretation any_env: broker_env T P "\<lambda>_. True" "\<lambda>_. True" for T :: "'e pbns_transport" and P :: "'e pbns_broker_platform"
  by unfold_locales simp_all

interpretation log_env: broker_env "logged T" "logged_platform P" "\<lambda>(e, log). session_after False log = Some True"
  "\<lambda>(e, log). session_after False log = Some False" for T :: "'e pbns_transport" and P :: "'e pbns_broker_platform"
  by unfold_locales (auto simp: session_after_append split: prod.splits)

subsection \<open>Example environment\<close>

text \<open>A transport that refuses to open, an entropy source and a clock that stands still.\<close>

definition example_transport :: "unit pbns_transport" where
  "example_transport = Some
     \<lparr>t_open = Some (\<lambda>e. (PBNS_ERR_IO, e)), t_close = Some (\<lambda>e. (PBNS_OK, e)), t_send = Some (\<lambda>e v ms. (PBNS_OK, e)),
      t_receive = Some (\<lambda>e buf ms. (PBNS_ERR_TIMEOUT, [], 0, e)), t_cancel = Some (\<lambda>e rid. (PBNS_OK, e)),
      t_limits = Some (\<lambda>e. (PBNS_ERR_IO, \<lparr>control_payload_max = 0, data_payload_max = 0, encoded_record_max = 0\<rparr>, e))\<rparr>"

definition example_platform :: "unit pbns_broker_platform" where
  "example_platform = Some
     \<lparr>p_random = Some (\<lambda>e buf. (PBNS_OK, replicate 16 7, e)), p_monotonic_ms = Some (\<lambda>e. (PBNS_OK, 1000, e))\<rparr>"

definition example_storage :: pbns_broker_storage where
  "example_storage = \<lparr>encoded = \<lparr>b_ptr = 100, b_len = 0, b_mem = replicate 42 0\<rparr>,
     raw_scratch = \<lparr>b_ptr = 200, b_len = 0, b_mem = replicate 40 0\<rparr>,
     receive = \<lparr>b_ptr = 300, b_len = 0, b_mem = replicate 4 0\<rparr>,
     decoded = \<lparr>b_ptr = 400, b_len = 0, b_mem = replicate 4 0\<rparr>\<rparr>"

definition example_qcbor :: qcbor_decoder where
  "example_qcbor = \<lparr>QCBORDecode_GetNext = (\<lambda>_ _. None), QCBORDecode_Finish = (\<lambda>_ _. False)\<rparr>"

definition same_log :: "'e \<times> transport_event list \<Rightarrow> 'e \<times> transport_event list \<Rightarrow> bool" where
  "same_log = (\<lambda>(e, log) (e', log'). log' = log)"

lemma example_storage_valid: "storage_is_valid example_storage"
  by (simp add: storage_is_valid_def example_storage_def buffer_is_valid_def buffer_ranges_overlap_def ranges_overlap_def UINTPTR_MAX_def)

lemma example_reach:
  "\<exists>b. broker_reach example_qcbor (\<lambda>_ m. m) (logged example_transport) (logged_platform example_platform) example_storage
     same_log ((), []) b ((), [Ev_open PBNS_ERR_IO])"
proof -
  let ?T = "logged example_transport" and ?P = "logged_platform example_platform"
  obtain b where init: "pbns_broker_init (Some zero_broker) ?T ?P example_storage = (PBNS_OK, Some b)"
    using example_storage_valid
    by (simp add: pbns_broker_init_def Let_def logged_def logged_platform_def transport_is_valid_def platform_is_valid_def
        pbns_record_reader_init_def zero_broker_def zero_reader_def)
       (simp add: example_storage_def buffer_is_valid_def)
  have b: "initialized b" "\<not> active b" "\<not> opened b" "transport b = ?T" "platform b = ?P"
    using broker_init_wf [OF init] by (auto simp: broker_wf_def broker_static_def)
  have f: "transport (fresh_session b) = ?T" "platform (fresh_session b) = ?P"
    by (simp_all add: fresh_session_def wipe_request_storage_def set_encoded_def Let_def b)
  have "request_id_is_nonzero (replicate 16 1)"
    by (simp add: request_id_is_nonzero_def upt_rec)
  then have "\<exists>b' r'. broker_request example_qcbor (\<lambda>_ m. m) (Some b) PBNS_SERVICE_TRUSTED_TIME (Some (replicate 16 1)) null_view 5
      (Some zero_response) ((), []) = Some (PBNS_ERR_IO, Some b', r', ((), [Ev_open PBNS_ERR_IO]))"
    by (simp add: broker_request_def Let_def b f clear_response_def null_view_def view_is_valid_def service_is_valid_def
        request_id_for_def open_session_def begin_deadline_def example_platform_def example_transport_def)
  then obtain b' r' where "broker_request example_qcbor (\<lambda>_ m. m) (Some b) PBNS_SERVICE_TRUSTED_TIME (Some (replicate 16 1)) null_view 5
      (Some zero_response) ((), []) = Some (PBNS_ERR_IO, Some b', r', ((), [Ev_open PBNS_ERR_IO]))" by blast
  from broker_reach.request [OF broker_reach.init [OF init] _ this] show ?thesis by auto
qed

subsection \<open>Properties\<close>

text \<open>C1:
  The session invariant, in every state between an initialisation of the broker and its reset,
  reached by any sequence of the other calls over any transport and platform: the transport is
  open exactly while a session is active and has a deadline; the buffers keep their addresses
  and sizes and the reader's storage is the encoded buffer; the pending bytes lie in the receive
  buffer; an open session has a valid service and a stream bound to its service and request
  identifier, is not both a bulk transfer and an upload, and a bulk transfer that has not been
  marked failed has not received more than announced.  While no session is open, the encoded,
  scratch and receive buffers contain only zeros, provided they did when the broker was
  initialised.  The decoded buffer is not among them: after a request that succeeded it holds
  the response for the caller.
\<close>

theorem broker_session_invariant:
  assumes "broker_reach qc residue T P st0 idle e0 b e"
  shows "active b = opened b \<and> deadline_active b = opened b \<and> storage_shape (storage b) = storage_shape st0 \<and>
    b_mem (r_storage (reader b)) = b_mem (encoded (storage b)) \<and>
    receive_offset b \<le> receive_length b \<and> receive_length b \<le> b_cap (receive st0) \<and>
    (opened b \<longrightarrow> service_is_valid (service b) \<and> s_service (stream b) = service b \<and> s_request_id (stream b) = request_id b \<and>
       limits_are_valid (limits b) \<and> \<not> (bulk_mode b \<and> upload_mode b) \<and>
       (bulk_mode b \<and> \<not> bulk_failed b \<longrightarrow> bulk_received_data_size b \<le> bulk_exact_data_size b)) \<and>
    (\<not> opened b \<longrightarrow> \<not> bulk_mode b \<and> \<not> upload_mode b \<and> (storage_clean st0 \<longrightarrow> storage_clean (storage b)))"
proof -
  have "broker_wf (storage_shape st0) (storage_clean st0) b"
    using any_env.broker_reach_inv [OF assms] by (simp add: broker_inv_def)
  then show ?thesis
    by (auto simp: broker_wf_def broker_static_def session_wf_def idle_wf_def storage_shape_def)
qed

theorem broker_session_invariant_witness:
  "\<exists>b. broker_reach example_qcbor (\<lambda>_ m. m) (logged example_transport) (logged_platform example_platform) example_storage
     same_log ((), []) b ((), [Ev_open PBNS_ERR_IO]) \<and> active b = opened b"
  using example_reach broker_session_invariant by metis

text \<open>C2:
  Use of the transport.  Whatever the calls made on the broker, and whatever statuses the
  transport returns, the calls the broker makes on the transport are well bracketed: it opens
  the transport only while it is closed, and closes it, sends, receives, cancels and asks for
  limits only between a successful open and the matching close; the flag \<open>opened\<close> always tells
  whether a close is still owed.
\<close>

theorem broker_transport_discipline:
  assumes "broker_reach qc residue (logged T) (logged_platform P) st0 same_log (e0, []) b (e, log)"
  shows "session_after False log = Some (opened b)"
proof -
  have "broker_inv (logged T) (logged_platform P) (\<lambda>(e, log). session_after False log = Some True)
      (\<lambda>(e, log). session_after False log = Some False) (storage_shape st0) (storage_clean st0) b (e, log)"
    by (rule log_env.broker_reach_inv [OF assms]) (auto simp: same_log_def)
  then show ?thesis by (auto simp: broker_inv_def split: if_splits)
qed

theorem broker_transport_discipline_witness:
  "\<exists>b. session_after False [Ev_open PBNS_ERR_IO] = Some (opened b :: bool) \<and> \<not> opened (b :: (unit \<times> transport_event list) pbns_broker)"
proof -
  obtain b where "broker_reach example_qcbor (\<lambda>_ m. m) (logged example_transport) (logged_platform example_platform) example_storage
     same_log ((), []) b ((), [Ev_open PBNS_ERR_IO])" using example_reach by blast
  from broker_transport_discipline [OF this] show ?thesis by (intro exI [of _ b]) simp
qed

text \<open>C28:
  Reset.  Resetting a reachable broker closes a session that is still open, leaves the broker in
  its zero state and overwrites all four buffers of the caller with zeros.
\<close>

theorem broker_reset_wipes:
  assumes "broker_reach qc residue (logged T) (logged_platform P) st0 same_log (e0, []) b (e, log)"
    and "pbns_broker_reset (Some b) (e, log) = (b', st', (e', log'))"
  shows "b' = Some zero_broker \<and> session_after False log' = Some False \<and>
    (\<exists>st. st' = Some st \<and> storage_shape st = storage_shape st0 \<and> storage_clean st \<and> set (b_mem (decoded st)) \<subseteq> {0})"
proof -
  let ?inv = "broker_inv (logged T) (logged_platform P) (\<lambda>(e, log). session_after False log = Some True)
      (\<lambda>(e, log). session_after False log = Some False) (storage_shape st0) (storage_clean st0)"
  have inv: "?inv b (e, log)" by (rule log_env.broker_reach_inv [OF assms(1)]) (auto simp: same_log_def)
  then have b: "initialized b" "active b = opened b" by (auto simp: broker_inv_def broker_wf_def broker_static_def)
  have wipe: "storage_shape (storage (wipe_request_storage x False)) = storage_shape st0 \<and>
      storage_clean (storage (wipe_request_storage x False)) \<and> set (b_mem (decoded (storage (wipe_request_storage x False)))) \<subseteq> {0}"
    if "?inv x e1" for x e1
  proof -
    have "broker_static (storage_shape st0) x" using that by (simp add: broker_inv_def broker_wf_def)
    from wipe_request_storage_effect(1) [OF this, of False] wipe_request_storage_clean [of x False] show ?thesis
      by (auto simp: broker_static_def wipe_request_storage_def wipe_buffer_def set_encoded_def Let_def)
  qed
  show ?thesis
  proof (cases "active b")
    case False
    with assms(2) b inv wipe [OF inv] show ?thesis by (auto simp: pbns_broker_reset_def broker_inv_def)
  next
    case True
    obtain st1 x e1 where can: "pbns_broker_cancel (Some b) (e, log) = (st1, x, e1)" by (metis prod_cases3)
    obtain b1 where "x = Some b1" "?inv b1 e1" "\<not> opened b1" using log_env.cancel_inv [OF inv can] by blast
    with assms(2) True b can wipe show ?thesis by (auto simp: pbns_broker_reset_def broker_inv_def)
  qed
qed

theorem broker_reset_wipes_witness:
  "\<exists>b :: (unit \<times> transport_event list) pbns_broker. \<exists>b' st' e' log'.
     pbns_broker_reset (Some b) ((), [Ev_open PBNS_ERR_IO]) = (b', Some st', (e', log')) \<and> set (b_mem (decoded st')) \<subseteq> {0}"
proof -
  obtain b where r: "broker_reach example_qcbor (\<lambda>_ m. m) (logged example_transport) (logged_platform example_platform) example_storage
     same_log ((), []) b ((), [Ev_open PBNS_ERR_IO])" using example_reach by blast
  obtain b' st' e' log' where res: "pbns_broker_reset (Some b) ((), [Ev_open PBNS_ERR_IO]) = (b', st', (e', log'))" by (metis prod_cases4)
  from broker_reset_wipes [OF r res] res show ?thesis by blast
qed

end
