(* ===== verification/Broker_Exchange.thy ===== *)
theory Broker_Exchange
  imports Broker_Session
begin

text \<open>
  What the broker (\<open>src/core/broker.c\<close>) puts on the wire and what it takes from it.
\<close>

subsection \<open>Sending\<close>

lemma broker_encode_OK:
  assumes "broker_encode b f p = (PBNS_OK, b', w)" and "length (f_request_id f) = 16" and "broker_static sh b"
  shows "take w (b_mem (encoded (storage b'))) = cobs_stuff [] (frame_raw f (v_bytes p)) @ [0]"
    and "frame_ok PBNS_FRAME_V1_CONTROL_PAYLOAD_MAX PBNS_FRAME_V1_DATA_PAYLOAD_MAX f (v_bytes p)"
proof -
  let ?rs = "(raw_scratch (storage b))\<lparr>b_len := 0\<rparr>" and ?out = "(encoded (storage b))\<lparr>b_len := 0\<rparr>"
  obtain raw out n where enc: "pbns_frame_encode (Some f) p ?rs ?out (Some 0) = (PBNS_OK, raw, out, n)"
    and b': "b' = set_encoded (set_raw_scratch b raw) out" and w: "w = the n"
    using assms(1) by (auto simp: broker_encode_def split: prod.splits)
  note ok = pbns_frame_encode_OK_D [OF enc assms(2)]
  show "frame_ok PBNS_FRAME_V1_CONTROL_PAYLOAD_MAX PBNS_FRAME_V1_DATA_PAYLOAD_MAX f (v_bytes p)" by (rule ok(1))
  have "view_is_valid p" "buffer_is_valid ?rs" "buffer_is_valid ?out"
    using enc by (auto simp: pbns_frame_encode_def Let_def split: if_splits prod.splits)
  from pbns_frame_encode_ok [OF ok(1) this ok(2), of 0] enc
  show "take w (b_mem (encoded (storage b'))) = cobs_stuff [] (frame_raw f (v_bytes p)) @ [0]"
    by (auto simp: b' w set_encoded_def set_raw_scratch_def)
qed

lemma remaining_timeout_logged:
  assumes "remaining_timeout b ms (e, log) = (st, ms', (e', log'))" and "platform b = logged_platform P"
  shows "log' = log"
  using assms by (auto simp: remaining_timeout_def Let_def split: if_splits prod.splits)

lemma emit_frame_logged:
  assumes "emit_frame b f p (e, log) = (PBNS_OK, b', (e', log'))" and "length (f_request_id f) = 16" and "broker_static sh b"
    and "transport b = logged T" and "platform b = logged_platform P"
  shows "log' = log @ [Ev_send (cobs_stuff [] (frame_raw f (v_bytes p)) @ [0]) PBNS_OK]"
    and "frame_ok PBNS_FRAME_V1_CONTROL_PAYLOAD_MAX PBNS_FRAME_V1_DATA_PAYLOAD_MAX f (v_bytes p)"
proof -
  obtain st1 b1 w where enc: "broker_encode b f p = (st1, b1, w)" by (metis prod_cases3)
  then have b1: "b' = b1" "st1 = PBNS_OK" using assms(1) by (auto simp: emit_frame_def split: if_splits prod.splits)
  note ok = broker_encode_OK [OF enc [unfolded b1(2)] assms(2,3)]
  note eff = broker_encode_effect [OF enc assms(2,3)]
  then obtain s1 r1 where b1': "b1 = b\<lparr>storage := s1, reader := r1\<rparr>" by blast
  obtain st2 ms e2 log2 where rem: "remaining_timeout b1 (Some 0) (e, log) = (st2, ms, (e2, log2))" by (metis prod_cases4)
  have "log2 = log" by (rule remaining_timeout_logged [OF rem]) (simp add: b1' assms(5))
  with assms(1,4) ok(1) show "log' = log @ [Ev_send (cobs_stuff [] (frame_raw f (v_bytes p)) @ [0]) PBNS_OK]"
    using rem by (auto simp: emit_frame_def enc b1 broker_send_def b1' split: if_splits prod.splits)
  show "frame_ok PBNS_FRAME_V1_CONTROL_PAYLOAD_MAX PBNS_FRAME_V1_DATA_PAYLOAD_MAX f (v_bytes p)" by (rule ok(2))
qed

subsection \<open>Receiving\<close>

definition pending :: "'e pbns_broker \<Rightarrow> bytes" where
  "pending b = drop (receive_offset b) (take (receive_length b) (b_mem (receive (storage b))))"

lemma push_outcome:
  assumes push: "pbns_record_reader_push (Some r) input (Some a) (Some c) (Some d) = (st, r', n, rd, v)" and r: "reader_has r s"
  shows "st = PBNS_ERR_WOULD_BLOCK \<Longrightarrow> reader_has (the r') (s @ v_bytes input) \<and> the n = v_len input"
    and "st = PBNS_OK \<Longrightarrow> \<exists>rec. record_outcome (b_cap (r_storage r)) (s @ v_bytes input) = Record rec \<and> v_bytes (the v) = rec \<and>
      r_initialized (the r') \<and> the n + length s = length rec + 1"
proof -
  obtain st1 r1 n1 rd1 v1 where lp: "push_loop r (v_bytes input) 0 = (st1, r1, n1, rd1, v1)" by (metis prod_cases5)
  note out = push_loop_outcome [OF r lp]
  have len: "b_len (r_storage r) \<le> b_cap (r_storage r)" and init: "r_initialized r" using r by (auto simp: reader_has_def)
  have i1: "r_initialized r1" using push_loop_storage [OF lp len] init by simp
  show "st = PBNS_ERR_WOULD_BLOCK \<Longrightarrow> reader_has (the r') (s @ v_bytes input) \<and> the n = v_len input"
    using push out lp
    by (auto simp: pbns_record_reader_push_def Let_def record_outcome_def split: if_splits record_fate.splits)
  assume "st = PBNS_OK"
  then have "st1 = PBNS_OK" "r' = Some r1" "n = Some n1" "v = Some v1"
    using push lp by (auto simp: pbns_record_reader_push_def Let_def split: if_splits)
  with out i1 show "\<exists>rec. record_outcome (b_cap (r_storage r)) (s @ v_bytes input) = Record rec \<and> v_bytes (the v) = rec \<and>
      r_initialized (the r') \<and> the n + length s = length rec + 1"
    by (auto simp: record_outcome_def Let_def split: record_fate.splits if_splits)
qed

lemma record_outcome_Record:
  assumes "record_outcome cap xs = Record rec"
  shows "\<exists>rest. xs = rec @ 0 # rest \<and> 0 \<notin> set rec"
proof -
  have rec: "rec = takeWhile (\<lambda>b. b \<noteq> 0) xs" "rec \<noteq> xs"
    using assms by (auto simp: record_outcome_def Let_def split: if_splits)
  then have ne: "dropWhile (\<lambda>b. b \<noteq> 0) xs \<noteq> []" by (metis append_Nil2 takeWhile_dropWhile_id)
  then have "hd (dropWhile (\<lambda>b. b \<noteq> 0) xs) = 0" using hd_dropWhile by blast
  with ne obtain rest where "dropWhile (\<lambda>b. b \<noteq> 0) xs = 0 # rest" by (cases "dropWhile (\<lambda>b. b \<noteq> 0) xs") auto
  then have "xs = rec @ 0 # rest" using takeWhile_dropWhile_id [of "\<lambda>b. b \<noteq> 0" xs] rec(1) by metis
  moreover have "0 \<notin> set rec" using rec(1) by (auto dest: set_takeWhileD)
  ultimately show ?thesis by blast
qed

lemma receive_record_Again:
  assumes "receive_record b = (Again, b')" and "reader_has (reader b) s" and "receive_offset b \<le> receive_length b"
    and "receive_length b \<le> b_cap (receive (storage b))"
  shows "reader_has (reader b') (s @ pending b)" "pending b' = []"
proof -
  let ?in = "\<lparr>v_ptr = b_ptr (receive (storage b)) + receive_offset b, v_bytes = pending b\<rparr>"
  obtain st r n rd v where push: "pbns_record_reader_push (Some (reader b)) ?in (Some 0) (Some False) (Some null_view) = (st, r, n, rd, v)"
    by (metis prod_cases5)
  have "st = PBNS_ERR_WOULD_BLOCK" and b': "b' = (set_encoded b (b_mem (r_storage (the r))))\<lparr>reader := the r, receive_offset := receive_offset b + the n\<rparr>"
    using assms(1) push [unfolded pending_def] by (auto simp: receive_record_def Let_def split: if_splits prod.splits)
  with push_outcome(1) [OF push assms(2)] show "reader_has (reader b') (s @ pending b)" by simp
  have "the n = length (pending b)" using push_outcome(1) [OF push assms(2)] \<open>st = _\<close> by simp
  then show "pending b' = []" using assms(3,4) by (simp add: b' pending_def set_encoded_def)
qed

lemma receive_record_Got:
  assumes "receive_record b = (Got (f, p), b')" and "reader_has (reader b) s" and "broker_static sh b"
  shows "\<exists>rec. s @ pending b = rec @ 0 # pending b' \<and> 0 \<notin> set rec \<and> cobs_destuff rec = Some (frame_raw f (v_bytes p)) \<and>
      frame_ok (control_payload_max (limits b)) (data_payload_max (limits b)) f (v_bytes p)"
    and "reader_has (reader b') []" and "v_ptr p = b_ptr (raw_scratch (storage b)) + 36"
proof -
  let ?in = "\<lparr>v_ptr = b_ptr (receive (storage b)) + receive_offset b, v_bytes = pending b\<rparr>"
  obtain st r n rd v where push: "pbns_record_reader_push (Some (reader b)) ?in (Some 0) (Some False) (Some null_view) = (st, r, n, rd, v)"
    by (metis prod_cases5)
  define b1 where "b1 = (set_encoded b (b_mem (r_storage (the r))))\<lparr>reader := the r, receive_offset := receive_offset b + the n\<rparr>"
  obtain dst raw f' p' where dec: "pbns_frame_decode (the v) (limits b1) ((raw_scratch (storage b1))\<lparr>b_len := 0\<rparr>)
      (Some zero_frame) (Some null_view) = (dst, raw, f', p')" by (metis prod_cases4)
  have st: "st = PBNS_OK" and dst: "dst = PBNS_OK" and fp: "f = the f'" "p = the p'"
    and b': "b' = (set_raw_scratch b1 raw)\<lparr>reader := the (pbns_record_reader_reset (Some (reader b1)))\<rparr>"
    using assms(1) push [unfolded pending_def] dec unfolding receive_record_def Let_def b1_def [symmetric]
    by (auto simp: b1_def [symmetric] split: if_splits)
  obtain rec where rec: "record_outcome (b_cap (r_storage (reader b))) (s @ pending b) = Record rec" "v_bytes (the v) = rec" "r_initialized (the r)"
    "the n + length s = length rec + 1"
    using push_outcome(2) [OF push assms(2) st] by auto
  obtain rest where rest: "s @ pending b = rec @ 0 # rest" "0 \<notin> set rec" using record_outcome_Record [OF rec(1)] by blast
  have "rest = drop (length rec + 1) (s @ pending b)" by (simp add: rest)
  also have "\<dots> = drop (the n) (pending b)" unfolding rec(4) [symmetric] by simp
  also have "\<dots> = pending b'"
    by (simp add: b' b1_def set_raw_scratch_def set_encoded_def pending_def add.commute)
  finally have rest': "rest = pending b'" .
  have lim: "limits b1 = limits b" "b_ptr (raw_scratch (storage b1)) = b_ptr (raw_scratch (storage b))" by (simp_all add: b1_def set_encoded_def)
  obtain f1 p1 where d: "f' = Some f1" "p' = Some p1" "cobs_destuff (v_bytes (the v)) = Some (frame_raw f1 (v_bytes p1))"
    "v_ptr p1 = b_ptr ((raw_scratch (storage b1))\<lparr>b_len := 0\<rparr>) + 36"
    "frame_ok (control_payload_max (limits b1)) (data_payload_max (limits b1)) f1 (v_bytes p1)"
    by (rule pbns_frame_decode_OK_D [OF dec [unfolded dst]])
  with rest rest' rec(2) lim fp
  show "\<exists>rec. s @ pending b = rec @ 0 # pending b' \<and> 0 \<notin> set rec \<and> cobs_destuff rec = Some (frame_raw f (v_bytes p)) \<and>
      frame_ok (control_payload_max (limits b)) (data_payload_max (limits b)) f (v_bytes p)"
    "v_ptr p = b_ptr (raw_scratch (storage b)) + 36" by auto
  show "reader_has (reader b') []" using rec(3) by (simp add: b' b1_def pbns_record_reader_reset_def reader_has_def)
qed

text \<open>
  The state of a receive loop: since it started in \<open>b0\<close>, with \<open>carried\<close> bytes pending, the
  transport has delivered the chunks of \<open>rs\<close>, and everything received is what the reader holds
  followed by what is still pending.
\<close>

definition recv_log :: "(bytes \<times> pbns_status) list \<Rightarrow> transport_event list" where
  "recv_log rs = map (\<lambda>(bs, st). Ev_receive bs st) rs"

definition wire_inv ::
  "(nat \<times> nat) list \<Rightarrow> 'e pbns_transport \<Rightarrow> 'e pbns_broker_platform \<Rightarrow> ('e \<times> transport_event list) pbns_broker \<Rightarrow>
   transport_event list \<Rightarrow> bytes \<Rightarrow> ('e \<times> transport_event list) pbns_broker \<Rightarrow> 'e \<Rightarrow> transport_event list \<Rightarrow> bool" where
  "wire_inv sh T P b0 log0 carried b e log \<longleftrightarrow>
     broker_static sh b \<and> transport b = logged T \<and> platform b = logged_platform P \<and>
     receive_offset b \<le> receive_length b \<and> receive_length b \<le> b_cap (receive (storage b)) \<and>
     (\<exists>st r n m. b = b0\<lparr>storage := st, reader := r, receive_offset := n, receive_length := m\<rparr>) \<and>
     (\<exists>rs s. log = log0 @ recv_log rs \<and> reader_has (reader b) s \<and> carried @ concat (map fst rs) = s @ pending b)"

lemma wire_invI:
  assumes "broker_static sh b" "transport b = logged T" "platform b = logged_platform P" "receive_offset b \<le> receive_length b"
    "receive_length b \<le> b_cap (receive (storage b))" "b = b0\<lparr>storage := st, reader := r, receive_offset := n, receive_length := m\<rparr>"
    "log = log0 @ recv_log rs" "reader_has (reader b) s" "carried @ concat (map fst rs) = s @ pending b"
  shows "wire_inv sh T P b0 log0 carried b e log"
  unfolding wire_inv_def using assms by blast

lemma wire_invE:
  assumes "wire_inv sh T P b0 log0 carried b e log"
  obtains st r n m rs s where "broker_static sh b" "transport b = logged T" "platform b = logged_platform P"
    "receive_offset b \<le> receive_length b" "receive_length b \<le> b_cap (receive (storage b))"
    "b = b0\<lparr>storage := st, reader := r, receive_offset := n, receive_length := m\<rparr>"
    "log = log0 @ recv_log rs" "reader_has (reader b) s" "carried @ concat (map fst rs) = s @ pending b"
  using assms unfolding wire_inv_def by blast

lemma wire_inv_start:
  assumes "broker_static sh b" and "transport b = logged T" and "platform b = logged_platform P"
    and "receive_offset b \<le> receive_length b" and "receive_length b \<le> b_cap (receive (storage b))" and "reader_has (reader b) []"
  shows "wire_inv sh T P b log (pending b) b e log"
  by (rule wire_invI [where st = "storage b" and r = "reader b" and n = "receive_offset b" and m = "receive_length b" and rs = "[]" and s = "[]"])
    (use assms in \<open>simp_all add: recv_log_def\<close>)

lemma receive_fill_wire:
  assumes inv: "wire_inv sh T P b0 log0 carried b e log" and fill: "receive_fill b (e, log) = (res, b', (e', log'))"
    and res: "res = Again \<or> res = Got ()"
  shows "wire_inv sh T P b0 log0 carried b' e' log'"
proof (cases "receive_offset b \<ge> receive_length b")
  case False
  with assms show ?thesis by (auto simp: receive_fill_def)
next
  case True
  from inv obtain st r n0 m0 rs s where w: "broker_static sh b" "transport b = logged T" "platform b = logged_platform P"
    "b = b0\<lparr>storage := st, reader := r, receive_offset := n0, receive_length := m0\<rparr>"
    "log = log0 @ recv_log rs" "reader_has (reader b) s" "carried @ concat (map fst rs) = s @ pending b"
    by (elim wire_invE)
  have pend: "pending b = []" using True by (simp add: pending_def)
  let ?b = "b\<lparr>receive_offset := 0, receive_length := 0\<rparr>"
  obtain st1 ms e1 log1 where rem: "remaining_timeout ?b (Some 0) (e, log) = (st1, ms, (e1, log1))" by (metis prod_cases4)
  have log1: "log1 = log" by (rule remaining_timeout_logged [OF rem]) (simp add: w(3))
  obtain st2 bs n e2 where rcv: "the (t_receive (the T)) e1 ((receive (storage b))\<lparr>b_len := 0\<rparr>) (the ms) = (st2, bs, n, e2)"
    by (metis prod_cases4)
  define mem where "mem = filled (b_mem (receive (storage b))) bs"
  have len: "length mem = b_cap (receive (storage b))" by (simp add: mem_def)
  define k where "k = (if res = Again then 0 else n)"
  define b1 where "b1 = (set_receive ?b mem)\<lparr>receive_length := k\<rparr>"
  have eq: "b' = b1" "log' = log @ recv_log [(take n mem, st2)]" "res = Again \<longrightarrow> n = 0" "n \<le> b_cap (receive (storage b))"
    using fill res True w(2) rem log1 rcv
    by (auto simp: receive_fill_def Let_def b1_def k_def mem_def set_receive_def recv_log_def split: if_splits)
  have k: "k \<le> b_cap (receive (storage b))" "take k mem = take n mem" using eq(3,4) by (auto simp: k_def)
  show ?thesis unfolding eq(1)
  proof (rule wire_invI [where rs = "rs @ [(take n mem, st2)]" and s = s])
    show "broker_static sh b1" using w(1) len by (auto simp: b1_def set_receive_def broker_static_def storage_shape_def)
    show "b1 = b0\<lparr>storage := storage b1, reader := r, receive_offset := 0, receive_length := k\<rparr>"
      unfolding b1_def set_receive_def by (simp add: w(4))
    show "log' = log0 @ recv_log (rs @ [(take n mem, st2)])" using eq(2) w(5) by (simp add: recv_log_def)
    show "carried @ concat (map fst (rs @ [(take n mem, st2)])) = s @ pending b1"
      using w(7) pend k(2) by (simp add: b1_def set_receive_def pending_def)
    show "reader_has (reader b1) s" "transport b1 = logged T" "platform b1 = logged_platform P"
      "receive_offset b1 \<le> receive_length b1" "receive_length b1 \<le> b_cap (receive (storage b1))"
      using w k len by (simp_all add: b1_def set_receive_def)
  qed
qed

lemma receive_record_wire:
  assumes inv: "wire_inv sh T P b0 log0 carried b e log" and rec: "receive_record b = (Again, b')"
  shows "wire_inv sh T P b0 log0 carried b' e log"
proof -
  from inv obtain st r n0 m0 rs s where w: "broker_static sh b" "transport b = logged T" "platform b = logged_platform P"
    "receive_offset b \<le> receive_length b" "receive_length b \<le> b_cap (receive (storage b))"
    "b = b0\<lparr>storage := st, reader := r, receive_offset := n0, receive_length := m0\<rparr>"
    "log = log0 @ recv_log rs" "reader_has (reader b) s" "carried @ concat (map fst rs) = s @ pending b"
    by (elim wire_invE)
  note eff = receive_record_effect [OF rec w(1,4)] and ag = receive_record_Again [OF rec w(8,4,5)]
  then obtain s1 r1 o1 where b': "b' = b\<lparr>storage := s1, reader := r1, receive_offset := o1\<rparr>" by blast
  have cap: "b_cap (receive (storage b')) = b_cap (receive (storage b))"
    using eff w(1) by (auto simp: broker_static_def storage_shape_def)
  show ?thesis
  proof (rule wire_invI [where rs = rs and s = "s @ pending b"])
    show "b' = b0\<lparr>storage := s1, reader := r1, receive_offset := o1, receive_length := m0\<rparr>" unfolding b' w(6) by simp
    show "receive_length b' \<le> b_cap (receive (storage b'))" using w(5) unfolding cap by (simp add: b')
    show "broker_static sh b'" "reader_has (reader b') (s @ pending b)" "log = log0 @ recv_log rs"
      "carried @ concat (map fst rs) = (s @ pending b) @ pending b'" "receive_offset b' \<le> receive_length b'"
      "transport b' = logged T" "platform b' = logged_platform P"
      using eff ag w by (simp_all add: b')
  qed
qed

text \<open>A record of the stream that the loop took from the wire and decoded.\<close>

definition arrived ::
  "('e \<times> transport_event list) pbns_broker \<Rightarrow> transport_event list \<Rightarrow> bytes \<Rightarrow> transport_event list \<Rightarrow> pbns_frame \<Rightarrow> bytes \<Rightarrow> bytes \<Rightarrow> bool" where
  "arrived b0 log0 carried log f payload rest \<longleftrightarrow>
     (\<exists>rs rec. log = log0 @ recv_log rs \<and> carried @ concat (map fst rs) = rec @ 0 # rest \<and> 0 \<notin> set rec \<and>
        cobs_destuff rec = Some (frame_raw f payload) \<and>
        frame_ok (control_payload_max (limits b0)) (data_payload_max (limits b0)) f payload)"

lemma receive_record_arrived:
  assumes inv: "wire_inv sh T P b0 log0 carried b e log" and rec: "receive_record b = (Got (f, p), b')"
  shows "arrived b0 log0 carried log f (v_bytes p) (pending b')" "reader_has (reader b') []" "v_ptr p \<noteq> 0"
    "broker_static sh b'" "\<exists>st r n m. b' = b0\<lparr>storage := st, reader := r, receive_offset := n, receive_length := m\<rparr>"
    "receive_offset b' \<le> receive_length b'" "receive_length b' \<le> b_cap (receive (storage b'))"
proof -
  from inv obtain st r n0 m0 rs s where w: "broker_static sh b" "transport b = logged T" "platform b = logged_platform P"
    "receive_offset b \<le> receive_length b" "receive_length b \<le> b_cap (receive (storage b))"
    "b = b0\<lparr>storage := st, reader := r, receive_offset := n0, receive_length := m0\<rparr>"
    "log = log0 @ recv_log rs" "reader_has (reader b) s" "carried @ concat (map fst rs) = s @ pending b"
    by (elim wire_invE)
  note eff = receive_record_effect [OF rec w(1,4)] and got = receive_record_Got [OF rec w(8,1)]
  then obtain s1 r1 o1 where b': "b' = b\<lparr>storage := s1, reader := r1, receive_offset := o1\<rparr>" by blast
  have lim: "limits b = limits b0" by (simp add: w(6))
  from got(1) w(7,9) show "arrived b0 log0 carried log f (v_bytes p) (pending b')"
    unfolding arrived_def lim by metis
  have cap: "b_cap (receive (storage b')) = b_cap (receive (storage b))"
    using eff w(1) by (auto simp: broker_static_def storage_shape_def)
  show "receive_length b' \<le> b_cap (receive (storage b'))" using w(5) unfolding cap by (simp add: b')
  show "\<exists>st r n m. b' = b0\<lparr>storage := st, reader := r, receive_offset := n, receive_length := m\<rparr>"
    unfolding b' w(6) by (intro exI [of _ s1] exI [of _ r1] exI [of _ o1] exI [of _ m0]) simp
  show "reader_has (reader b') []" "v_ptr p \<noteq> 0" "broker_static sh b'" "receive_offset b' \<le> receive_length b'"
    using got eff by (simp_all add: b')
qed

lemma error_fields_not_OK: "error_fields qc payload svc \<noteq> Inl PBNS_OK"
  by (auto simp: error_fields_def split: option.splits if_splits qcbor_value.splits)

lemma error_fields_code:
  assumes "error_fields qc payload svc = Inr (code, s, detail)"
  shows "1 \<le> unat code \<and> unat code \<le> 22 \<and> s = of_nat (service_code svc) \<and> utf8_is_valid \<lparr>v_ptr = 1, v_bytes = detail\<rparr> \<and>
    length detail \<le> PBNS_ERROR_DETAIL_MAX"
proof -
  have "\<not> code < 1" "\<not> code > 22" "s = of_nat (service_code svc)" "utf8_is_valid \<lparr>v_ptr = 1, v_bytes = detail\<rparr>"
    "\<not> length detail > PBNS_ERROR_DETAIL_MAX"
    using assms by (auto simp: error_fields_def split: option.splits if_splits qcbor_value.splits)
  then show ?thesis by (simp add: word_less_nat_alt not_less)
qed

lemma status_table_error:
  assumes "1 \<le> n" and "n \<le> 22"
  shows "pbns_status_table ! n \<noteq> PBNS_OK"
proof -
  have "n \<in> set [1..<23]" using assms by simp
  moreover have "list_all (\<lambda>n. pbns_status_table ! n \<noteq> PBNS_OK) [1..<23]" by (simp add: pbns_status_table_def upt_rec)
  ultimately show ?thesis unfolding list_all_iff by blast
qed

lemma decode_remote_error_not_OK: "fst (decode_remote_error qc residue b p svc) \<noteq> PBNS_OK"
  using error_fields_not_OK [of qc "v_bytes p" svc] error_fields_code [of qc "v_bytes p" svc] status_table_error
  by (auto simp: decode_remote_error_def Let_def split: sum.splits prod.splits if_splits)

lemma receive_fill_not_OK: "fst (receive_fill b e) \<noteq> Failed PBNS_OK"
  by (auto simp: receive_fill_def Let_def split: prod.splits)

lemma receive_record_not_OK: "fst (receive_record b) \<noteq> Failed PBNS_OK"
  by (auto simp: receive_record_def Let_def split: prod.splits)

lemma stream_accept_ptr:
  assumes "v_ptr v \<noteq> 0"
  shows "pbns_stream_accept s f v = pbns_stream_accept s f \<lparr>v_ptr = 1, v_bytes = v_bytes v\<rparr>"
proof -
  have vp: "validate_payload t v = validate_payload t \<lparr>v_ptr = 1, v_bytes = v_bytes v\<rparr>" for t by (cases t) simp_all
  have "view_is_valid v" "view_is_valid \<lparr>v_ptr = 1, v_bytes = v_bytes v\<rparr>" using assms by (simp_all add: view_is_valid_def)
  then show ?thesis by (simp only: pbns_stream_accept_def vp pbns_view.select_convs)
qed

lemma store_response_OK:
  assumes "store_response b f v = (PBNS_OK, b', r)"
  shows "r = \<lparr>resp_frame = f, resp_payload = \<lparr>v_ptr = b_ptr (decoded (storage b')), v_bytes = v_bytes v\<rparr>\<rparr> \<and>
     take (v_len v) (b_mem (decoded (storage b'))) = v_bytes v \<and> b_len (decoded (storage b')) = v_len v \<and>
     v_len v \<le> b_cap (decoded (storage b'))"
  using assms by (auto simp: store_response_def Let_def set_decoded_def store_at_def split: if_splits)

text \<open>The loop body once a record has been decoded.\<close>

lemma receive_body_Got:
  assumes "receive_fill b e = (Got (), b1, e1)" and "receive_record b1 = (Got (f, v), b2)"
    and "receive_body qc residue (b, e) = Inr (PBNS_OK, b', r, e')"
  shows "e' = e1 \<and> f_type f = PBNS_MESSAGE_RESPONSE \<and>
    (\<exists>s. pbns_stream_accept (Some (stream b2)) (Some f) v = (PBNS_OK, s) \<and> store_response (b2\<lparr>stream := the s\<rparr>) f v = (PBNS_OK, b', r))"
proof -
  obtain st3 s where acc: "pbns_stream_accept (Some (stream b2)) (Some f) v = (st3, s)" by (metis surj_pair)
  define b3 where "b3 = b2\<lparr>stream := the s\<rparr>"
  obtain st4 b4 r4 where sr: "store_response b3 f v = (st4, b4, r4)" by (metis prod_cases3)
  obtain st5 b5 where dre: "decode_remote_error qc residue b3 v (service b3) = (st5, b5)" by (metis surj_pair)
  have "st5 \<noteq> PBNS_OK" using decode_remote_error_not_OK [of qc residue b3 v "service b3"] dre by simp
  with assms(3) have "st3 = PBNS_OK \<and> f_type f = PBNS_MESSAGE_RESPONSE \<and> st4 = PBNS_OK \<and> b4 = b' \<and> r4 = r \<and> e' = e1"
    unfolding receive_body_def prod.case assms(1,2) attempt.case acc Let_def b3_def [symmetric] dre sr
    by (simp split: if_splits)
  with acc sr show ?thesis by (auto simp: b3_def)
qed

lemma receive_body_wire:
  assumes inv: "wire_inv sh T P b0 log0 carried b e log"
  shows "receive_body qc residue (b, (e, log)) = Inl (b', (e', log')) \<Longrightarrow> wire_inv sh T P b0 log0 carried b' e' log'"
    and "receive_body qc residue (b, (e, log)) = Inr (PBNS_OK, b', r, (e', log')) \<Longrightarrow>
      \<exists>f p s rest. arrived b0 log0 carried log' f p rest \<and> f_type f = PBNS_MESSAGE_RESPONSE \<and>
        pbns_stream_accept (Some (stream b0)) (Some f) \<lparr>v_ptr = 1, v_bytes = p\<rparr> = (PBNS_OK, s) \<and>
        r = \<lparr>resp_frame = f, resp_payload = \<lparr>v_ptr = b_ptr (decoded (storage b')), v_bytes = p\<rparr>\<rparr> \<and>
        take (length p) (b_mem (decoded (storage b'))) = p \<and> b_len (decoded (storage b')) = length p \<and> length p \<le> b_cap (decoded (storage b'))"
proof -
  obtain res b1 e1 log1 where fill: "receive_fill b (e, log) = (res, b1, (e1, log1))" by (metis prod_cases4)
  obtain res2 b2 where rec: "receive_record b1 = (res2, b2)" by (metis surj_pair)
  note w1 = receive_fill_wire [OF inv fill]
  show "receive_body qc residue (b, (e, log)) = Inl (b', (e', log')) \<Longrightarrow> wire_inv sh T P b0 log0 carried b' e' log'"
    using w1 receive_record_wire [OF w1] rec
    by (auto simp: receive_body_def fill Let_def split: attempt.splits prod.splits if_splits)
  assume ok: "receive_body qc residue (b, (e, log)) = Inr (PBNS_OK, b', r, (e', log'))"
  have got1: "res = Got ()" using ok receive_fill_not_OK [of b "(e, log)"]
    by (cases res) (auto simp: receive_body_def fill)
  have "\<exists>x. res2 = Got x" using ok receive_record_not_OK [of b1]
    by (cases res2) (auto simp: receive_body_def fill got1 rec)
  then obtain f v where got2: "res2 = Got (f, v)" by fastforce
  note a = receive_record_arrived [OF w1 [OF disjI2 [OF got1]] rec [unfolded got2]]
  have b2: "stream b2 = stream b0" using a(5) by auto
  from receive_body_Got [OF fill [unfolded got1] rec [unfolded got2] ok] obtain s where
    r: "log' = log1" "f_type f = PBNS_MESSAGE_RESPONSE" "pbns_stream_accept (Some (stream b0)) (Some f) v = (PBNS_OK, s)"
      "store_response (b2\<lparr>stream := the s\<rparr>) f v = (PBNS_OK, b', r)" unfolding b2 by auto
  from a(1) r(2) r(3) [unfolded stream_accept_ptr [OF a(3)]] store_response_OK [OF r(4)]
  show "\<exists>f p s rest. arrived b0 log0 carried log' f p rest \<and> f_type f = PBNS_MESSAGE_RESPONSE \<and>
        pbns_stream_accept (Some (stream b0)) (Some f) \<lparr>v_ptr = 1, v_bytes = p\<rparr> = (PBNS_OK, s) \<and>
        r = \<lparr>resp_frame = f, resp_payload = \<lparr>v_ptr = b_ptr (decoded (storage b')), v_bytes = p\<rparr>\<rparr> \<and>
        take (length p) (b_mem (decoded (storage b'))) = p \<and> b_len (decoded (storage b')) = length p \<and> length p \<le> b_cap (decoded (storage b'))"
    unfolding r(1) by blast
qed

text \<open>What a successful receive has found on the wire.\<close>

definition response_from ::
  "('e \<times> transport_event list) pbns_broker \<Rightarrow> transport_event list \<Rightarrow> bytes \<Rightarrow> transport_event list \<Rightarrow> ('e \<times> transport_event list) pbns_broker \<Rightarrow>
   pbns_broker_response \<Rightarrow> bool" where
  "response_from b0 log0 carried log b r \<longleftrightarrow>
     (\<exists>f p s rest. arrived b0 log0 carried log f p rest \<and> f_type f = PBNS_MESSAGE_RESPONSE \<and>
        pbns_stream_accept (Some (stream b0)) (Some f) \<lparr>v_ptr = 1, v_bytes = p\<rparr> = (PBNS_OK, s) \<and>
        r = \<lparr>resp_frame = f, resp_payload = \<lparr>v_ptr = b_ptr (decoded (storage b)), v_bytes = p\<rparr>\<rparr> \<and>
        take (length p) (b_mem (decoded (storage b))) = p \<and> b_len (decoded (storage b)) = length p \<and> length p \<le> b_cap (decoded (storage b)))"

lemma receive_loop_wire:
  assumes lp: "loop (receive_body qc residue) (b0, (e0, log0)) = Some (PBNS_OK, b', r, (e', log'))"
    and inv: "wire_inv sh T P b0 log0 carried b0 e0 log0"
  shows "response_from b0 log0 carried log' b' r"
proof -
  let ?Q = "\<lambda>(b, (e, log)). wire_inv sh T P b0 log0 carried b e log"
  have "(\<lambda>(st, b', r, (e', log')). st = PBNS_OK \<longrightarrow> response_from b0 log0 carried log' b' r) (PBNS_OK, b', r, (e', log'))"
  proof (rule loop_partial [OF lp, of ?Q])
    show "?Q (b0, (e0, log0))" using inv by simp
  next
    fix x y assume "?Q x" and "receive_body qc residue x = Inl y"
    then show "?Q y" using receive_body_wire(1) by (cases x; cases y) fastforce
  next
    fix x y assume "?Q x" and "receive_body qc residue x = Inr y"
    then show "(\<lambda>(st, b', r, (e', log')). st = PBNS_OK \<longrightarrow> response_from b0 log0 carried log' b' r) y"
      using receive_body_wire(2) unfolding response_from_def by (cases x; cases y) fastforce
  qed
  then show ?thesis by simp
qed

subsection \<open>Opening and closing\<close>

lemma open_session_logged:
  assumes "open_session undo b rid ms (e, log) = Inr (PBNS_OK, b', (e', log'))" and "transport b = logged T" and "platform b = logged_platform P"
  shows "log' = log @ [Ev_open PBNS_OK, Ev_limits]"
  using assms
  by (auto simp: open_session_def begin_deadline_def query_effective_limits_def Let_def split: prod.splits if_splits)

lemma request_id_for_logged:
  assumes "request_id_for b rid (e, log) = (PBNS_OK, i, (e', log'))" and "platform b = logged_platform P"
    and "\<And>x. rid = Some x \<Longrightarrow> length x = PBNS_REQUEST_ID_SIZE"
  shows "log' = log \<and> length i = PBNS_REQUEST_ID_SIZE \<and> (case rid of None \<Rightarrow> request_id_is_nonzero i | Some x \<Rightarrow> i = x)"
  using assms by (auto simp: request_id_for_def Let_def zero_request_id_def split: prod.splits if_splits option.splits)

lemma wipe_keeps_decoded: "decoded (storage (wipe_request_storage b True)) = decoded (storage b)"
  by (simp add: wipe_request_storage_def Let_def set_encoded_def)

lemma finish_session_logged:
  assumes "finish_session b pd (e, log) = (st, b', (e', log'))" and "transport b = logged T" and "opened b"
  shows "log' = log @ [Ev_close st]" and "pd \<Longrightarrow> decoded (storage b') = decoded (storage b)"
proof -
  obtain c e1 where "the (t_close (the T)) e = (c, e1)" by fastforce
  with assms show "log' = log @ [Ev_close st]" and "pd \<Longrightarrow> decoded (storage b') = decoded (storage b)"
    by (simp_all add: finish_session_def Let_def) (auto simp: wipe_keeps_decoded)
qed

definition view_clear :: "(nat \<times> nat) list \<Rightarrow> pbns_view \<Rightarrow> bool" where
  "view_clear sh v \<longleftrightarrow> list_all (\<lambda>(p, n). \<not> ranges_overlap (v_ptr v) (v_len v) p n) sh"

lemma view_reload_clear:
  assumes "view_clear (storage_shape st) v"
  shows "view_reload st v = v"
proof -
  have "buffer_at b (v_ptr v + i) = None"
    if "b \<in> {encoded st, raw_scratch st, receive st, decoded st}" "i < v_len v" for b i
  proof -
    have "\<not> ranges_overlap (v_ptr v) (v_len v) (b_ptr b) (b_cap b)"
      using assms that by (auto simp: view_clear_def storage_shape_def)
    from ranges_overlap_disjoint [OF this] have "v_ptr v + i \<notin> {b_ptr b..<b_ptr b + b_cap b}" using that(2) by force
    then show ?thesis by (simp add: buffer_at_def)
  qed
  then have "map (\<lambda>i. case List.map_filter (\<lambda>b. buffer_at b (v_ptr v + i)) [encoded st, raw_scratch st, receive st, decoded st] of
       [] \<Rightarrow> v_bytes v ! i | x # _ \<Rightarrow> x) [0..<v_len v] = map (\<lambda>i. v_bytes v ! i) [0..<v_len v]"
    by (intro map_cong) (simp_all add: List.map_filter_def)
  then show ?thesis by (simp add: view_reload_def map_nth)
qed

text \<open>The session that a request has made active, ready for the response.\<close>

definition request_active :: "'e pbns_broker \<Rightarrow> pbns_service_id \<Rightarrow> 'e pbns_broker" where
  "request_active b svc = b\<lparr>service := svc, active := True,
     stream := the (pbns_stream_init (Some (stream b)) svc (request_id b) (of_nat (control_payload_max (limits b)))),
     reader := the (pbns_record_reader_reset (Some (reader b)))\<rparr>"

lemma request_active_inv:
  assumes "session_opening sh rid b" and "length rid = 16" and "service_is_valid svc" and "limits_are_valid (limits b)"
  shows "broker_inv (transport b) (platform b) (\<lambda>_. True) (\<lambda>_. True) sh False (request_active b svc) e"
    "broker_static sh (request_active b svc)" "reader_has (reader (request_active b svc)) []"
    "receive_offset (request_active b svc) = 0" "receive_length (request_active b svc) = 0"
proof -
  show s: "broker_static sh (request_active b svc)"
    using assms(1) by (auto simp: request_active_def session_opening_def broker_static_def pbns_record_reader_reset_def)
  then show "broker_inv (transport b) (platform b) (\<lambda>_. True) (\<lambda>_. True) sh False (request_active b svc) e"
    "receive_offset (request_active b svc) = 0" "receive_length (request_active b svc) = 0"
    using assms by (simp_all add: request_active_def broker_inv_def broker_wf_def session_wf_def session_opening_def idle_wf_def pbns_stream_init_def)
  show "reader_has (reader (request_active b svc)) []"
    using assms(1) by (simp add: request_active_def session_opening_def broker_static_def pbns_record_reader_reset_def reader_has_def)
qed

lemma request_opened_exchange:
  assumes res: "request_opened qc residue b st svc body (Some r0) (e, log) = Some (PBNS_OK, b', r', (e', log'))"
    and op: "session_opening sh rid b" "transport b = logged T" "platform b = logged_platform P" "length rid = 16" "limits_are_valid (limits b)"
    and clear: "view_clear sh body"
  shows "\<exists>b1 r log1. r' = Some r \<and> st = PBNS_OK \<and>
    log' = log1 @ [Ev_close PBNS_OK] \<and> stream b1 = the (pbns_stream_init (Some (stream b)) svc rid (of_nat (control_payload_max (limits b)))) \<and>
    limits b1 = limits b \<and> pending b1 = [] \<and>
    response_from b1 (log @ [Ev_send (cobs_stuff [] (frame_raw \<lparr>f_service = svc, f_type = PBNS_MESSAGE_REQUEST, f_flags = 0,
      f_request_id = rid, f_sequence = 0\<rparr> (v_bytes body)) @ [0]) PBNS_OK]) [] log1 b' r"
proof -
  let ?f = "\<lparr>f_service = svc, f_type = PBNS_MESSAGE_REQUEST, f_flags = 0, f_request_id = rid, f_sequence = 0\<rparr>"
  have o: "broker_static sh b" "opened b" "request_id b = rid" "idle_wf False b" using op(1) by (simp_all add: session_opening_def)
  have "storage_shape (storage b) = sh" using o(1) by (simp add: broker_static_def)
  then have body: "view_reload (storage b) body = body" using view_reload_clear clear by metis
  obtain st1 b1 e1 log1 where emit: "emit_frame b ?f body (e, log) = (st1, b1, (e1, log1))" by (metis prod_cases4)
  define b3 where "b3 = request_active b1 svc"
  have drop: "\<not> (case drop_session s x y of (status, b, e) \<Rightarrow> Some (status, b, Some r0, e)) = Some (PBNS_OK, b', r', (e', log'))" if "s \<noteq> PBNS_OK" for s x y
    using that by (auto simp: drop_session_def split: prod.splits)
  obtain st4 x r4 e4 log4 where st: "st = PBNS_OK" "st1 = PBNS_OK" "service_is_valid svc"
    and rcv: "pbns_broker_receive qc residue (Some b3) (Some r0) (e1, log1) = Some (st4, x, r4, (e4, log4))"
    and fin: "request_finish (the x) st4 r4 (e4, log4) = (PBNS_OK, b', r', (e', log'))"
    using res drop [of PBNS_ERR_STATE] drop [of PBNS_ERR_LIMIT] drop [of st] drop [of st1]
    unfolding request_opened_def Let_def o(3) body emit prod.case b3_def request_active_def
    by (auto simp: pbns_stream_init_def zero_stream_def split: if_splits option.splits)
  have st4: "st4 = PBNS_OK" using fin by (auto simp: request_finish_def Let_def split: if_splits prod.splits)
  have id: "length (f_request_id ?f) = 16" using op(4) by simp
  note sent = emit_frame_logged [OF emit [unfolded st(2)] id o(1) op(2,3)]
  note true_env = any_env.emit_opening [OF emit op(1,4) _ op(2,3) TrueI]
  then have b1: "session_opening sh rid b1" "limits b1 = limits b" "stream b1 = stream b" "transport b1 = logged T" "platform b1 = logged_platform P"
    by simp_all
  from rcv st4 obtain b4 r5 where lp: "loop (receive_body qc residue) (b3, (e1, log1)) = Some (PBNS_OK, b4, r5, (e4, log4))"
    and x: "x = Some b4" "r4 = Some r5"
    by (auto simp: pbns_broker_receive_def Let_def clear_response_def split: if_splits)
  note act = request_active_inv [OF b1(1) op(4) st(3), folded b3_def, unfolded b1(2,4,5), OF op(5)]
  have p3: "pending b3 = []" using act by (simp add: pending_def)
  have "wire_inv sh T P b3 log1 (pending b3) b3 e1 log1"
    by (rule wire_inv_start) (use act b1 in \<open>simp_all add: b3_def request_active_def\<close>)
  from receive_loop_wire [OF lp this] p3 have rf: "response_from b3 log1 [] log4 b4 r5" by simp
  from any_env.receive_inv [OF act(1) rcv] b1(1) have b4: "opened b4" "transport b4 = logged T"
    by (simp_all add: x b3_def request_active_def broker_inv_def session_opening_def)
  obtain st5 b5 e5 log5 where fs: "finish_session b4 True (e4, log4) = (st5, b5, (e5, log5))" by (metis prod_cases4)
  have fine: "st5 = PBNS_OK" "b' = b5" "r' = Some r5" "log' = log5"
    using fin fs by (auto simp: request_finish_def st4 x split: if_splits)
  note f = finish_session_logged [OF fs b4(2,1)]
  have "response_from b3 log1 [] log4 b' r5" using rf f(2) by (simp add: response_from_def fine)
  then show ?thesis
    using st(1) fine f(1) sent b1 p3 body o(3)
    by (intro exI [of _ b3] exI [of _ r5] exI [of _ log4]) (simp add: b3_def request_active_def session_opening_def)
qed

lemma open_session_Inl: "open_session undo b rid ms e = Inl (st, b', e') \<Longrightarrow> st \<noteq> PBNS_OK"
  by (auto simp: open_session_def split: if_splits prod.splits)

lemma request_session:
  assumes res: "broker_request qc residue (Some b) svc rid body ms (Some r0) (e, log) = Some (PBNS_OK, Some b', r', (e', log'))"
    and inv: "broker_inv (logged T) (logged_platform P) (\<lambda>_. True) (\<lambda>_. True) sh c b (e, log)"
    and rid: "\<And>x. rid = Some x \<Longrightarrow> length x = PBNS_REQUEST_ID_SIZE"
  obtains i b1 e1 where "session_opening sh i b1" "transport b1 = logged T" "platform b1 = logged_platform P" "length i = 16"
    "limits_are_valid (limits b1)" "case rid of None \<Rightarrow> request_id_is_nonzero i | Some x \<Rightarrow> i = x" "service_is_valid svc"
    "request_opened qc residue b1 PBNS_OK svc body (Some zero_response) (e1, log @ [Ev_open PBNS_OK, Ev_limits]) = Some (PBNS_OK, b', r', (e', log'))"
proof -
  define b0 where "b0 = (fresh_session b)\<lparr>request_id := zero_request_id\<rparr>"
  let ?open = "\<lambda>i. open_session (\<lambda>b. wipe_request_storage b False) b0 i ms"
  obtain st1 i e1 log1 where rf: "request_id_for b0 rid (e, log) = (st1, i, (e1, log1))" by (metis prod_cases4)
  obtain st2 b2 e2 log2 where closed: "\<not> opened b" and svc: "service_is_valid svc" and ok: "st1 = PBNS_OK"
    and os0: "?open i (e1, log1) = Inr (st2, b2, (e2, log2))"
    and ro: "request_opened qc residue b2 st2 svc body (Some zero_response) (e2, log2) = Some (PBNS_OK, b', r', (e', log'))"
    using res unfolding broker_request_def Let_def option.sel b0_def [symmetric] rf prod.case
    by (auto simp: clear_response_def split: if_splits sum.splits dest: open_session_Inl)
  have f: "broker_static sh b0" "\<not> opened b0" "\<not> active b0" "\<not> deadline_active b0" "idle_wf c b0" "transport b0 = logged T"
    "platform b0 = logged_platform P"
    using any_env.fresh_session_inv [OF inv closed] by (simp_all add: b0_def)
  have i: "log1 = log \<and> length i = 16 \<and> (case rid of None \<Rightarrow> request_id_is_nonzero i | Some x \<Rightarrow> i = x)"
    using request_id_for_logged [OF rf [unfolded ok] f(7) rid] by simp
  note os = any_env.open_session_inv(2) [OF f TrueI any_env.wipe_undo os0]
  have st2: "st2 = PBNS_OK" using ro by (auto simp: request_opened_def drop_session_def Let_def split: if_splits prod.splits)
  have "log2 = log1 @ [Ev_open PBNS_OK, Ev_limits]" by (rule open_session_logged [OF os0 [unfolded st2] f(6,7)])
  with os i st2 svc ro that show thesis by auto
qed

end
