(* ===== verification/Broker_Delivery.thy ===== *)
theory Broker_Delivery
  imports Broker_Exchange
begin

text \<open>
  A request of the broker (\<open>src/core/broker.c\<close>) from its first to its last byte on the wire:
  what a successful request has sent and received, and that a request to a peer that answers
  succeeds and returns the answer.
\<close>

subsection \<open>Storage\<close>

lemma ranges_overlap_within:
  "\<not> ranges_overlap a m b n \<Longrightarrow> a \<le> a' \<Longrightarrow> a' + m' \<le> a + m \<Longrightarrow> b \<le> b' \<Longrightarrow> b' + n' \<le> b + n \<Longrightarrow> \<not> ranges_overlap a' m' b' n'"
  by (auto simp: ranges_overlap_def split: if_splits)

definition shape_valid :: "(nat \<times> nat) list \<Rightarrow> bool" where
  "shape_valid sh \<longleftrightarrow> (\<exists>st. storage_is_valid st \<and> storage_shape st = sh)"

lemma shape_validD:
  assumes "shape_valid sh" and "broker_static sh b"
  shows "buffer_is_valid (encoded (storage b))" "buffer_is_valid (raw_scratch (storage b))" "buffer_is_valid (receive (storage b))"
    "b_ptr (encoded (storage b)) \<noteq> 0" "b_ptr (receive (storage b)) \<noteq> 0" "b_ptr (decoded (storage b)) \<noteq> 0" "0 < b_cap (receive (storage b))"
    "\<not> ranges_overlap (b_ptr (receive (storage b))) (b_cap (receive (storage b))) (b_ptr (encoded (storage b))) (b_cap (encoded (storage b)))"
    "\<not> ranges_overlap (b_ptr (raw_scratch (storage b))) (b_cap (raw_scratch (storage b))) (b_ptr (encoded (storage b))) (b_cap (encoded (storage b)))"
proof -
  obtain st where "storage_is_valid st" and sh: "storage_shape st = storage_shape (storage b)"
    using assms by (auto simp: shape_valid_def broker_static_def)
  then have v: "buffer_is_valid (encoded st)" "buffer_is_valid (raw_scratch st)" "buffer_is_valid (receive st)" "buffer_is_valid (decoded st)"
    "42 \<le> b_cap (encoded st)" "b_cap (receive st) \<noteq> 0" "b_cap (decoded st) \<noteq> 0"
    "\<not> buffer_ranges_overlap (encoded st) (receive st)" "\<not> buffer_ranges_overlap (encoded st) (raw_scratch st)"
    unfolding storage_is_valid_def Let_def by (simp_all split: if_splits)
  have s: "b_ptr (encoded st) = b_ptr (encoded (storage b))" "b_cap (encoded st) = b_cap (encoded (storage b))"
    "b_ptr (raw_scratch st) = b_ptr (raw_scratch (storage b))" "b_cap (raw_scratch st) = b_cap (raw_scratch (storage b))"
    "b_ptr (receive st) = b_ptr (receive (storage b))" "b_cap (receive st) = b_cap (receive (storage b))"
    "b_ptr (decoded st) = b_ptr (decoded (storage b))" "b_cap (decoded st) = b_cap (decoded (storage b))"
    using sh by (simp_all add: storage_shape_def)
  have l: "b_len (encoded (storage b)) = 0" "b_len (raw_scratch (storage b)) = 0" "b_len (receive (storage b)) = 0"
    using assms(2) by (simp_all add: broker_static_def)
  show "buffer_is_valid (encoded (storage b))" "buffer_is_valid (raw_scratch (storage b))" "buffer_is_valid (receive (storage b))"
    "b_ptr (encoded (storage b)) \<noteq> 0" "b_ptr (receive (storage b)) \<noteq> 0" "b_ptr (decoded (storage b)) \<noteq> 0" "0 < b_cap (receive (storage b))"
    "\<not> ranges_overlap (b_ptr (receive (storage b))) (b_cap (receive (storage b))) (b_ptr (encoded (storage b))) (b_cap (encoded (storage b)))"
    "\<not> ranges_overlap (b_ptr (raw_scratch (storage b))) (b_cap (raw_scratch (storage b))) (b_ptr (encoded (storage b))) (b_cap (encoded (storage b)))"
    using v l unfolding buffer_is_valid_def buffer_ranges_overlap_def s by (auto simp: ranges_overlap_sym)
qed

subsection \<open>Sending\<close>

lemma broker_encode_succeeds:
  assumes "broker_static sh b" and "shape_valid sh"
    and "frame_ok PBNS_FRAME_V1_CONTROL_PAYLOAD_MAX PBNS_FRAME_V1_DATA_PAYLOAD_MAX f (v_bytes p)" and "view_is_valid p" and "view_clear sh p"
    and "40 + v_len p \<le> b_cap (raw_scratch (storage b))" and "frame_wire_max (v_len p) \<le> b_cap (encoded (storage b))"
  shows "\<exists>b' w. broker_encode b f p = (PBNS_OK, b', w)"
proof -
  let ?rs = "(raw_scratch (storage b))\<lparr>b_len := 0\<rparr>" and ?out = "(encoded (storage b))\<lparr>b_len := 0\<rparr>"
  note v = shape_validD [OF assms(2,1)]
  have valid: "buffer_is_valid ?rs" "buffer_is_valid ?out" using v by (simp_all add: buffer_is_valid_def)
  have c: "\<not> ranges_overlap (v_ptr p) (v_len p) (b_ptr (raw_scratch (storage b))) (b_cap (raw_scratch (storage b)))"
    "\<not> ranges_overlap (v_ptr p) (v_len p) (b_ptr (encoded (storage b))) (b_cap (encoded (storage b)))"
    using assms(1,5) by (auto simp: view_clear_def broker_static_def storage_shape_def)
  have "frame_encode_room p ?rs ?out"
    using assms(6,7) ranges_overlap_within [OF v(9)] ranges_overlap_within [OF c(1)] ranges_overlap_within [OF c(2)]
    by (simp add: frame_encode_room_def)
  from pbns_frame_encode_ok [OF assms(3,4) valid this, of 0] show ?thesis by (simp add: broker_encode_def)
qed

subsection \<open>Receiving\<close>

lemma push_pending:
  assumes "broker_static sh b" and "shape_valid sh" and "reader_has (reader b) s"
    and "receive_offset b \<le> receive_length b" and "receive_length b \<le> b_cap (receive (storage b))"
    and "push_loop (reader b) (pending b) 0 = (st, r, n, rd, v)"
  shows "pbns_record_reader_push (Some (reader b))
      \<lparr>v_ptr = b_ptr (receive (storage b)) + receive_offset b, v_bytes = pending b\<rparr> (Some 0) (Some False) (Some null_view) =
    (st, Some r, Some n, Some rd, Some v)"
proof -
  note s = shape_validD [OF assms(2,1)]
  have "b_ptr (r_storage (reader b)) = b_ptr (encoded (storage b))" "b_cap (r_storage (reader b)) = b_cap (encoded (storage b))"
    using assms(1) by (simp_all add: broker_static_def)
  moreover have "\<not> ranges_overlap (b_ptr (receive (storage b)) + receive_offset b) (length (pending b)) (b_ptr (encoded (storage b))) (b_cap (encoded (storage b)))"
    by (rule ranges_overlap_within [OF s(8)]) (use assms(4,5) in \<open>simp_all add: pending_def\<close>)
  ultimately show ?thesis
    using assms(3,6) s(5) by (simp add: pbns_record_reader_push_def reader_has_def view_is_valid_def)
qed

lemma receive_record_waits:
  assumes "broker_static sh b" and "shape_valid sh" and "reader_has (reader b) s"
    and "receive_offset b \<le> receive_length b" and "receive_length b \<le> b_cap (receive (storage b))" and "0 \<notin> set (pending b)"
  shows "\<exists>b'. receive_record b = (Again, b')"
proof -
  obtain st r n rd v where lp: "push_loop (reader b) (pending b) 0 = (st, r, n, rd, v)" by (metis prod_cases5)
  have "takeWhile (\<lambda>b. b \<noteq> 0) (s @ pending b) = s @ pending b" using assms(3,6) by (auto simp: reader_has_def takeWhile_eq_all_conv)
  then have "st = PBNS_ERR_WOULD_BLOCK" using push_loop_outcome [OF assms(3) lp] by (simp add: record_outcome_def)
  with push_pending [OF assms(1-5) lp] show ?thesis by (simp add: receive_record_def pending_def)
qed

lemma receive_record_delivers:
  assumes st: "broker_static sh b" "shape_valid sh" "reader_has (reader b) s"
    "receive_offset b \<le> receive_length b" "receive_length b \<le> b_cap (receive (storage b))"
    and wire: "s @ pending b = cobs_stuff [] (frame_raw f p) @ [0]"
    and lim: "limits_are_valid (limits b)" "length (cobs_stuff [] (frame_raw f p)) + 1 \<le> encoded_record_max (limits b)"
    and room: "encoded_record_max (limits b) \<le> b_cap (encoded (storage b))" "40 + length p \<le> b_cap (raw_scratch (storage b))"
    and ok: "frame_ok (control_payload_max (limits b)) (data_payload_max (limits b)) f p"
  shows "\<exists>q b'. receive_record b = (Got (f, \<lparr>v_ptr = q, v_bytes = p\<rparr>), b')"
proof -
  let ?rec = "cobs_stuff [] (frame_raw f p)"
  obtain st r n rd v where lp: "push_loop (reader b) (pending b) 0 = (st, r, n, rd, v)" by (metis prod_cases5)
  have cap: "b_cap (r_storage (reader b)) = b_cap (encoded (storage b))" "b_ptr (r_storage (reader b)) = b_ptr (encoded (storage b))"
    using st(1) by (simp_all add: broker_static_def)
  have z: "0 \<notin> set ?rec" by (rule cobs_stuff_no_zero) simp_all
  have "takeWhile (\<lambda>b. b \<noteq> 0) (?rec @ [0]) = ?rec" using z by (subst takeWhile_append2) auto
  moreover have "?rec \<noteq> []" using length_cobs_stuff_ge [of "[]"] by (metis length_greater_0_conv list.size(3))
  ultimately have "record_outcome (b_cap (r_storage (reader b))) (s @ pending b) = Record ?rec"
    using wire lim(2) room(1) by (simp add: record_outcome_def cap)
  with push_loop_outcome [OF st(3) lp] have o: "st = PBNS_OK" "rd" "v = \<lparr>v_ptr = b_ptr (encoded (storage b)), v_bytes = ?rec\<rparr>"
    by (simp_all add: cap)
  note sv = shape_validD [OF st(2,1)]
  have dec: "pbns_frame_decode v (limits b) ((raw_scratch (storage b))\<lparr>b_len := 0\<rparr>) (Some zero_frame) (Some null_view) =
    (PBNS_OK, frame_raw f p @ drop (40 + length p) (b_mem (raw_scratch (storage b))), Some f,
     Some \<lparr>v_ptr = b_ptr (raw_scratch (storage b)) + 36, v_bytes = p\<rparr>)"
    using pbns_frame_decode_ok [of v "limits b" f p "(raw_scratch (storage b))\<lparr>b_len := 0\<rparr>"] sv lim room ok
    by (simp add: o cobs_destuff_stuff buffer_is_valid_def)
  from push_pending [OF st lp] o dec show ?thesis
    by (simp add: receive_record_def pending_def set_encoded_def)
qed

subsection \<open>A peer that answers\<close>

text \<open>
  What a working connection does, for some reading \<open>incoming\<close> of the environment as the bytes
  that are on their way to the broker.  The clock works and stays in a window that the timeout
  covers; opening, closing and the limits query succeed; a send makes the peer answer; and a
  receive returns at least one of the bytes on their way and at most what the buffer holds.
\<close>

definition clock_within :: "'e pbns_broker_platform \<Rightarrow> ('e \<Rightarrow> bytes) \<Rightarrow> u64 \<Rightarrow> u32 \<Rightarrow> bool" where
  "clock_within P incoming t0 ms \<longleftrightarrow>
     (\<forall>e. \<exists>now e'. the (p_monotonic_ms (the P)) e = (PBNS_OK, now, e') \<and> incoming e' = incoming e \<and>
        t0 \<le> now \<and> unat now < unat t0 + unat ms \<and> now \<noteq> - 1)"

definition peer_answers :: "'e pbns_transport \<Rightarrow> ('e \<Rightarrow> bytes) \<Rightarrow> pbns_frame_limits \<Rightarrow> (bytes \<Rightarrow> bytes) \<Rightarrow> bool" where
  "peer_answers T incoming lim answer \<longleftrightarrow>
     (\<forall>e. (\<exists>e'. the (t_open (the T)) e = (PBNS_OK, e') \<and> incoming e' = incoming e) \<and>
          (\<exists>e'. the (t_close (the T)) e = (PBNS_OK, e')) \<and>
          (\<exists>e'. the (t_limits (the T)) e = (PBNS_OK, lim, e') \<and> incoming e' = incoming e) \<and>
          (\<forall>v ms. \<exists>e'. the (t_send (the T)) e v ms = (PBNS_OK, e') \<and> incoming e' = incoming e @ answer (v_bytes v)) \<and>
          (\<forall>buf ms. 0 < b_cap buf \<longrightarrow> incoming e \<noteq> [] \<longrightarrow>
             (\<exists>n e'. the (t_receive (the T)) e buf ms = (PBNS_OK, take n (incoming e), n, e') \<and> 0 < n \<and>
                n \<le> b_cap buf \<and> n \<le> length (incoming e) \<and> incoming e' = drop n (incoming e))))"

definition in_time :: "u64 \<Rightarrow> u32 \<Rightarrow> 'e pbns_broker \<Rightarrow> bool" where
  "in_time t0 ms b \<longleftrightarrow> deadline_active b \<and> (deadline_ms b = - 1 \<or> unat t0 + unat ms \<le> unat (deadline_ms b))"

lemma remaining_timeout_in_time:
  assumes "clock_within P incoming t0 ms" and "in_time t0 ms b" and "platform b = P"
  shows "\<exists>m e'. remaining_timeout b (Some 0) e = (PBNS_OK, Some m, e') \<and> incoming e' = incoming e"
proof -
  obtain now e' where c: "the (p_monotonic_ms (the P)) e = (PBNS_OK, now, e')" "incoming e' = incoming e"
    "unat now < unat t0 + unat ms" "now \<noteq> - 1"
    using assms(1) unfolding clock_within_def by metis
  have "\<not> deadline_ms b \<le> now"
  proof (cases "deadline_ms b = - 1")
    case True
    with c(4) show ?thesis by (simp add: word_order.extremum_unique)
  next
    case False
    with assms(2) c(3) show ?thesis by (simp add: in_time_def word_le_nat_alt)
  qed
  with c assms(2,3) show ?thesis by (simp add: remaining_timeout_def in_time_def Let_def)
qed

lemma begin_deadline_in_time:
  assumes "clock_within P incoming t0 ms" and "platform b = P"
  shows "\<exists>d e'. begin_deadline b ms e = (PBNS_OK, b\<lparr>deadline_ms := d, deadline_active := True\<rparr>, e') \<and> incoming e' = incoming e \<and>
    in_time t0 ms (b\<lparr>deadline_ms := d, deadline_active := True\<rparr>)"
proof -
  obtain now e' where c: "the (p_monotonic_ms (the P)) e = (PBNS_OK, now, e')" "incoming e' = incoming e" "t0 \<le> now"
    using assms(1) unfolding clock_within_def by metis
  define d where "d = (if ucast ms > - 1 - now then - 1 else now + ucast ms)"
  have u: "unat (ucast ms :: u64) = unat ms" using unat_lt [of ms] by (simp add: unsigned_ucast_eq take_bit_nat_eq_self)
  have "d = - 1 \<or> unat t0 + unat ms \<le> unat d"
  proof (cases "ucast ms > - 1 - now")
    case False
    then have "unat (now + ucast ms) = unat now + unat ms"
      using word_sub_add_le(1) [where a = now and lim = "- 1" and n = "ucast ms"] u by (simp add: not_less)
    with c(3) False show ?thesis by (simp add: d_def word_le_nat_alt)
  qed (simp add: d_def)
  with c assms(2) show ?thesis by (intro exI [of _ d] exI [of _ e']) (simp add: begin_deadline_def d_def in_time_def Let_def)
qed

text \<open>
  The receive loop while the record \<open>wire\<close> is on its way: nothing is pending in the receive
  buffer, and what the reader has and what is incoming make up the record and its delimiter.
\<close>

definition awaiting ::
  "(nat \<times> nat) list \<Rightarrow> 'e pbns_transport \<Rightarrow> 'e pbns_broker_platform \<Rightarrow> ('e \<Rightarrow> bytes) \<Rightarrow> bytes \<Rightarrow> 'e pbns_broker \<Rightarrow> 'e pbns_broker \<Rightarrow> 'e \<Rightarrow> bool" where
  "awaiting sh T P incoming wire b0 b e \<longleftrightarrow>
     broker_static sh b \<and> (\<exists>st r n m. b = b0\<lparr>storage := st, reader := r, receive_offset := n, receive_length := m\<rparr>) \<and>
     receive_offset b = receive_length b \<and> receive_length b \<le> b_cap (receive (storage b)) \<and>
     (\<exists>s. reader_has (reader b) s \<and> s @ incoming e = wire @ [0] \<and> incoming e \<noteq> [])"

lemma receive_fill_awaiting:
  assumes aw: "awaiting sh T P incoming wire b0 b e" and sh: "shape_valid sh"
    and env: "transport b0 = T" "platform b0 = P" "in_time t0 ms b0" "clock_within P incoming t0 ms" "peer_answers T incoming lim answer"
  shows "\<exists>n st b' e'. receive_fill b e = (Got (), b', e') \<and> 0 < n \<and> n \<le> length (incoming e) \<and> pending b' = take n (incoming e) \<and>
    incoming e' = drop n (incoming e) \<and> b' = b\<lparr>storage := st, receive_offset := 0, receive_length := n\<rparr> \<and> broker_static sh b' \<and>
    n \<le> b_cap (receive (storage b'))"
proof -
  obtain st r k m where b: "b = b0\<lparr>storage := st, reader := r, receive_offset := k, receive_length := m\<rparr>"
    and bs: "broker_static sh b" "receive_offset b = receive_length b" "incoming e \<noteq> []"
    using aw by (auto simp: awaiting_def)
  define b1 where "b1 = b\<lparr>receive_offset := 0, receive_length := 0\<rparr>"
  have b1: "in_time t0 ms b1" "platform b1 = P" "transport b1 = T" "storage b1 = storage b"
    using env by (simp_all add: b1_def b in_time_def)
  obtain m' e1 where rem: "remaining_timeout b1 (Some 0) e = (PBNS_OK, Some m', e1)" "incoming e1 = incoming e"
    using remaining_timeout_in_time [OF env(4) b1(1,2)] by blast
  note v = shape_validD [OF sh bs(1)]
  obtain n e' where rcv: "the (t_receive (the T)) e1 ((receive (storage b))\<lparr>b_len := 0\<rparr>) m' = (PBNS_OK, take n (incoming e), n, e')"
    and n: "0 < n" "n \<le> b_cap (receive (storage b))" "n \<le> length (incoming e)" "incoming e' = drop n (incoming e)"
  proof -
    have "0 < b_cap ((receive (storage b))\<lparr>b_len := 0\<rparr>)" "incoming e1 \<noteq> []" using v(7) bs(3) rem(2) by simp_all
    with env(5) have "\<exists>n e'. the (t_receive (the T)) e1 ((receive (storage b))\<lparr>b_len := 0\<rparr>) m' = (PBNS_OK, take n (incoming e1), n, e') \<and> 0 < n \<and>
      n \<le> b_cap ((receive (storage b))\<lparr>b_len := 0\<rparr>) \<and> n \<le> length (incoming e1) \<and> incoming e' = drop n (incoming e1)"
      unfolding peer_answers_def by blast
    with that rem(2) show thesis by auto
  qed
  define b2 where "b2 = (set_receive b1 (filled (b_mem (receive (storage b))) (take n (incoming e))))\<lparr>receive_length := n\<rparr>"
  have "receive_fill b e = (Got (), b2, e')"
    using bs(2) n rcv b1 rem(1) unfolding receive_fill_def b1_def [symmetric] Let_def
    by (simp add: b2_def set_receive_def)
  moreover have "pending b2 = take n (incoming e)" using n by (simp add: b2_def b1_def pending_def set_receive_def filled_def)
  moreover have "broker_static sh b2" using bs(1) n by (simp add: b2_def b1_def set_receive_def broker_static_def storage_shape_def)
  moreover have "b2 = b\<lparr>storage := storage b2, receive_offset := 0, receive_length := n\<rparr>" by (simp add: b2_def b1_def set_receive_def)
  moreover have "n \<le> b_cap (receive (storage b2))" using n by (simp add: b2_def b1_def set_receive_def)
  ultimately show ?thesis using n by blast
qed

lemma receive_record_keeps:
  assumes "receive_record b = (res, b')" and "broker_static sh b" and "receive_offset b \<le> receive_length b"
  shows "stream b' = stream b" "request_id b' = request_id b" "receive_length b' = receive_length b" "broker_static sh b'"
    "storage_shape (storage b') = storage_shape (storage b)"
proof -
  note eff = receive_record_effect [OF assms]
  obtain st r n where "b' = b\<lparr>storage := st, reader := r, receive_offset := n\<rparr>" using eff by blast
  then show "stream b' = stream b" "request_id b' = request_id b" "receive_length b' = receive_length b" by simp_all
  from eff assms(2) show "broker_static sh b'" "storage_shape (storage b') = storage_shape (storage b)" by (auto simp: broker_static_def)
qed

lemma receive_body_delivers:
  assumes fill: "receive_fill b e = (Got (), b1, e1)" and rec: "receive_record b1 = (Got (f, v), b2)"
    and b1: "broker_static sh b1" "receive_offset b1 \<le> receive_length b1" and v: "v_ptr v \<noteq> 0" "v_bytes v = p"
    and ok: "f_type f = PBNS_MESSAGE_RESPONSE" "broker_request_ids_match (f_request_id f) (request_id b1)" "length p \<le> b_cap (decoded (storage b1))"
      "pbns_stream_accept (Some (stream b1)) (Some f) \<lparr>v_ptr = 1, v_bytes = p\<rparr> = (PBNS_OK, s1)"
  shows "\<exists>b' r. receive_body qc residue (b, e) = Inr (PBNS_OK, b', r, e1) \<and> resp_frame r = f \<and> v_bytes (resp_payload r) = p"
proof -
  note k = receive_record_keeps [OF rec b1]
  have acc: "pbns_stream_accept (Some (stream b2)) (Some f) v = (PBNS_OK, s1)"
    using stream_accept_ptr [OF v(1)] ok(4) k(1) v(2) by simp
  define b3 where "b3 = b2\<lparr>stream := the s1\<rparr>"
  obtain st4 b4 r4 where sr: "store_response b3 f v = (st4, b4, r4)" by (metis prod_cases3)
  have st4: "st4 = PBNS_OK" using sr ok(3) v(2) k(5) by (auto simp: store_response_def b3_def Let_def storage_shape_def split: if_splits)
  have "receive_body qc residue (b, e) = Inr (PBNS_OK, b4, r4, e1)"
    using ok(1,2) sr st4 k(2) unfolding receive_body_def prod.case fill attempt.case rec acc Let_def b3_def [symmetric]
    by (simp add: b3_def)
  moreover have "resp_frame r4 = f \<and> v_bytes (resp_payload r4) = p" using store_response_OK [OF sr [unfolded st4]] v(2) by simp
  ultimately show ?thesis by blast
qed

lemma awaiting_more:
  assumes rec: "receive_record b1 = (Again, b2)"
    and b1: "broker_static sh b1" "reader_has (reader b1) s" "receive_offset b1 \<le> receive_length b1" "receive_length b1 \<le> b_cap (receive (storage b1))"
      "\<exists>st r n m. b1 = b0\<lparr>storage := st, reader := r, receive_offset := n, receive_length := m\<rparr>"
    and more: "s @ pending b1 @ incoming e1 = wire @ [0]" "incoming e1 \<noteq> []"
  shows "awaiting sh T P incoming wire b0 b2 e1"
proof -
  note eff = receive_record_effect [OF rec b1(1,3)] and ag = receive_record_Again [OF rec b1(2-4)]
  obtain st2 r2 n2 where b2: "b2 = b1\<lparr>storage := st2, reader := r2, receive_offset := n2\<rparr>" using eff by blast
  have c: "b_cap (receive (storage b2)) = b_cap (receive (storage b1))" using eff b1(1) by (auto simp: broker_static_def storage_shape_def)
  then have "receive_offset b2 = receive_length b2" using ag(2) eff b1(4) by (auto simp: pending_def b2)
  moreover have "\<exists>st r n m. b2 = b0\<lparr>storage := st, reader := r, receive_offset := n, receive_length := m\<rparr>"
    by (rule exI [of _ st2], rule exI [of _ r2], rule exI [of _ n2], rule exI [of _ "receive_length b1"]) (use b1(5) b2 in auto)
  moreover have "receive_length b2 \<le> b_cap (receive (storage b2))" using b1(4) c by (simp add: b2)
  ultimately show ?thesis
    unfolding awaiting_def using eff ag(1) more by (auto intro!: exI [of _ "s @ pending b1"])
qed

lemma awaiting_step:
  assumes aw: "awaiting sh T P incoming (cobs_stuff [] (frame_raw f p)) b0 b e" and sh: "shape_valid sh"
    and env: "transport b0 = T" "platform b0 = P" "in_time t0 ms b0" "clock_within P incoming t0 ms" "peer_answers T incoming lim answer"
    and lim: "limits_are_valid (limits b0)" "length (cobs_stuff [] (frame_raw f p)) + 1 \<le> encoded_record_max (limits b0)"
    and room: "encoded_record_max (limits b0) \<le> b_cap (encoded (storage b0))" "40 + length p \<le> b_cap (raw_scratch (storage b0))"
      "length p \<le> b_cap (decoded (storage b0))" "broker_static sh b0"
    and ok: "frame_ok (control_payload_max (limits b0)) (data_payload_max (limits b0)) f p" "f_type f = PBNS_MESSAGE_RESPONSE"
      "broker_request_ids_match (f_request_id f) (request_id b0)"
      "pbns_stream_accept (Some (stream b0)) (Some f) \<lparr>v_ptr = 1, v_bytes = p\<rparr> = (PBNS_OK, s1)"
  shows "(\<exists>b' e'. receive_body qc residue (b, e) = Inl (b', e') \<and> awaiting sh T P incoming (cobs_stuff [] (frame_raw f p)) b0 b' e' \<and>
      length (incoming e') < length (incoming e)) \<or>
    (\<exists>b' r e'. receive_body qc residue (b, e) = Inr (PBNS_OK, b', r, e') \<and> resp_frame r = f \<and> v_bytes (resp_payload r) = p)"
proof -
  let ?rec = "cobs_stuff [] (frame_raw f p)"
  obtain n st b1 e1 where fill: "receive_fill b e = (Got (), b1, e1)" and n: "0 < n" "n \<le> length (incoming e)" "pending b1 = take n (incoming e)"
    "incoming e1 = drop n (incoming e)" "b1 = b\<lparr>storage := st, receive_offset := 0, receive_length := n\<rparr>" "broker_static sh b1"
    "n \<le> b_cap (receive (storage b1))"
    using receive_fill_awaiting [OF aw sh env] by blast
  obtain s where b: "\<exists>st r n m. b = b0\<lparr>storage := st, reader := r, receive_offset := n, receive_length := m\<rparr>"
    and s: "reader_has (reader b) s" "s @ incoming e = ?rec @ [0]" "incoming e \<noteq> []"
    using aw by (auto simp: awaiting_def)
  have b1: "reader_has (reader b1) s" "receive_offset b1 \<le> receive_length b1" "receive_length b1 \<le> b_cap (receive (storage b1))"
    "limits b1 = limits b0" "stream b1 = stream b0" "request_id b1 = request_id b0"
    using s(1) n(5,7) b by auto
  have form: "\<exists>st r n m. b1 = b0\<lparr>storage := st, reader := r, receive_offset := n, receive_length := m\<rparr>"
    by (rule exI [of _ st], rule exI [of _ "reader b"], rule exI [of _ 0], rule exI [of _ n]) (use n(5) b in auto)
  have caps: "b_cap (encoded (storage b1)) = b_cap (encoded (storage b0))" "b_cap (raw_scratch (storage b1)) = b_cap (raw_scratch (storage b0))"
    "b_cap (decoded (storage b1)) = b_cap (decoded (storage b0))"
    using n(6) room(4) by (auto simp: broker_static_def storage_shape_def)
  show ?thesis
  proof (cases "n = length (incoming e)")
    case True
    have "s @ pending b1 = ?rec @ [0]" using s(2) n(3) True by simp
    from receive_record_delivers [OF n(6) sh b1(1-3) this] lim room(1,2) ok(1) obtain q b2
      where rec: "receive_record b1 = (Got (f, \<lparr>v_ptr = q, v_bytes = p\<rparr>), b2)" unfolding b1(4) caps by blast
    have "q \<noteq> 0" using receive_record_Got(3) [OF rec b1(1) n(6)] by simp
    with ok(3,4) room(3) b1(5,6) caps(3)
    have "\<exists>b' r. receive_body qc residue (b, e) = Inr (PBNS_OK, b', r, e1) \<and> resp_frame r = f \<and> v_bytes (resp_payload r) = p"
      by (intro receive_body_delivers [OF fill rec n(6) b1(2) _ _ ok(2)]) simp_all
    then show ?thesis by blast
  next
    case False
    then have lt: "n < length (incoming e)" using n(2) by simp
    have "s @ butlast (incoming e) = ?rec" using s(2,3) by (metis butlast_append butlast_snoc)
    moreover have "0 \<notin> set ?rec" by (rule cobs_stuff_no_zero) simp_all
    moreover have "take n (incoming e) = take n (butlast (incoming e))" using lt by (auto simp: butlast_conv_take min_def)
    ultimately have z: "0 \<notin> set (pending b1)" unfolding n(3) by (metis Un_iff in_set_takeD set_append)
    obtain b2 where rec: "receive_record b1 = (Again, b2)" using receive_record_waits [OF n(6) sh b1(1-3) z] by blast
    have "awaiting sh T P incoming ?rec b0 b2 e1"
      by (rule awaiting_more [OF rec n(6) b1(1-3) form]) (use s(2) n(3,4) lt in simp_all)
    moreover have "receive_body qc residue (b, e) = Inl (b2, e1)" by (simp add: receive_body_def fill rec)
    moreover have "length (incoming e1) < length (incoming e)" using n(1,4) lt by simp
    ultimately show ?thesis by blast
  qed
qed

lemma awaiting_receives:
  assumes "awaiting sh T P incoming (cobs_stuff [] (frame_raw f p)) b0 b0 e0" and "shape_valid sh"
    "transport b0 = T" "platform b0 = P" "in_time t0 ms b0" "clock_within P incoming t0 ms" "peer_answers T incoming lim answer"
    "limits_are_valid (limits b0)" "length (cobs_stuff [] (frame_raw f p)) + 1 \<le> encoded_record_max (limits b0)"
    "encoded_record_max (limits b0) \<le> b_cap (encoded (storage b0))" "40 + length p \<le> b_cap (raw_scratch (storage b0))"
    "length p \<le> b_cap (decoded (storage b0))" "broker_static sh b0"
    "frame_ok (control_payload_max (limits b0)) (data_payload_max (limits b0)) f p" "f_type f = PBNS_MESSAGE_RESPONSE"
    "broker_request_ids_match (f_request_id f) (request_id b0)"
    "pbns_stream_accept (Some (stream b0)) (Some f) \<lparr>v_ptr = 1, v_bytes = p\<rparr> = (PBNS_OK, s1)"
  shows "\<exists>b r e. loop (receive_body qc residue) (b0, e0) = Some (PBNS_OK, b, r, e) \<and> resp_frame r = f \<and> v_bytes (resp_payload r) = p"
proof -
  let ?aw = "awaiting sh T P incoming (cobs_stuff [] (frame_raw f p)) b0" and ?body = "receive_body qc residue"
  let ?done = "\<lambda>(st, b, r, e). st = PBNS_OK \<and> resp_frame r = f \<and> v_bytes (resp_payload r) = p"
  have step: "(\<exists>b' e'. ?body (b, e) = Inl (b', e') \<and> ?aw b' e' \<and> length (incoming e') < length (incoming e)) \<or>
      (\<exists>b' r e'. ?body (b, e) = Inr (PBNS_OK, b', r, e') \<and> resp_frame r = f \<and> v_bytes (resp_payload r) = p)" if "?aw b e" for b e
    by (rule awaiting_step [OF that assms(2-17)])
  have "\<exists>x. loop ?body (b0, e0) = Some x"
  proof (rule loop_total [where P = "\<lambda>(b, e). ?aw b e" and m = "\<lambda>(b, e). length (incoming e)"])
    show "case (b0, e0) of (b, e) \<Rightarrow> ?aw b e" using assms(1) by simp
  next
    fix x y assume "case x of (b, e) \<Rightarrow> ?aw b e" and "?body x = Inl y"
    then show "(case y of (b, e) \<Rightarrow> ?aw b e) \<and> (case y of (b, e) \<Rightarrow> length (incoming e)) < (case x of (b, e) \<Rightarrow> length (incoming e))"
      using step [of "fst x" "snd x"] by (cases x) auto
  qed
  then obtain x where lp: "loop ?body (b0, e0) = Some x" by blast
  have "?done x"
  proof (rule loop_partial [OF lp, of "\<lambda>(b, e). ?aw b e"])
    show "case (b0, e0) of (b, e) \<Rightarrow> ?aw b e" using assms(1) by simp
  next
    fix x y assume "case x of (b, e) \<Rightarrow> ?aw b e" and "?body x = Inl y"
    then show "case y of (b, e) \<Rightarrow> ?aw b e" using step [of "fst x" "snd x"] by (cases x) auto
  next
    fix x y assume "case x of (b, e) \<Rightarrow> ?aw b e" and "?body x = Inr y"
    then show "?done y" using step [of "fst x" "snd x"] by (cases x) auto
  qed
  with lp show ?thesis by (cases x) auto
qed

lemma emit_frame_answered:
  assumes "broker_static sh b" and "shape_valid sh"
    and "frame_ok PBNS_FRAME_V1_CONTROL_PAYLOAD_MAX PBNS_FRAME_V1_DATA_PAYLOAD_MAX f (v_bytes p)" and "view_is_valid p" and "view_clear sh p"
    and "40 + v_len p \<le> b_cap (raw_scratch (storage b))" and "frame_wire_max (v_len p) \<le> b_cap (encoded (storage b))"
    and env: "transport b = T" "platform b = P" "in_time t0 ms b" "clock_within P incoming t0 ms" "peer_answers T incoming lim answer"
  shows "\<exists>b' e'. emit_frame b f p e = (PBNS_OK, b', e') \<and> incoming e' = incoming e @ answer (cobs_stuff [] (frame_raw f (v_bytes p)) @ [0])"
proof -
  obtain b1 w where enc: "broker_encode b f p = (PBNS_OK, b1, w)" using broker_encode_succeeds [OF assms(1-7)] by blast
  have id: "length (f_request_id f) = 16" using assms(3) by (simp add: frame_ok_def)
  note wire = broker_encode_OK(1) [OF enc id assms(1)]
  obtain st1 r1 where b1: "b1 = b\<lparr>storage := st1, reader := r1\<rparr>" using broker_encode_effect [OF enc id assms(1)] by blast
  have t: "in_time t0 ms b1" "platform b1 = P" using env by (simp_all add: b1 in_time_def)
  obtain m e1 where rem: "remaining_timeout b1 (Some 0) e = (PBNS_OK, Some m, e1)" "incoming e1 = incoming e"
    using remaining_timeout_in_time [OF env(4) t] by blast
  let ?v = "\<lparr>v_ptr = b_ptr (encoded (storage b1)), v_bytes = take w (b_mem (encoded (storage b1)))\<rparr>"
  obtain e2 where "the (t_send (the T)) e1 ?v m = (PBNS_OK, e2)" "incoming e2 = incoming e1 @ answer (v_bytes ?v)"
    using env(5) unfolding peer_answers_def by blast
  moreover have "transport b1 = T" using env(1) by (simp add: b1)
  ultimately show ?thesis using rem wire by (simp add: emit_frame_def enc broker_send_def)
qed

definition effective_limits :: "(nat \<times> nat) list \<Rightarrow> pbns_frame_limits \<Rightarrow> pbns_frame_limits" where
  "effective_limits sh lim =
     (let room = min (snd (sh ! 1) - 40) (snd (sh ! 3))
      in \<lparr>control_payload_max = min (control_payload_max lim) room, data_payload_max = min (data_payload_max lim) room,
          encoded_record_max = min (encoded_record_max lim) (snd (sh ! 0))\<rparr>)"

text \<open>The frames of an exchange.\<close>

definition request_frame :: "pbns_service_id \<Rightarrow> pbns_request_id \<Rightarrow> pbns_frame" where
  "request_frame svc rid = \<lparr>f_service = svc, f_type = PBNS_MESSAGE_REQUEST, f_flags = 0, f_request_id = rid, f_sequence = 0\<rparr>"

definition response_frame :: "pbns_service_id \<Rightarrow> pbns_request_id \<Rightarrow> pbns_frame" where
  "response_frame svc rid = \<lparr>f_service = svc, f_type = PBNS_MESSAGE_RESPONSE, f_flags = 0, f_request_id = rid, f_sequence = 0\<rparr>"

definition wire_record :: "pbns_frame \<Rightarrow> bytes \<Rightarrow> bytes" where
  "wire_record f p = cobs_stuff [] (frame_raw f p) @ [0]"

text \<open>The sizes with which a request and its response fit the limits and the buffers.\<close>

definition exchange_fits :: "(nat \<times> nat) list \<Rightarrow> pbns_frame_limits \<Rightarrow> pbns_service_id \<Rightarrow> pbns_request_id \<Rightarrow> pbns_view \<Rightarrow> bytes \<Rightarrow> bool" where
  "exchange_fits sh lim svc rid body p \<longleftrightarrow>
     view_is_valid body \<and> view_clear sh body \<and> v_len body \<le> control_payload_max (effective_limits sh lim) \<and>
     frame_wire_max (v_len body) \<le> snd (sh ! 0) \<and> length p \<le> control_payload_max (effective_limits sh lim) \<and>
     length (wire_record (response_frame svc rid) p) \<le> encoded_record_max (effective_limits sh lim)"

lemma broker_request_ids_match_refl: "broker_request_ids_match rid rid"
proof -
  have "foldl (\<lambda>d i. d OR (rid ! i XOR rid ! i)) 0 xs = 0" for xs by (induction xs) simp_all
  then show ?thesis by (simp only: broker_request_ids_match_def)
qed

lemma fresh_stream_accepts:
  assumes "service_is_valid svc" and "length rid = 16" and "length p \<le> n" and "n \<le> 65536"
  shows "\<exists>s. pbns_stream_accept (pbns_stream_init (Some s0) svc rid (of_nat n)) (Some (response_frame svc rid)) \<lparr>v_ptr = 1, v_bytes = p\<rparr> = (PBNS_OK, s)"
proof -
  have w: "unat (of_nat n :: u64) = n" "unat (of_nat (length p) :: u64) = length p" using assms(3,4) by (simp_all add: unat_of_nat)
  then have nl: "\<not> (of_nat n :: u64) < of_nat (length p)" using assms(3) by (simp add: word_less_nat_alt)
  show ?thesis
    using assms by (simp add: pbns_stream_accept_def pbns_stream_init_def zero_stream_def response_frame_def request_ids_match_iff
        view_is_valid_def Let_def nl)
qed

lemma static_caps:
  assumes "broker_static sh b"
  shows "b_cap (encoded (storage b)) = snd (sh ! 0)" "b_cap (raw_scratch (storage b)) = snd (sh ! 1)" "b_cap (decoded (storage b)) = snd (sh ! 3)"
  using assms by (auto simp: broker_static_def storage_shape_def)

lemma exchange_frames_ok:
  assumes "length rid = 16" "service_is_valid svc"
  shows "length q \<le> c \<Longrightarrow> frame_ok c d (request_frame svc rid) q" "length q \<le> c \<Longrightarrow> frame_ok c d (response_frame svc rid) q"
  using assms by (simp_all add: frame_ok_def request_frame_def response_frame_def message_type_is_valid_def validate_ack_payload_def)

lemma effective_limits_room:
  assumes "40 \<le> snd (sh ! 1)" "limits_are_valid (effective_limits sh lim)"
  shows "control_payload_max (effective_limits sh lim) \<le> 65536" "40 + control_payload_max (effective_limits sh lim) \<le> snd (sh ! 1)"
    "control_payload_max (effective_limits sh lim) \<le> snd (sh ! 3)" "encoded_record_max (effective_limits sh lim) \<le> snd (sh ! 0)"
  using assms by (auto simp: limits_are_valid_def effective_limits_def Let_def)

lemma request_active_answered:
  assumes op: "session_opening sh rid b" "length rid = 16" "shape_valid sh" "service_is_valid svc"
    and lim: "limits b = effective_limits sh lim" "limits_are_valid (limits b)" "40 \<le> snd (sh ! 1)"
    and fits: "length p \<le> control_payload_max (limits b)" "length (wire_record (response_frame svc rid) p) \<le> encoded_record_max (limits b)"
    and env: "transport b = T" "platform b = P" "in_time t0 ms b" "clock_within P incoming t0 ms" "peer_answers T incoming tlim answer"
    and peer: "incoming e = wire_record (response_frame svc rid) p"
  shows "\<exists>b' r e'. pbns_broker_receive qc residue (Some (request_active b svc)) (Some r0) e = Some (PBNS_OK, Some b', Some r, e') \<and>
    resp_frame r = response_frame svc rid \<and> v_bytes (resp_payload r) = p \<and> opened b' \<and> transport b' = T"
proof -
  let ?rec = "cobs_stuff [] (frame_raw (response_frame svc rid) p)"
  define b3 where "b3 = request_active b svc"
  note act = request_active_inv [OF op(1,2,4) lim(2), folded b3_def]
  note le = effective_limits_room [OF lim(3) lim(2) [unfolded lim(1)], folded lim(1)]
  have f3: "limits b3 = limits b" "transport b3 = T" "platform b3 = P" "request_id b3 = rid" "in_time t0 ms b3"
    "initialized b3" "active b3" "opened b3" "\<not> bulk_mode b3"
    "stream b3 = the (pbns_stream_init (Some (stream b)) svc rid (of_nat (control_payload_max (limits b))))"
    using op(1) env by (simp_all add: b3_def request_active_def session_opening_def broker_static_def idle_wf_def in_time_def)
  have aw: "awaiting sh T P incoming ?rec b3 b3 e"
    using act peer unfolding awaiting_def wire_record_def
    by (intro conjI exI [of _ "[]"] exI [of _ "storage b3"] exI [of _ "reader b3"] exI [of _ "receive_offset b3"] exI [of _ "receive_length b3"]) simp_all
  obtain s where acc: "pbns_stream_accept (Some (stream b3)) (Some (response_frame svc rid)) \<lparr>v_ptr = 1, v_bytes = p\<rparr> = (PBNS_OK, s)"
    using fresh_stream_accepts [OF op(4,2) fits(1) le(1), of "stream b"] op(4) by (auto simp: f3(10) pbns_stream_init_def)
  have ok: "frame_ok (control_payload_max (limits b3)) (data_payload_max (limits b3)) (response_frame svc rid) p"
    using exchange_frames_ok(2) [OF op(2,4) fits(1)] by (simp add: f3(1))
  have "\<exists>b r e'. loop (receive_body qc residue) (b3, e) = Some (PBNS_OK, b, r, e') \<and> resp_frame r = response_frame svc rid \<and> v_bytes (resp_payload r) = p"
    by (rule awaiting_receives [OF aw op(3) f3(2,3,5) env(4,5) _ _ _ _ _ act(2) ok _ _ acc])
      (use lim(2) fits le static_caps [OF act(2)] in \<open>simp_all add: f3 wire_record_def response_frame_def broker_request_ids_match_refl\<close>)
  then obtain b4 r e4 where lp: "loop (receive_body qc residue) (b3, e) = Some (PBNS_OK, b4, r, e4)"
    and r: "resp_frame r = response_frame svc rid" "v_bytes (resp_payload r) = p" by blast
  have rcv: "pbns_broker_receive qc residue (Some b3) (Some r0) e = Some (PBNS_OK, Some b4, Some r, e4)"
    using lp f3 by (simp add: pbns_broker_receive_def clear_response_def Let_def)
  from any_env.receive_inv [OF act(1) rcv] have "opened b4" "transport b4 = T" using f3(8) env(1) by (auto simp: broker_inv_def)
  with rcv r show ?thesis unfolding b3_def by blast
qed

lemma request_opened_answered:
  assumes op: "session_opening sh rid b" "length rid = 16" "shape_valid sh" "service_is_valid svc"
    and lim: "limits b = effective_limits sh lim" "limits_are_valid (limits b)" "40 \<le> snd (sh ! 1)"
    and fits: "exchange_fits sh lim svc rid body p"
    and env: "transport b = T" "platform b = P" "in_time t0 ms b" "clock_within P incoming t0 ms" "peer_answers T incoming lim answer"
    and peer: "incoming e = []" "answer (wire_record (request_frame svc rid) (v_bytes body)) = wire_record (response_frame svc rid) p"
  shows "\<exists>b' r e'. request_opened qc residue b PBNS_OK svc body (Some r0) e = Some (PBNS_OK, b', Some r, e') \<and>
    resp_frame r = response_frame svc rid \<and> v_bytes (resp_payload r) = p"
proof -
  have o: "broker_static sh b" "opened b" "request_id b = rid" using op(1) by (simp_all add: session_opening_def)
  note caps = static_caps [OF o(1)]
  note le = effective_limits_room [OF lim(3) lim(2) [unfolded lim(1)], folded lim(1)]
  have fit: "v_len body \<le> control_payload_max (limits b)" "length p \<le> control_payload_max (limits b)" "view_is_valid body" "view_clear sh body"
    "frame_wire_max (v_len body) \<le> b_cap (encoded (storage b))" "length (wire_record (response_frame svc rid) p) \<le> encoded_record_max (limits b)"
    using fits by (simp_all add: exchange_fits_def lim(1) caps)
  have "storage_shape (storage b) = sh" using o(1) by (simp add: broker_static_def)
  then have body: "view_reload (storage b) body = body" using view_reload_clear fit(4) by metis
  have fq: "frame_ok 65536 16384 (request_frame svc rid) (v_bytes body)"
    by (rule exchange_frames_ok [OF op(2,4)]) (use fit(1) le(1) in simp)
  have room: "40 + v_len body \<le> b_cap (raw_scratch (storage b))" using le(2) fit(1) caps by linarith
  obtain b1 e1 where emit: "emit_frame b (request_frame svc rid) body e = (PBNS_OK, b1, e1)"
    and in1: "incoming e1 = wire_record (response_frame svc rid) p"
    using emit_frame_answered [OF o(1) op(3) fq fit(3,4) room fit(5) env, of e] peer by (auto simp: wire_record_def)
  have rid: "f_request_id (request_frame svc rid) = rid" by (simp add: request_frame_def)
  note b1 = any_env.emit_opening [OF emit op(1,2) rid env(1,2) TrueI]
  have "b1 = b\<lparr>storage := storage b1, reader := reader b1\<rparr>"
    using any_env.emit_frame_inv [OF emit _ o(1) refl refl TrueI] op(2) by (simp add: request_frame_def)
  then obtain st1 r1 where "b1 = b\<lparr>storage := st1, reader := r1\<rparr>" by blast
  with env(3) have "in_time t0 ms b1" by (simp add: in_time_def)
  then obtain b4 r e4 where rcv: "pbns_broker_receive qc residue (Some (request_active b1 svc)) (Some r0) e1 = Some (PBNS_OK, Some b4, Some r, e4)"
    and r: "resp_frame r = response_frame svc rid" "v_bytes (resp_payload r) = p" "opened b4" "transport b4 = T"
    using request_active_answered [OF b1(1) op(2-4) _ _ lim(3) _ _ b1(4,5) _ env(4,5) in1] lim(1,2) fit(2,6) unfolding b1(2) by blast
  obtain e5 where "the (t_close (the T)) e4 = (PBNS_OK, e5)" using env(5) unfolding peer_answers_def by blast
  then obtain b5 where fin: "request_finish b4 PBNS_OK (Some r) e4 = (PBNS_OK, b5, Some r, e5)"
    using r(3,4) by (simp add: request_finish_def finish_session_def Let_def)
  have "request_opened qc residue b PBNS_OK svc body (Some r0) e = Some (PBNS_OK, b5, Some r, e5)"
    using fit(1) op(4) emit rcv fin unfolding request_opened_def request_frame_def request_active_def o(3) body
    by (simp add: pbns_stream_init_def)
  with r show ?thesis by blast
qed

definition limits_accepted :: "pbns_frame_limits \<Rightarrow> bool" where
  "limits_accepted lim \<longleftrightarrow> limits_are_valid lim \<and> 2 \<le> encoded_record_max lim"

lemma open_session_answered:
  assumes b: "broker_static sh b" "transport b = T" "platform b = P" and sh: "shape_valid sh"
    and env: "clock_within P incoming t0 ms" "peer_answers T incoming lim answer" and lim: "limits_accepted lim"
  shows "\<exists>b' e'. open_session undo b rid ms e = Inr (PBNS_OK, b', e') \<and> incoming e' = incoming e \<and>
    limits b' = effective_limits sh lim \<and> in_time t0 ms b'"
proof -
  obtain d e1 where dl: "begin_deadline (b\<lparr>request_id := rid\<rparr>) ms e = (PBNS_OK, b\<lparr>request_id := rid, deadline_ms := d, deadline_active := True\<rparr>, e1)"
    and t: "incoming e1 = incoming e" "in_time t0 ms (b\<lparr>request_id := rid, deadline_ms := d, deadline_active := True\<rparr>)"
    using begin_deadline_in_time [OF env(1), of "b\<lparr>request_id := rid\<rparr>" e] b(3) by auto
  obtain e2 where op: "the (t_open (the T)) e1 = (PBNS_OK, e2)" "incoming e2 = incoming e1" using env(2) unfolding peer_answers_def by blast
  obtain e3 where li: "the (t_limits (the T)) e2 = (PBNS_OK, lim, e3)" "incoming e3 = incoming e2" using env(2) unfolding peer_answers_def by blast
  have m: "minimum_size x y = min x y" for x y by (simp add: minimum_size_def)
  show ?thesis
    using lim b t op li static_caps [OF b(1)]
    by (simp add: open_session_def dl query_effective_limits_def limits_accepted_def limits_are_valid_def in_time_def effective_limits_def m Let_def)
qed

lemma shape_valid_raw: "shape_valid sh \<Longrightarrow> 40 \<le> snd (sh ! 1)"
  by (auto simp: shape_valid_def storage_shape_def storage_is_valid_def Let_def split: if_splits)

lemma effective_limits_valid: "limits_accepted lim \<Longrightarrow> limits_are_valid (effective_limits sh lim)"
  by (auto simp: limits_accepted_def limits_are_valid_def effective_limits_def Let_def)

lemma request_answered:
  assumes inv: "broker_inv T P (\<lambda>_. True) (\<lambda>_. True) sh c b e" "\<not> opened b" and sh: "shape_valid sh"
    and args: "service_is_valid svc" "length rid = 16" "request_id_is_nonzero rid" "exchange_fits sh lim svc rid body p"
    and env: "clock_within P incoming t0 ms" "peer_answers T incoming lim answer" "limits_accepted lim"
    and peer: "incoming e = []" "answer (wire_record (request_frame svc rid) (v_bytes body)) = wire_record (response_frame svc rid) p"
  shows "\<exists>b' r e'. broker_request qc residue (Some b) svc (Some rid) body ms (Some r0) e = Some (PBNS_OK, Some b', Some r, e') \<and>
    resp_frame r = response_frame svc rid \<and> v_bytes (resp_payload r) = p"
proof -
  define b0 where "b0 = (fresh_session b)\<lparr>request_id := zero_request_id\<rparr>"
  have f: "broker_static sh b0" "\<not> opened b0" "\<not> active b0" "\<not> deadline_active b0" "idle_wf c b0" "transport b0 = T" "platform b0 = P"
    using any_env.fresh_session_inv [OF inv] by (simp_all add: b0_def)
  obtain b1 e1 where open1: "open_session (\<lambda>b. wipe_request_storage b False) b0 rid ms e = Inr (PBNS_OK, b1, e1)"
    and b1: "incoming e1 = incoming e" "limits b1 = effective_limits sh lim" "in_time t0 ms b1"
    using open_session_answered [OF f(1,6,7) sh env] by blast
  note os = any_env.open_session_inv(2) [OF f TrueI any_env.wipe_undo open1]
  have o1: "session_opening sh rid b1" "transport b1 = T" "platform b1 = P" using os by auto
  have l1: "limits_are_valid (limits b1)" using effective_limits_valid [OF env(3)] b1(2) by simp
  obtain b5 r e5 where ro: "request_opened qc residue b1 PBNS_OK svc body (Some zero_response) e1 = Some (PBNS_OK, b5, Some r, e5)"
    and r: "resp_frame r = response_frame svc rid" "v_bytes (resp_payload r) = p"
    using request_opened_answered [OF o1(1) args(2) sh args(1) b1(2) l1 shape_valid_raw [OF sh] args(4) o1(2,3) b1(3) env(1,2) _ peer(2)] b1(1) peer(1)
    by (metis (no_types))
  have "ms \<noteq> 0" using env(1) unfolding clock_within_def by (metis add.right_neutral leD unat_0 word_less_nat_alt)
  moreover have "initialized b" "\<not> active b" using inv by (auto simp: broker_inv_def broker_wf_def broker_static_def)
  moreover have "view_is_valid body" using args(4) by (simp add: exchange_fits_def)
  ultimately have "broker_request qc residue (Some b) svc (Some rid) body ms (Some r0) e = Some (PBNS_OK, Some b5, Some r, e5)"
    using args(1,3) inv(2) open1 ro unfolding broker_request_def Let_def b0_def
    by (simp add: request_id_for_def clear_response_def)
  with r show ?thesis by blast
qed

lemma broker_reach_storage:
  "broker_reach qc residue T P st0 idle e0 b e \<Longrightarrow> storage_is_valid st0"
  by (induction rule: broker_reach.induct) (auto dest: broker_init_wf(7))

subsection \<open>An example peer\<close>

text \<open>A connection whose environment is the list of bytes on their way, and a peer that answers every record with the same response.\<close>

definition example_id :: pbns_request_id where
  "example_id = replicate 16 1"

definition example_peer :: "bytes pbns_transport" where
  "example_peer = Some
     \<lparr>t_open = Some (\<lambda>e. (PBNS_OK, e)), t_close = Some (\<lambda>e. (PBNS_OK, e)),
      t_send = Some (\<lambda>e v ms. (PBNS_OK, e @ wire_record (response_frame PBNS_SERVICE_TRUSTED_TIME example_id) [1, 2])),
      t_receive = Some (\<lambda>e buf ms. let n = min (b_cap buf) (length e) in
        if n = 0 then (PBNS_ERR_TIMEOUT, [], 0, e) else (PBNS_OK, take n e, n, drop n e)),
      t_cancel = Some (\<lambda>e rid. (PBNS_OK, e)),
      t_limits = Some (\<lambda>e. (PBNS_OK, \<lparr>control_payload_max = 65536, data_payload_max = 16384, encoded_record_max = 200\<rparr>, e))\<rparr>"

definition example_clock :: "'e pbns_broker_platform" where
  "example_clock = Some
     \<lparr>p_random = Some (\<lambda>e buf. (PBNS_OK, replicate 16 7, e)), p_monotonic_ms = Some (\<lambda>e. (PBNS_OK, 1000, e))\<rparr>"

definition example_room :: pbns_broker_storage where
  "example_room = \<lparr>encoded = \<lparr>b_ptr = 100, b_len = 0, b_mem = replicate 60 0\<rparr>,
     raw_scratch = \<lparr>b_ptr = 200, b_len = 0, b_mem = replicate 50 0\<rparr>,
     receive = \<lparr>b_ptr = 300, b_len = 0, b_mem = replicate 4 0\<rparr>,
     decoded = \<lparr>b_ptr = 400, b_len = 0, b_mem = replicate 4 0\<rparr>\<rparr>"

definition example_body :: pbns_view where
  "example_body = \<lparr>v_ptr = 500, v_bytes = [9]\<rparr>"

definition example_transport_limits :: pbns_frame_limits where
  "example_transport_limits = \<lparr>control_payload_max = 65536, data_payload_max = 16384, encoded_record_max = 200\<rparr>"

lemma example_room_valid: "storage_is_valid example_room"
  by (simp add: storage_is_valid_def example_room_def buffer_is_valid_def buffer_ranges_overlap_def ranges_overlap_def UINTPTR_MAX_def)

lemma example_peer_answers:
  "peer_answers example_peer (\<lambda>e. e) example_transport_limits (\<lambda>_. wire_record (response_frame PBNS_SERVICE_TRUSTED_TIME example_id) [1, 2])"
  "peer_answers (logged example_peer) fst example_transport_limits (\<lambda>_. wire_record (response_frame PBNS_SERVICE_TRUSTED_TIME example_id) [1, 2])"
  "clock_within example_clock incoming 1000 5" "clock_within (logged_platform example_clock) incoming' 1000 5"
  "limits_accepted example_transport_limits"
  by (auto simp: peer_answers_def example_peer_def example_transport_limits_def Let_def clock_within_def example_clock_def
      limits_accepted_def limits_are_valid_def min_def split: if_splits)

lemma example_fits:
  "exchange_fits (storage_shape example_room) example_transport_limits PBNS_SERVICE_TRUSTED_TIME example_id example_body [1, 2]"
proof -
  have "length (cobs_stuff [] (frame_raw (response_frame PBNS_SERVICE_TRUSTED_TIME example_id) [1, 2])) \<le> 50"
    using cobs_stuff_length [of "[]" "frame_raw (response_frame PBNS_SERVICE_TRUSTED_TIME example_id) [1, 2]"]
    by (simp add: response_frame_def example_id_def)
  then show ?thesis
    by (simp add: exchange_fits_def wire_record_def effective_limits_def storage_shape_def example_room_def example_transport_limits_def
        example_body_def view_is_valid_def view_clear_def ranges_overlap_def UINTPTR_MAX_def frame_wire_max_def Let_def)
qed

lemma example_args: "service_is_valid PBNS_SERVICE_TRUSTED_TIME" "length example_id = 16" "request_id_is_nonzero example_id"
  by (simp_all add: service_is_valid_def example_id_def request_id_is_nonzero_def upt_rec)

lemma example_start:
  assumes "transport_is_valid T" "platform_is_valid P"
  shows "\<exists>b. pbns_broker_init (Some zero_broker) T P example_room = (PBNS_OK, Some b)"
  using assms example_room_valid
  by (simp add: pbns_broker_init_def Let_def pbns_record_reader_init_def zero_broker_def zero_reader_def)
    (simp add: example_room_def buffer_is_valid_def)

lemma example_started:
  assumes "transport_is_valid T" "platform_is_valid P"
  obtains b where "broker_reach example_qcbor (\<lambda>_ m. m) T P example_room idle e b e" "\<not> opened b"
proof -
  obtain b where "pbns_broker_init (Some zero_broker) T P example_room = (PBNS_OK, Some b)" using example_start [OF assms] by blast
  with that [OF broker_reach.init] broker_init_wf(2) show thesis by blast
qed

lemma example_callbacks:
  "transport_is_valid example_peer" "transport_is_valid (logged T)" "platform_is_valid example_clock" "platform_is_valid (logged_platform P)"
  by (simp_all add: transport_is_valid_def platform_is_valid_def example_peer_def example_clock_def logged_def logged_platform_def)

subsection \<open>Properties\<close>

text \<open>C3:
  What a successful request has put on the wire and taken from it.  For any reachable broker
  whose buffers the request body does not overlap: the calls on the transport are one open, one
  query of the limits, one send, some receives and one close, all successful; what was sent is
  exactly the encoded REQUEST frame with the body, a service and request identifier of the
  caller's (or a nonzero one from the entropy source) and sequence 0; the bytes received begin
  with one record that decodes to the returned frame and payload; and that frame is the RESPONSE
  to this request, with its service, its identifier and sequence 0.
\<close>

theorem broker_request_exchange:
  assumes reach: "broker_reach qc residue (logged T) (logged_platform P) st0 same_log (e0, []) b (e, log)"
    and res: "broker_request qc residue (Some b) svc rid body ms (Some r0) (e, log) = Some (PBNS_OK, Some b', Some r, (e', log'))"
    and rid: "\<And>x. rid = Some x \<Longrightarrow> length x = PBNS_REQUEST_ID_SIZE" and clear: "view_clear (storage_shape st0) body"
  shows "\<exists>i rs rec rest. (case rid of None \<Rightarrow> request_id_is_nonzero i | Some x \<Rightarrow> i = x) \<and>
    log' = log @ [Ev_open PBNS_OK, Ev_limits, Ev_send (wire_record (request_frame svc i) (v_bytes body)) PBNS_OK] @
      map (\<lambda>(bs, st). Ev_receive bs st) rs @ [Ev_close PBNS_OK] \<and>
    concat (map fst rs) = rec @ 0 # rest \<and> 0 \<notin> set rec \<and>
    cobs_destuff rec = Some (frame_raw (resp_frame r) (v_bytes (resp_payload r))) \<and> resp_frame r = response_frame svc i"
proof -
  have inv: "broker_inv (logged T) (logged_platform P) (\<lambda>_. True) (\<lambda>_. True) (storage_shape st0) (storage_clean st0) b (e, log)"
    by (rule any_env.broker_reach_inv [OF reach]) simp_all
  obtain i b1 e1 where s: "session_opening (storage_shape st0) i b1" "transport b1 = logged T" "platform b1 = logged_platform P" "length i = 16"
    "limits_are_valid (limits b1)" and id: "case rid of None \<Rightarrow> request_id_is_nonzero i | Some x \<Rightarrow> i = x" and svc: "service_is_valid svc"
    and ro: "request_opened qc residue b1 PBNS_OK svc body (Some zero_response) (e1, log @ [Ev_open PBNS_OK, Ev_limits]) = Some (PBNS_OK, b', Some r, (e', log'))"
    by (rule request_session [OF res inv rid])
  obtain b2 log2 where x: "log' = log2 @ [Ev_close PBNS_OK]"
    "stream b2 = the (pbns_stream_init (Some (stream b1)) svc i (of_nat (control_payload_max (limits b1))))"
    and rf: "response_from b2 ((log @ [Ev_open PBNS_OK, Ev_limits]) @ [Ev_send (wire_record (request_frame svc i) (v_bytes body)) PBNS_OK]) [] log2 b' r"
    using request_opened_exchange [OF ro s clear] by (auto simp: wire_record_def request_frame_def)
  from rf obtain f p s1 rest rs rec where log2: "log2 = ((log @ [Ev_open PBNS_OK, Ev_limits]) @
      [Ev_send (wire_record (request_frame svc i) (v_bytes body)) PBNS_OK]) @ recv_log rs"
    and w: "concat (map fst rs) = rec @ 0 # rest" "0 \<notin> set rec" "cobs_destuff rec = Some (frame_raw f p)"
    and t: "f_type f = PBNS_MESSAGE_RESPONSE" "pbns_stream_accept (Some (stream b2)) (Some f) \<lparr>v_ptr = 1, v_bytes = p\<rparr> = (PBNS_OK, s1)"
      "r = \<lparr>resp_frame = f, resp_payload = \<lparr>v_ptr = b_ptr (decoded (storage b')), v_bytes = p\<rparr>\<rparr>" "length (f_request_id f) = 16"
    unfolding response_from_def arrived_def frame_ok_def by auto
  have "f = response_frame svc i"
    using t svc s(4) by (auto simp: x(2) pbns_stream_accept_def pbns_stream_init_def zero_stream_def Let_def fail_stream_def
        request_ids_match_iff response_frame_def view_is_valid_def split: if_splits prod.splits intro!: pbns_frame.equality)
  with id x(1) log2 w t(3) show ?thesis
    by (intro exI [of _ i] exI [of _ rs] exI [of _ rec] exI [of _ rest]) (simp add: recv_log_def)
qed

theorem broker_request_exchange_witness:
  "\<exists>(b :: (bytes \<times> transport_event list) pbns_broker) b' r e' log' i rs rec rest.
     broker_request example_qcbor (\<lambda>_ m. m) (Some b) PBNS_SERVICE_TRUSTED_TIME (Some example_id) example_body 5 (Some zero_response) ([], []) =
       Some (PBNS_OK, Some b', Some r, (e', log')) \<and>
     log' = [Ev_open PBNS_OK, Ev_limits, Ev_send (wire_record (request_frame PBNS_SERVICE_TRUSTED_TIME i) [9]) PBNS_OK] @
       map (\<lambda>(bs, st). Ev_receive bs st) rs @ [Ev_close PBNS_OK] \<and> concat (map fst rs) = rec @ 0 # rest"
proof -
  obtain b where reach: "broker_reach example_qcbor (\<lambda>_ m. m) (logged example_peer) (logged_platform example_clock) example_room same_log ([], []) b ([], [])"
    and "\<not> opened b" using example_started [OF example_callbacks(2,4)] by blast
  moreover have inv: "broker_inv (logged example_peer) (logged_platform example_clock) (\<lambda>_. True) (\<lambda>_. True) (storage_shape example_room)
      (storage_clean example_room) b ([], [])"
    by (rule any_env.broker_reach_inv [OF reach]) simp_all
  moreover have "shape_valid (storage_shape example_room)" using example_room_valid by (auto simp: shape_valid_def)
  ultimately obtain b' r e' log' where res: "broker_request example_qcbor (\<lambda>_ m. m) (Some b) PBNS_SERVICE_TRUSTED_TIME (Some example_id) example_body 5
      (Some zero_response) ([], []) = Some (PBNS_OK, Some b', Some r, (e', log'))"
    using request_answered [OF inv _ _ example_args example_fits example_peer_answers(4,2,5)] by (metis fst_conv prod.collapse)
  have "view_clear (storage_shape example_room) example_body" using example_fits by (simp add: exchange_fits_def)
  from broker_request_exchange [OF reach res _ this] example_args(2)
  obtain i rs rec rest where "log' = [Ev_open PBNS_OK, Ev_limits, Ev_send (wire_record (request_frame PBNS_SERVICE_TRUSTED_TIME i) [9]) PBNS_OK] @
       map (\<lambda>(bs, st). Ev_receive bs st) rs @ [Ev_close PBNS_OK]" "concat (map fst rs) = rec @ 0 # rest"
    by (auto simp: example_body_def)
  with res show ?thesis by blast
qed

text \<open>C4:
  Delivery.  A request on an idle broker, over a connection that works (\<open>peer_answers\<close>: opens,
  sends, reports acceptable limits, and delivers the bytes on their way in chunks of any positive
  size) within the time allowed (\<open>clock_within\<close>), to a peer whose answer to the request record is
  the response record with payload \<open>p\<close>, returns: with status OK, the RESPONSE frame and \<open>p\<close>,
  provided both messages fit the limits and the buffers (\<open>exchange_fits\<close>).
\<close>

theorem broker_request_delivers:
  assumes reach: "broker_reach qc residue T P st0 idle e0 b e" and closed: "\<not> opened b"
    and args: "service_is_valid svc" "length rid = PBNS_REQUEST_ID_SIZE" "request_id_is_nonzero rid"
    and fits: "exchange_fits (storage_shape st0) lim svc rid body p"
    and env: "clock_within P incoming t0 ms" "peer_answers T incoming lim answer" "limits_accepted lim"
    and peer: "incoming e = []" "answer (wire_record (request_frame svc rid) (v_bytes body)) = wire_record (response_frame svc rid) p"
  shows "\<exists>b' r e'. pbns_broker_request_with_id qc residue (Some b) svc (Some rid) body ms (Some r0) e = Some (PBNS_OK, Some b', Some r, e') \<and>
    resp_frame r = response_frame svc rid \<and> v_bytes (resp_payload r) = p"
proof -
  have "broker_inv T P (\<lambda>_. True) (\<lambda>_. True) (storage_shape st0) (storage_clean st0) b e"
    by (rule any_env.broker_reach_inv [OF reach]) simp_all
  moreover have "shape_valid (storage_shape st0)" using broker_reach_storage [OF reach] by (auto simp: shape_valid_def)
  moreover have "length rid = 16" using args(2) by simp
  ultimately show ?thesis
    using request_answered [OF _ closed _ args(1) _ args(3) fits env peer, of "storage_clean st0" qc residue r0]
    by (simp add: pbns_broker_request_with_id_def)
qed

theorem broker_request_delivers_witness:
  "\<exists>b b' r e'. pbns_broker_request_with_id example_qcbor (\<lambda>_ m. m) (Some b) PBNS_SERVICE_TRUSTED_TIME (Some example_id) example_body 5
       (Some zero_response) [] = Some (PBNS_OK, Some b', Some r, e' :: bytes) \<and> v_bytes (resp_payload r) = [1, 2]"
proof -
  obtain b where reach: "broker_reach example_qcbor (\<lambda>_ m. m) example_peer example_clock example_room (=) [] b []" and "\<not> opened b"
    using example_started [OF example_callbacks(1,3)] by blast
  have "length example_id = PBNS_REQUEST_ID_SIZE" using example_args(2) by simp
  from broker_request_delivers [OF reach \<open>\<not> opened b\<close> example_args(1) this example_args(3) example_fits example_peer_answers(3,1,5)]
  show ?thesis by blast
qed

end
