(* ===== verification/Broker_Timing.thy ===== *)
theory Broker_Timing
  imports Broker_Delivery
begin

text \<open>
  Time in the broker (\<open>src/core/broker.c\<close>): every loop that waits for the transport is bounded by
  the deadline of its session.
\<close>

subsection \<open>Progress of a receive loop\<close>

text \<open>
  Physical time: \<open>time\<close> measures the time that has passed, without a bound, in a unit of which
  \<open>k\<close> make a millisecond (femtoseconds, in \<open>uefi/Library/PbnsUefiPlatformLib/PbnsUefiClockMath.c\<close>).
  No call of the transport takes no time at all, although it may well return within the same
  millisecond (as the USB transport does when it has bytes staged).  Reading the clock does not
  turn time back, and a reading that succeeds is not more than \<open>lag\<close> and the truncation to whole
  milliseconds behind, up to the largest value of its type.  Nothing here stops a peer from
  keeping a receive loop busy for ever, with bytes of a record that has to be discarded or with
  nothing: only the deadline does.
\<close>

definition real_time :: "'e pbns_transport \<Rightarrow> 'e pbns_broker_platform \<Rightarrow> nat \<Rightarrow> nat \<Rightarrow> ('e \<Rightarrow> nat) \<Rightarrow> bool" where
  "real_time T P k lag time \<longleftrightarrow>
     0 < k \<and>
     (\<forall>e st now e'. the (p_monotonic_ms (the P)) e = (st, now, e') \<longrightarrow>
        time e \<le> time e' \<and> (st = PBNS_OK \<longrightarrow> min ((time e' - lag) div k) (2 ^ 64 - 1) \<le> unat now)) \<and>
     (\<forall>e buf ms st bs n e'. the (t_receive (the T)) e buf ms = (st, bs, n, e') \<longrightarrow> time e < time e')"

definition timed :: "'e pbns_transport \<Rightarrow> 'e pbns_broker_platform \<Rightarrow> u64 \<Rightarrow> 'e pbns_broker \<Rightarrow> bool" where
  "timed T P deadline b \<longleftrightarrow>
     transport b = T \<and> platform b = P \<and> deadline_ms b = deadline \<and> receive_length b \<le> b_cap (receive (storage b))"

text \<open>Twice the time left until the clock shows the deadline, plus one while bytes are pending.\<close>

definition time_left :: "nat \<Rightarrow> nat \<Rightarrow> ('e \<Rightarrow> nat) \<Rightarrow> 'e pbns_broker \<times> 'e \<Rightarrow> nat" where
  "time_left k lag time = (\<lambda>(b, e). 2 * (k * unat (deadline_ms b) + lag - time e) + (if receive_offset b < receive_length b then 1 else 0))"

lemma push_loop_blocks:
  "push_loop r input k = (PBNS_ERR_WOULD_BLOCK, r', n, ready, view) \<Longrightarrow> n = k + length input"
  by (induction r input k rule: push_loop.induct) (auto split: if_splits)

lemma receive_record_blocks:
  assumes "receive_record b = (Again, b')" and "timed T P d b"
  shows "timed T P d b'" "receive_length b' \<le> receive_offset b'"
proof -
  let ?in = "\<lparr>v_ptr = b_ptr (receive (storage b)) + receive_offset b,
         v_bytes = drop (receive_offset b) (take (receive_length b) (b_mem (receive (storage b))))\<rparr>"
  obtain st r n rd v where push: "pbns_record_reader_push (Some (reader b)) ?in (Some 0) (Some False) (Some null_view) = (st, r, n, rd, v)"
    by (metis prod_cases5)
  then have st: "st = PBNS_ERR_WOULD_BLOCK" and b': "b' = (set_encoded b (b_mem (r_storage (the r))))
      \<lparr>reader := the r, receive_offset := receive_offset b + the n\<rparr>"
    using assms(1) by (auto simp: receive_record_def Let_def split: if_splits prod.splits)
  have "the n = v_len ?in"
    using push push_loop_blocks [of "reader b" "v_bytes ?in" 0]
    by (auto simp: st pbns_record_reader_push_def Let_def split: if_splits prod.splits)
  then show "timed T P d b'" "receive_length b' \<le> receive_offset b'"
    using assms(2) by (auto simp: b' timed_def set_encoded_def)
qed

lemma receive_fill_ticks:
  assumes fill: "receive_fill b e = (res, b', e')" and b: "timed T P d b" and tick: "real_time T P k lag time" and res: "res = Again \<or> res = Got ()"
  shows "timed T P d b'"
    "receive_length b \<le> receive_offset b \<Longrightarrow> k * unat d + lag - time e' < k * unat d + lag - time e"
    "receive_offset b < receive_length b \<Longrightarrow> b' = b \<and> e' = e \<and> res = Got ()"
    "res = Again \<Longrightarrow> receive_length b' \<le> receive_offset b'"
proof -
  let ?b = "b\<lparr>receive_offset := 0, receive_length := 0\<rparr>"
  have "timed T P d b' \<and> k * unat d + lag - time e' < k * unat d + lag - time e \<and> (res = Again \<longrightarrow> receive_length b' \<le> receive_offset b')"
    if ge: "receive_length b \<le> receive_offset b"
  proof -
    obtain st now e1 where clk: "the (p_monotonic_ms (the P)) e = (st, now, e1)" by (metis prod_cases3)
    have t1: "time e \<le> time e1" "st = PBNS_OK \<longrightarrow> min ((time e1 - lag) div k) (2 ^ 64 - 1) \<le> unat now"
      using tick clk unfolding real_time_def by blast+
    obtain st0 ms e0 where rem: "remaining_timeout ?b (Some 0) e = (st0, ms, e0)" by (metis prod_cases3)
    have ok: "st0 = PBNS_OK" using fill ge res by (auto simp: receive_fill_def Let_def rem split: if_splits prod.splits)
    then have e0: "e0 = e1" "st = PBNS_OK" "now < d" using rem clk b by (auto simp: remaining_timeout_def Let_def timed_def split: if_splits)
    have "(time e1 - lag) div k < unat d" using e0(2,3) t1(2) unat_lt [of d] by (simp add: word_less_nat_alt min_def split: if_splits)
    then have "time e1 - lag < k * unat d" using tick by (simp add: real_time_def div_less_iff_less_mult mult.commute)
    then have due: "time e1 < k * unat d + lag" by simp
    obtain st2 bs n e2 where rcv: "the (t_receive (the T)) e1 ((receive (storage b))\<lparr>b_len := 0\<rparr>) (the ms) = (st2, bs, n, e2)"
      by (metis prod_cases4)
    have out: "e' = e2" "st2 = PBNS_OK \<or> st2 = PBNS_ERR_WOULD_BLOCK" "timed T P d b'" "res = Again \<longrightarrow> receive_length b' \<le> receive_offset b'"
      using fill ge res b
      by (auto simp: receive_fill_def Let_def rem ok e0 rcv timed_def set_receive_def split: if_splits)
    have "time e1 < time e2" using tick rcv unfolding real_time_def by blast
    with t1(1) due have "k * unat d + lag - time e2 < k * unat d + lag - time e" by simp
    with out show ?thesis by simp
  qed
  moreover have "b' = b \<and> e' = e \<and> res = Got ()" if "receive_offset b < receive_length b"
    using fill that by (simp add: receive_fill_def)
  ultimately show "timed T P d b'"
    "receive_length b \<le> receive_offset b \<Longrightarrow> k * unat d + lag - time e' < k * unat d + lag - time e"
    "receive_offset b < receive_length b \<Longrightarrow> b' = b \<and> e' = e \<and> res = Got ()"
    "res = Again \<Longrightarrow> receive_length b' \<le> receive_offset b'"
    using b by (cases "receive_offset b < receive_length b"; auto)+
qed

lemma receive_attempt_ticks:
  assumes b: "timed T P d b" and tick: "real_time T P k lag time" and fill: "receive_fill b e = (res, b1, e1)"
    and again: "res = Again \<and> b' = b1 \<or> res = Got () \<and> receive_record b1 = (Again, b')"
  shows "timed T P d b' \<and> time_left k lag time (b', e1) < time_left k lag time (b, e)"
proof -
  have res: "res = Again \<or> res = Got ()" using again by blast
  note f = receive_fill_ticks [OF fill b tick res]
  have b': "timed T P d b'" "receive_length b' \<le> receive_offset b'"
    using again f(1,4) receive_record_blocks [OF _ f(1)] by auto
  have "deadline_ms b = d" "deadline_ms b' = d" using b b' by (simp_all add: timed_def)
  with b' f(2,3) show ?thesis by (cases "receive_offset b < receive_length b") (auto simp: time_left_def)
qed

lemma session_loop_returns:
  assumes b: "timed T P d b" and tick: "real_time T P k lag time"
    and again: "\<And>b e b' e'. body (b, e) = Inl (b', e') \<Longrightarrow> \<exists>res b1. receive_fill b e = (res, b1, e') \<and>
      (res = Again \<and> b' = b1 \<or> res = Got () \<and> receive_record b1 = (Again, b'))"
  shows "loop body (b, e) \<noteq> None"
proof -
  have "\<exists>x. loop body (b, e) = Some x"
  proof (rule loop_total [where P = "\<lambda>(b, e). timed T P d b" and m = "time_left k lag time"])
    fix s s' assume s: "case s of (b, e) \<Rightarrow> timed T P d b" and step: "body s = Inl s'"
    obtain b1 e1 b2 e2 where x: "s = (b1, e1)" "s' = (b2, e2)" by fastforce
    obtain res b3 where "receive_fill b1 e1 = (res, b3, e2)" "res = Again \<and> b2 = b3 \<or> res = Got () \<and> receive_record b3 = (Again, b2)"
      using again step x by blast
    with receive_attempt_ticks [OF _ tick] s show "(case s' of (b, e) \<Rightarrow> timed T P d b) \<and> time_left k lag time s' < time_left k lag time s"
      unfolding x prod.case by blast
  qed (use b in simp)
  then show ?thesis by blast
qed

lemma receive_body_again:
  "receive_body qc residue (b, e) = Inl (b', e') \<Longrightarrow> \<exists>res b1. receive_fill b e = (res, b1, e') \<and>
     (res = Again \<and> b' = b1 \<or> res = Got () \<and> receive_record b1 = (Again, b'))"
  "bulk_receive_body qc residue (b, e) = Inl (b', e') \<Longrightarrow> \<exists>res b1. receive_fill b e = (res, b1, e') \<and>
     (res = Again \<and> b' = b1 \<or> res = Got () \<and> receive_record b1 = (Again, b'))"
  by (auto simp: receive_body_def bulk_receive_body_def Let_def split: prod.splits attempt.splits if_splits)

lemma broker_inv_timed:
  "broker_inv T P is_open is_closed sh c b e \<Longrightarrow> timed T P (deadline_ms b) b"
  by (simp add: broker_inv_def broker_wf_def timed_def)

lemma receive_returns:
  assumes "timed T P d b" and "real_time T P k lag time"
  shows "pbns_broker_receive qc residue (Some b) r e \<noteq> None" "pbns_broker_bulk_receive qc residue (Some b) r e \<noteq> None"
proof -
  have "loop (receive_body qc residue) (b, e) \<noteq> None" "loop (bulk_receive_body qc residue) (b, e) \<noteq> None"
    by (rule session_loop_returns [OF assms], erule receive_body_again)+
  then show "pbns_broker_receive qc residue (Some b) r e \<noteq> None" "pbns_broker_bulk_receive qc residue (Some b) r e \<noteq> None"
    by (simp_all add: pbns_broker_receive_def pbns_broker_bulk_receive_def Let_def del: not_None_eq)
qed

lemma request_returns:
  assumes inv: "broker_inv T P (\<lambda>_. True) (\<lambda>_. True) sh c b e" and tick: "real_time T P k lag time" and rid: "\<And>x. rid = Some x \<Longrightarrow> length x = 16"
  shows "broker_request qc residue (Some b) svc rid body ms r e \<noteq> None"
proof (cases "opened b \<or> active b")
  case True
  then show ?thesis by (auto simp: broker_request_def Let_def)
next
  case False
  then have closed: "\<not> opened b" by simp
  define b0 where "b0 = (fresh_session b)\<lparr>request_id := zero_request_id\<rparr>"
  have f: "broker_static sh b0" "\<not> opened b0" "\<not> active b0" "\<not> deadline_active b0" "idle_wf c b0" "transport b0 = T" "platform b0 = P"
    using any_env.fresh_session_inv [OF inv closed] by (simp_all add: b0_def)
  obtain st1 i e1 where rf: "request_id_for b0 rid e = (st1, i, e1)" by (metis prod_cases3)
  have i: "length i = 16" using rf rid by (auto simp: request_id_for_def Let_def zero_request_id_def split: option.splits prod.splits if_splits)
  note os = any_env.open_session_inv(2) [OF f TrueI any_env.wipe_undo]
  have ro: "request_opened qc residue b1 st svc body y e2 \<noteq> None"
    if "open_session (\<lambda>b. wipe_request_storage b False) b0 i ms e1 = Inr (st, b1, e2)" for st b1 e2 y
  proof -
    have o: "session_opening sh i b1" "transport b1 = T" "platform b1 = P" using os [OF _ _ that] by auto
    let ?f = "\<lparr>f_service = svc, f_type = PBNS_MESSAGE_REQUEST, f_flags = 0, f_request_id = i, f_sequence = 0\<rparr>"
    have id: "request_id b1 = i" using o(1) by (simp add: session_opening_def)
    obtain st3 b3 e3 where emit: "emit_frame b1 ?f (view_reload (storage b1) body) e2 = (st3, b3, e3)" by (metis prod_cases3)
    have "session_opening sh i b3 \<and> transport b3 = T \<and> platform b3 = P"
      using any_env.emit_opening [OF emit o(1) i _ o(2,3) TrueI] by simp
    then have "timed T P (deadline_ms b3) (request_active b3 svc)"
      by (simp add: timed_def request_active_def session_opening_def idle_wf_def)
    from receive_returns(1) [OF this tick, of qc residue y e3] show ?thesis
      unfolding request_opened_def Let_def id emit prod.case by (auto simp: request_active_def simp del: not_None_eq split: prod.splits option.splits)
  qed
  show ?thesis
    unfolding broker_request_def Let_def option.sel b0_def [symmetric] rf prod.case
    by (cases "open_session (\<lambda>b. wipe_request_storage b False) b0 i ms e1")
      (simp_all add: ro split: prod.splits del: not_None_eq)
qed

lemma upload_send_returns:
  assumes inv: "broker_inv T P (\<lambda>_. True) (\<lambda>_. True) sh c b e" and tick: "real_time T P k lag time"
  shows "pbns_broker_upload_send qc residue (Some b) p fin r e \<noteq> None"
proof (cases "initialized b \<and> active b")
  case False
  then show ?thesis by (auto simp: pbns_broker_upload_send_def Let_def)
next
  case True
  then have op: "opened b" using inv by (auto simp: broker_inv_def broker_wf_def)
  obtain st1 b1 e1 where em1: "upload_emit b PBNS_MESSAGE_DATA p (upload_next_sequence b) e = (st1, b1, e1)" by (metis prod_cases3)
  note i1 = any_env.upload_emit_inv [OF inv op em1]
  define b2 where "b2 = (if st1 = PBNS_OK then b1\<lparr>upload_next_sequence := upload_next_sequence b1 + 1\<rparr> else b1)"
  have i2: "broker_inv T P (\<lambda>_. True) (\<lambda>_. True) sh c b2 e1" "opened b2"
    using i1 any_env.broker_inv_flags(1) [OF i1(1,2)] by (simp_all add: b2_def)
  obtain st3 b3 e3 where em3: "(if st1 = PBNS_OK \<and> fin then upload_emit b2 PBNS_MESSAGE_COMPLETE null_view (upload_next_sequence b2) e1
      else (st1, b2, e1)) = (st3, b3, e3)" by (metis prod_cases3)
  have "broker_inv T P (\<lambda>_. True) (\<lambda>_. True) sh c b3 e3"
    using em3 i2(1) any_env.upload_emit_inv(1) [OF i2] by (auto split: if_splits)
  then have "timed T P (deadline_ms b3) (b3\<lparr>upload_mode := False\<rparr>)" using broker_inv_timed by (fastforce simp: timed_def)
  note rcv = receive_returns(1) [OF this tick, of qc residue _ e3]
  show ?thesis
    unfolding pbns_broker_upload_send_def Let_def option.sel em1 prod.case b2_def [symmetric] em3
    using rcv [of "clear_response r"] by (auto simp del: not_None_eq split: prod.splits option.splits)
qed

subsection \<open>Properties\<close>

text \<open>C5:
  Every operation of the broker that waits returns.  In any reachable state, whatever the peer
  sends and whatever statuses the transport gives, a receive, a bulk receive, a request and an
  upload record end after finitely many rounds: physical time passes during every round, and a
  round that starts when the clock has reached the deadline of the session fails.  Time itself
  has no end, so a loop that did not compare the clock with the deadline would not return here
  when the transport keeps answering that it would block.
\<close>

theorem broker_waits_end:
  assumes reach: "broker_reach qc residue T P st0 idle e0 b e" and tick: "real_time T P k lag time"
    and rid: "\<And>x. rid = Some x \<Longrightarrow> length x = PBNS_REQUEST_ID_SIZE"
  shows "(\<exists>x. pbns_broker_receive qc residue (Some b) r e = Some x) \<and> (\<exists>x. pbns_broker_bulk_receive qc residue (Some b) r e = Some x) \<and>
    (\<exists>x. broker_request qc residue (Some b) svc rid body ms r e = Some x) \<and>
    (\<exists>x. pbns_broker_upload_send qc residue (Some b) p fin r e = Some x)"
proof -
  have inv: "broker_inv T P (\<lambda>_. True) (\<lambda>_. True) (storage_shape st0) (storage_clean st0) b e"
    by (rule any_env.broker_reach_inv [OF reach]) simp_all
  from receive_returns [OF broker_inv_timed [OF inv] tick] request_returns [OF inv tick] upload_send_returns [OF inv tick] rid
  show ?thesis by simp
qed

text \<open>A transport that never has a byte; the clock of the example counts the receives, three in a millisecond.\<close>

definition example_ticking :: "nat pbns_transport" where
  "example_ticking = Some
     \<lparr>t_open = Some (\<lambda>e. (PBNS_OK, e)), t_close = Some (\<lambda>e. (PBNS_OK, e)), t_send = Some (\<lambda>e v ms. (PBNS_OK, e)),
      t_receive = Some (\<lambda>e buf ms. (PBNS_ERR_WOULD_BLOCK, [], 0, e + 1)),
      t_cancel = Some (\<lambda>e rid. (PBNS_OK, e)), t_limits = Some (\<lambda>e. (PBNS_OK, example_transport_limits, e))\<rparr>"

definition example_now :: "nat pbns_broker_platform" where
  "example_now = Some
     \<lparr>p_random = Some (\<lambda>e buf. (PBNS_OK, replicate 16 7, e)),
      p_monotonic_ms = Some (\<lambda>e. (PBNS_OK, of_nat (min (e div 3) (2 ^ 64 - 1)), e))\<rparr>"

theorem broker_waits_end_witness:
  "\<exists>b x. broker_reach example_qcbor (\<lambda>_ m. m) example_ticking example_now example_room (=) 3 b 3 \<and>
     broker_request example_qcbor (\<lambda>_ m. m) (Some b) PBNS_SERVICE_TRUSTED_TIME (Some example_id) example_body 5 (Some zero_response) 3 = Some x"
proof -
  have "transport_is_valid example_ticking" "platform_is_valid example_now"
    by (simp_all add: transport_is_valid_def platform_is_valid_def example_ticking_def example_now_def)
  then obtain b where reach: "broker_reach example_qcbor (\<lambda>_ m. m) example_ticking example_now example_room (=) 3 b 3"
    by (rule example_started)
  have "unat (of_nat (min (e div 3) (2 ^ 64 - 1)) :: u64) = min (e div 3) (2 ^ 64 - 1)" for e
    by (simp add: unat_of_nat min_def)
  then have "real_time example_ticking example_now 3 0 (\<lambda>e. e)"
    by (simp add: real_time_def example_ticking_def example_now_def)
  from broker_waits_end [OF reach this, of "Some example_id"] example_args(2) reach show ?thesis by auto
qed

end
