(* ===== verification/Broker_Transfers.thy ===== *)
theory Broker_Transfers
  imports Broker_Delivery
begin

text \<open>
  The longer transfers of the broker (\<open>src/core/broker.c\<close>): what a bulk transfer delivers, what an
  upload sends, and when a status is the remote side's.
\<close>

subsection \<open>Bulk transfers\<close>

text \<open>A change of the working memory of a broker only.\<close>

definition memory_step :: "'e pbns_broker \<Rightarrow> 'e pbns_broker \<Rightarrow> bool" where
  "memory_step b b' \<longleftrightarrow> (\<exists>st r n m. b' = b\<lparr>storage := st, reader := r, receive_offset := n, receive_length := m\<rparr>)"

lemma memory_stepI:
  "b' = b\<lparr>storage := storage b', reader := reader b', receive_offset := receive_offset b', receive_length := receive_length b'\<rparr> \<Longrightarrow> memory_step b b'"
  unfolding memory_step_def by blast

lemma memory_step_trans:
  assumes "memory_step b b1" and "memory_step b1 b2"
  shows "memory_step b b2"
proof -
  obtain st r n m st' r' n' m' where "b1 = b\<lparr>storage := st, reader := r, receive_offset := n, receive_length := m\<rparr>"
    and b2: "b2 = b1\<lparr>storage := st', reader := r', receive_offset := n', receive_length := m'\<rparr>"
    using assms unfolding memory_step_def by blast
  then have "b2 = b\<lparr>storage := st', reader := r', receive_offset := n', receive_length := m'\<rparr>" by simp
  then show ?thesis unfolding memory_step_def by blast
qed

lemma receive_fill_memory: "receive_fill b e = (res, b', e') \<Longrightarrow> memory_step b b'"
  by (rule memory_stepI) (auto simp: receive_fill_def set_receive_def Let_def split: if_splits prod.splits)

lemma receive_record_memory: "receive_record b = (res, b') \<Longrightarrow> memory_step b b'"
  by (rule memory_stepI) (auto simp: receive_record_def set_encoded_def set_raw_scratch_def Let_def split: if_splits prod.splits)

text \<open>What a delivered message has changed.\<close>

lemma bulk_deliver_OK:
  assumes "bulk_deliver qc residue b f v = (PBNS_OK, b', r)"
  shows "\<exists>s st. pbns_stream_accept (Some (stream b)) (Some f) v = (PBNS_OK, s) \<and> resp_frame r = f \<and> v_bytes (resp_payload r) = v_bytes v \<and>
    (f_type f = PBNS_MESSAGE_DATA \<and> v_bytes v \<noteq> [] \<and> \<not> bulk_received_data_size b > bulk_exact_data_size b \<and>
       \<not> of_nat (v_len v) > bulk_exact_data_size b - bulk_received_data_size b \<and>
       b' = b\<lparr>stream := the s, bulk_received_data_size := bulk_received_data_size b + of_nat (v_len v), storage := st\<rparr> \<or>
     f_type f = PBNS_MESSAGE_COMPLETE \<and> bulk_received_data_size b = bulk_exact_data_size b \<and> b' = b\<lparr>stream := the s, storage := st\<rparr>)"
proof -
  obtain st1 s where acc: "pbns_stream_accept (Some (stream b)) (Some f) v = (st1, s)" by (metis surj_pair)
  define b1 where "b1 = b\<lparr>stream := the s\<rparr>"
  define b2 where "b2 = b1\<lparr>bulk_received_data_size := bulk_received_data_size b1 + of_nat (v_len v)\<rparr>"
  obtain st3 b3 where rem: "decode_remote_error qc residue b1 v (service b1) = (st3, b3)" by (metis surj_pair)
  have rem': "st3 \<noteq> PBNS_OK" using decode_remote_error_not_OK [of qc residue b1 v "service b1"] rem by simp
  obtain st4 b4 r4 where sr4: "store_response b1 f v = (st4, b4, r4)" by (metis prod_cases3)
  obtain st5 b5 r5 where sr5: "store_response b2 f v = (st5, b5, r5)" by (metis prod_cases3)
  have store: "r1 = \<lparr>resp_frame = f, resp_payload = \<lparr>v_ptr = b_ptr (decoded (storage b1)), v_bytes = v_bytes v\<rparr>\<rparr> \<and> b1 = x\<lparr>storage := storage b1\<rparr>"
    if "store_response x f v = (PBNS_OK, b1, r1)" for x b1 :: "'a pbns_broker" and r1
  proof -
    have "b1 = set_decoded x (store_at (b_mem (decoded (storage x))) 0 (v_bytes v)) (v_len v)"
      using that by (simp add: store_response_def Let_def split: if_splits)
    with store_response_OK [OF that] show ?thesis by (simp add: set_decoded_def)
  qed
  have eqs: "bulk_received_data_size b1 = bulk_received_data_size b" "bulk_exact_data_size b1 = bulk_exact_data_size b" by (simp_all add: b1_def)
  have "st1 = PBNS_OK \<and>
      (f_type f = PBNS_MESSAGE_DATA \<and> v_bytes v \<noteq> [] \<and> \<not> bulk_received_data_size b > bulk_exact_data_size b \<and>
       \<not> of_nat (v_len v) > bulk_exact_data_size b - bulk_received_data_size b \<and> st5 = PBNS_OK \<and> b' = b5 \<and> r = r5 \<or>
       f_type f = PBNS_MESSAGE_COMPLETE \<and> bulk_received_data_size b = bulk_exact_data_size b \<and> st4 = PBNS_OK \<and> b' = b4 \<and> r = r4)"
    using assms rem'
    unfolding bulk_deliver_def acc prod.case Let_def fail_bulk_session_def b1_def [symmetric] rem b2_def [symmetric] sr4 sr5
    by (simp add: eqs split: if_splits)
  then consider "st1 = PBNS_OK" "f_type f = PBNS_MESSAGE_DATA" "v_bytes v \<noteq> []" "\<not> bulk_received_data_size b > bulk_exact_data_size b"
      "\<not> of_nat (v_len v) > bulk_exact_data_size b - bulk_received_data_size b" "st5 = PBNS_OK" "b' = b5" "r = r5"
    | "st1 = PBNS_OK" "f_type f = PBNS_MESSAGE_COMPLETE" "bulk_received_data_size b = bulk_exact_data_size b" "st4 = PBNS_OK" "b' = b4" "r = r4"
    by blast
  then show ?thesis
  proof cases
    case 1
    have st: "r = \<lparr>resp_frame = f, resp_payload = \<lparr>v_ptr = b_ptr (decoded (storage b')), v_bytes = v_bytes v\<rparr>\<rparr> \<and> b' = b2\<lparr>storage := storage b'\<rparr>"
      by (rule store [OF sr5 [unfolded 1(6), folded 1(7,8)]])
    then obtain sto where "b' = b2\<lparr>storage := sto\<rparr>" by blast
    then have "b' = b\<lparr>stream := the s, bulk_received_data_size := bulk_received_data_size b + of_nat (v_len v), storage := sto\<rparr>"
      by (simp add: b2_def b1_def)
    moreover have "resp_frame r = f" "v_bytes (resp_payload r) = v_bytes v" using st by simp_all
    ultimately show ?thesis using 1(1-5) acc by blast
  next
    case 2
    have st: "r = \<lparr>resp_frame = f, resp_payload = \<lparr>v_ptr = b_ptr (decoded (storage b')), v_bytes = v_bytes v\<rparr>\<rparr> \<and> b' = b1\<lparr>storage := storage b'\<rparr>"
      by (rule store [OF sr4 [unfolded 2(4), folded 2(5,6)]])
    then obtain sto where "b' = b1\<lparr>storage := sto\<rparr>" by blast
    then have "b' = b\<lparr>stream := the s, storage := sto\<rparr>" by (simp add: b1_def)
    moreover have "resp_frame r = f" "v_bytes (resp_payload r) = v_bytes v" using st by simp_all
    ultimately show ?thesis using 2(1-3) acc by blast
  qed
qed

lemma bulk_receive_OK:
  assumes "pbns_broker_bulk_receive qc residue (Some b) (Some r0) e = Some (PBNS_OK, Some b', Some r, e')"
  shows "\<exists>b1 f v. memory_step b b1 \<and> bulk_deliver qc residue b1 f v = (PBNS_OK, b', r)"
proof -
  have lp: "loop (bulk_receive_body qc residue) (b, e) = Some (PBNS_OK, b', r, e')"
    using assms by (auto simp: pbns_broker_bulk_receive_def clear_response_def Let_def split: if_splits)
  let ?done = "\<lambda>(st, b', r, e'). st = PBNS_OK \<longrightarrow> (\<exists>b1 f v. memory_step b b1 \<and> bulk_deliver qc residue b1 f v = (PBNS_OK, b', r))"
  have "?done (PBNS_OK, b', r, e')"
  proof (rule loop_partial [OF lp, of "\<lambda>(x, e). memory_step b x"])
    show "case (b, e) of (x, e) \<Rightarrow> memory_step b x" by (simp add: memory_stepI)
  next
    fix x y assume m: "case x of (x, e) \<Rightarrow> memory_step b x" and step: "bulk_receive_body qc residue x = Inl y"
    obtain b1 e1 where x: "x = (b1, e1)" by fastforce
    obtain res b2 e2 where fill: "receive_fill b1 e1 = (res, b2, e2)" by (metis prod_cases3)
    from step m receive_fill_memory [OF fill] receive_record_memory [of b2] show "case y of (x, e) \<Rightarrow> memory_step b x"
      unfolding x bulk_receive_body_def prod.case fill by (auto split: attempt.splits prod.splits intro: memory_step_trans)
  next
    fix x y assume m: "case x of (x, e) \<Rightarrow> memory_step b x" and step: "bulk_receive_body qc residue x = Inr y"
    obtain b1 e1 where x: "x = (b1, e1)" by fastforce
    obtain res b2 e2 where fill: "receive_fill b1 e1 = (res, b2, e2)" by (metis prod_cases3)
    have "fst (receive_fill b1 e1) \<noteq> Failed PBNS_OK" "fst (receive_record b2) \<noteq> Failed PBNS_OK"
      by (rule receive_fill_not_OK, rule receive_record_not_OK)
    with step m receive_fill_memory [OF fill] receive_record_memory [of b2] show "?done y"
      unfolding x bulk_receive_body_def prod.case fill fail_bulk_session_def
      by (auto split: attempt.splits prod.splits) (blast intro: memory_step_trans)
  qed
  then show ?thesis by simp
qed

text \<open>
  A bulk transfer as its client sees it: the payloads of the DATA messages delivered so far,
  whether the COMPLETE message has been delivered, and the number of acknowledgements sent.
\<close>

inductive bulk_trace ::
  "qcbor_decoder \<Rightarrow> (bytes \<Rightarrow> bytes \<Rightarrow> bytes) \<Rightarrow> 'e pbns_transport \<Rightarrow> 'e pbns_broker_platform \<Rightarrow> pbns_broker_storage \<Rightarrow>
   ('e \<Rightarrow> 'e \<Rightarrow> bool) \<Rightarrow> 'e \<Rightarrow> u64 \<Rightarrow> 'e pbns_broker \<Rightarrow> 'e \<Rightarrow> bytes list \<Rightarrow> bool \<Rightarrow> nat \<Rightarrow> bool"
  for qc :: qcbor_decoder and residue :: "bytes \<Rightarrow> bytes \<Rightarrow> bytes" and T :: "'e pbns_transport"
    and P :: "'e pbns_broker_platform" and st0 :: pbns_broker_storage and idle :: "'e \<Rightarrow> 'e \<Rightarrow> bool" and e0 :: 'e and exact :: u64 where
  started: "broker_reach qc residue T P st0 idle e0 b0 e \<Longrightarrow> length rid = PBNS_REQUEST_ID_SIZE \<Longrightarrow>
    pbns_broker_bulk_begin (Some b0) svc (Some rid) body exact ms e = (PBNS_OK, Some b, e') \<Longrightarrow>
    bulk_trace qc residue T P st0 idle e0 exact b e' [] False 0"
| data: "bulk_trace qc residue T P st0 idle e0 exact b e ds fin k \<Longrightarrow>
    pbns_broker_bulk_receive qc residue (Some b) (Some r0) e = Some (PBNS_OK, Some b', Some r, e') \<Longrightarrow>
    f_type (resp_frame r) = PBNS_MESSAGE_DATA \<Longrightarrow>
    bulk_trace qc residue T P st0 idle e0 exact b' e' (ds @ [v_bytes (resp_payload r)]) fin k"
| complete: "bulk_trace qc residue T P st0 idle e0 exact b e ds fin k \<Longrightarrow>
    pbns_broker_bulk_receive qc residue (Some b) (Some r0) e = Some (PBNS_OK, Some b', Some r, e') \<Longrightarrow>
    f_type (resp_frame r) \<noteq> PBNS_MESSAGE_DATA \<Longrightarrow> bulk_trace qc residue T P st0 idle e0 exact b' e' ds True k"
| ack: "bulk_trace qc residue T P st0 idle e0 exact b e ds fin k \<Longrightarrow>
    pbns_broker_bulk_ack stack (Some b) n w e = (PBNS_OK, Some b', e') \<Longrightarrow>
    bulk_trace qc residue T P st0 idle e0 exact b' e' ds fin (k + 1)"

definition bulk_state :: "u64 \<Rightarrow> 'e pbns_broker \<Rightarrow> bytes list \<Rightarrow> bool \<Rightarrow> nat \<Rightarrow> bool" where
  "bulk_state exact b ds fin k \<longleftrightarrow>
     bulk_exact_data_size b = exact \<and> unat (bulk_received_data_size b) = length (concat ds) \<and> length (concat ds) \<le> unat exact \<and>
     unat (s_next_sequence (stream b)) = length ds + (if fin then 1 else 0) \<and> s_complete (stream b) = fin \<and>
     (fin \<longrightarrow> length (concat ds) = unat exact) \<and> unat (bulk_next_ack_sequence b) = k \<and> 8 * k \<le> length ds \<and> [] \<notin> set ds"

lemma stream_accept_advances:
  assumes "pbns_stream_accept (Some s) (Some f) p = (PBNS_OK, s')"
  shows "\<not> s_complete s" "unat (s_next_sequence (the s')) = unat (s_next_sequence s) + 1" "s_complete (the s') = terminal_type (f_type f)"
    "f_sequence f = s_next_sequence s" "v_len p \<le> 65536"
proof -
  note d = stream_accept_OK_D [OF assms]
  then have "unat (s_next_sequence s + 1) = unat (s_next_sequence s) + 1" by (subst unat_add_nowrap) simp_all
  with d show "\<not> s_complete s" "unat (s_next_sequence (the s')) = unat (s_next_sequence s) + 1"
    "s_complete (the s') = terminal_type (f_type f)" "f_sequence f = s_next_sequence s" "v_len p \<le> 65536" by simp_all
qed

lemma bulk_state_received:
  assumes b: "bulk_state exact b ds fin k"
    and rcv: "pbns_broker_bulk_receive qc residue (Some b) (Some r0) e = Some (PBNS_OK, Some b', Some r, e')"
  shows "f_type (resp_frame r) = PBNS_MESSAGE_DATA \<Longrightarrow> bulk_state exact b' (ds @ [v_bytes (resp_payload r)]) fin k"
    and "f_type (resp_frame r) \<noteq> PBNS_MESSAGE_DATA \<Longrightarrow> bulk_state exact b' ds True k"
    and "unat (f_sequence (resp_frame r)) = length ds \<and> \<not> fin"
proof -
  obtain b1 f v where m: "memory_step b b1" and d: "bulk_deliver qc residue b1 f v = (PBNS_OK, b', r)" using bulk_receive_OK [OF rcv] by blast
  have b1: "bulk_state exact b1 ds fin k" using b m by (auto simp: bulk_state_def memory_step_def)
  obtain s st where acc: "pbns_stream_accept (Some (stream b1)) (Some f) v = (PBNS_OK, s)" and r: "resp_frame r = f" "v_bytes (resp_payload r) = v_bytes v"
    and out: "f_type f = PBNS_MESSAGE_DATA \<and> v_bytes v \<noteq> [] \<and> \<not> bulk_received_data_size b1 > bulk_exact_data_size b1 \<and>
       \<not> of_nat (v_len v) > bulk_exact_data_size b1 - bulk_received_data_size b1 \<and>
       b' = b1\<lparr>stream := the s, bulk_received_data_size := bulk_received_data_size b1 + of_nat (v_len v), storage := st\<rparr> \<or>
     f_type f = PBNS_MESSAGE_COMPLETE \<and> bulk_received_data_size b1 = bulk_exact_data_size b1 \<and> b' = b1\<lparr>stream := the s, storage := st\<rparr>"
    using bulk_deliver_OK [OF d] by blast
  note a = stream_accept_advances [OF acc]
  have fin: "\<not> fin" using a(1) b1 by (simp add: bulk_state_def)
  have len: "unat (of_nat (v_len v) :: u64) = v_len v" using a(5) by (simp add: unat_of_nat)
  show "unat (f_sequence (resp_frame r)) = length ds \<and> \<not> fin"
    using a(4) b1 fin r(1) by (simp add: bulk_state_def)
  show "bulk_state exact b' (ds @ [v_bytes (resp_payload r)]) fin k" if "f_type (resp_frame r) = PBNS_MESSAGE_DATA"
  proof -
    have o: "v_bytes v \<noteq> []" "\<not> bulk_received_data_size b1 > bulk_exact_data_size b1"
       "\<not> of_nat (v_len v) > bulk_exact_data_size b1 - bulk_received_data_size b1"
       "b' = b1\<lparr>stream := the s, bulk_received_data_size := bulk_received_data_size b1 + of_nat (v_len v), storage := st\<rparr>"
      using out that r(1) by auto
    note w = word_sub_add_le [OF o(2,3)]
    have "unat (bulk_received_data_size b1 + of_nat (v_len v)) \<le> unat exact" using w(2) b1 by (simp add: bulk_state_def word_le_nat_alt)
    with w(1) len b1 a(2,3) o(1,4) fin that r show ?thesis by (simp add: bulk_state_def)
  qed
  show "bulk_state exact b' ds True k" if "f_type (resp_frame r) \<noteq> PBNS_MESSAGE_DATA"
    using out that r(1) b1 a(2,3) fin by (auto simp: bulk_state_def)
qed

lemma bulk_ack_OK:
  assumes "pbns_broker_bulk_ack stack (Some b) n w e = (PBNS_OK, Some b', e')"
  shows "n = s_next_sequence (stream b)" "unat n = 8 * (unat (bulk_next_ack_sequence b) + 1)" "w = PBNS_BROKER_BULK_WINDOW"
    "unat (bulk_next_ack_sequence b') = unat (bulk_next_ack_sequence b) + 1" "\<not> s_complete (stream b)"
    "\<exists>st. b' = b\<lparr>storage := st, reader := reader b', bulk_next_ack_sequence := bulk_next_ack_sequence b'\<rparr>"
proof -
  let ?f = "\<lparr>f_service = service b, f_type = PBNS_MESSAGE_ACK, f_flags = 0, f_request_id = request_id b, f_sequence = bulk_next_ack_sequence b\<rparr>"
  let ?v = "\<lparr>v_ptr = stack, v_bytes = write_u32_be n @ write_u32_be w\<rparr>"
  obtain st1 ms e1 where rem: "remaining_timeout b (Some 0) e = (st1, ms, e1)" by (metis prod_cases3)
  obtain st2 b2 wr where enc: "broker_encode b ?f ?v = (st2, b2, wr)" by (metis prod_cases3)
  have g: "n = s_next_sequence (stream b)" "ucast n = (ucast (bulk_next_ack_sequence b) + 1) * (ucast PBNS_BROKER_BULK_WINDOW :: u64)"
    "w = PBNS_BROKER_BULK_WINDOW" "bulk_next_ack_sequence b \<noteq> - 1" "\<not> s_complete (stream b)"
    and b': "b' = b2\<lparr>bulk_next_ack_sequence := bulk_next_ack_sequence b2 + 1\<rparr>"
    using assms unfolding pbns_broker_bulk_ack_def Let_def option.sel rem prod.case enc
    by (auto simp: fail_bulk_session_def split: if_splits prod.splits)
  have "b2 = b\<lparr>storage := storage b2, reader := reader b2\<rparr>"
    using enc by (auto simp: broker_encode_def set_encoded_def set_raw_scratch_def split: prod.splits)
  then obtain s2 r2 where b2: "b2 = b\<lparr>storage := s2, reader := r2\<rparr>" by blast
  have ack: "unat (bulk_next_ack_sequence b + 1) = unat (bulk_next_ack_sequence b) + 1"
    using not_max_word [OF g(4)] by (subst unat_add_nowrap) simp_all
  show "n = s_next_sequence (stream b)" "w = PBNS_BROKER_BULK_WINDOW" "\<not> s_complete (stream b)" by (rule g)+
  show "unat (bulk_next_ack_sequence b') = unat (bulk_next_ack_sequence b) + 1" using ack by (simp add: b' b2)
  show "\<exists>st. b' = b\<lparr>storage := st, reader := reader b', bulk_next_ack_sequence := bulk_next_ack_sequence b'\<rparr>"
    by (rule exI [of _ s2]) (simp add: b' b2)
  have k: "unat (bulk_next_ack_sequence b) < 2 ^ 32" using unat_lt [of "bulk_next_ack_sequence b"] by simp
  then have "unat (ucast (bulk_next_ack_sequence b) + 1 :: u64) = unat (bulk_next_ack_sequence b) + 1" by (subst unat_add_nowrap) simp_all
  with k have "unat ((ucast (bulk_next_ack_sequence b) + 1) * 8 :: u64) = (unat (bulk_next_ack_sequence b) + 1) * 8"
    by (subst unat_mult_nowrap) simp_all
  with g(2) unat_ucast_u32 [of n] show "unat n = 8 * (unat (bulk_next_ack_sequence b) + 1)" by simp
qed

lemma bulk_state_acked:
  assumes b: "bulk_state exact b ds fin k" and ack: "pbns_broker_bulk_ack stack (Some b) n w e = (PBNS_OK, Some b', e')"
  shows "bulk_state exact b' ds fin (k + 1)"
proof -
  note a = bulk_ack_OK [OF ack]
  obtain st r m where b': "b' = b\<lparr>storage := st, reader := r, bulk_next_ack_sequence := m\<rparr>" using a(6) by blast
  have "\<not> fin" using a(5) b by (simp add: bulk_state_def)
  then have "8 * (k + 1) = length ds" using a(1,2) b by (simp add: bulk_state_def)
  with a(4) b show ?thesis by (simp add: bulk_state_def b')
qed

lemma bulk_begin_state:
  assumes reach: "broker_reach qc residue T P st0 idle e0 b0 e" and id: "length rid = PBNS_REQUEST_ID_SIZE"
    and res: "pbns_broker_bulk_begin (Some b0) svc (Some rid) body exact ms e = (PBNS_OK, Some b, e')"
  shows "bulk_state exact b [] False 0"
proof -
  have inv: "broker_inv T P (\<lambda>_. True) (\<lambda>_. True) (storage_shape st0) (storage_clean st0) b0 e"
    by (rule any_env.broker_reach_inv [OF reach]) simp_all
  let ?open = "open_session (\<lambda>b. wipe_request_storage b False) (fresh_session b0) rid ms e"
  have closed: "\<not> opened b0" using res by (auto simp: pbns_broker_bulk_begin_def Let_def split: if_splits)
  note f = any_env.fresh_session_inv [OF inv closed]
  note f = f(1-4) f(5) [of "storage_clean st0"] f(6,7)
  obtain st1 b1 e1 where op: "?open = Inr (st1, b1, e1)" and ro: "bulk_begin_opened b1 st1 svc body exact e1 = (PBNS_OK, b, e')"
    using res by (auto simp: pbns_broker_bulk_begin_def Let_def split: if_splits sum.splits prod.splits dest: open_session_Inl)
  have o: "session_opening (storage_shape st0) rid b1" "transport b1 = T" "platform b1 = P"
    using any_env.open_session_inv(2) [OF f TrueI any_env.wipe_undo op] by auto
  let ?f = "\<lparr>f_service = svc, f_type = PBNS_MESSAGE_REQUEST, f_flags = 0, f_request_id = request_id b1, f_sequence = 0\<rparr>"
  obtain st2 b2 e2 where emit: "emit_frame b1 ?f (view_reload (storage b1) body) e1 = (st2, b2, e2)" by (metis prod_cases3)
  have rid: "f_request_id ?f = rid" "length rid = 16" using o(1) id by (simp_all add: session_opening_def)
  note em = any_env.emit_opening [OF emit o(1) rid(2,1) o(2,3) TrueI]
  have d: "drop_session s x y \<noteq> (PBNS_OK, b, e')" if "s \<noteq> PBNS_OK" for s x y using that by (auto simp: drop_session_def split: prod.splits)
  have "b = b2\<lparr>service := svc, active := True, bulk_mode := True, bulk_exact_data_size := exact,
      stream := the (pbns_stream_init (Some (stream b2)) svc (request_id b2) (- 1))\<rparr>"
    and "s_initialized (the (pbns_stream_init (Some (stream b2)) svc (request_id b2) (- 1)))"
    using ro d [of st1] d [of PBNS_ERR_LIMIT] d [of st2] d [of PBNS_ERR_STATE]
    unfolding bulk_begin_opened_def Let_def emit prod.case by (auto split: if_splits)
  with em(1) show ?thesis
    by (auto simp: bulk_state_def session_opening_def idle_wf_def pbns_stream_init_def zero_stream_def split: if_splits)
qed

lemma bulk_trace_state:
  "bulk_trace qc residue T P st0 idle e0 exact b e ds fin k \<Longrightarrow> bulk_state exact b ds fin k"
proof (induction rule: bulk_trace.induct)
  case (started b0 e rid svc body ms b e')
  then show ?case by (rule bulk_begin_state)
next
  case (data b e ds fin k r0 b' r e')
  show ?case by (rule bulk_state_received(1) [OF data.IH data.hyps(2,3)])
next
  case (complete b e ds fin k r0 b' r e')
  show ?case by (rule bulk_state_received(2) [OF complete.IH complete.hyps(2,3)])
next
  case (ack b e ds fin k stack n w b' e')
  show ?case by (rule bulk_state_acked [OF ack.IH ack.hyps(2)])
qed

lemma emit_request_answered:
  assumes b: "broker_static sh b" "transport b = T" "platform b = P" "in_time t0 ms b" and sh: "shape_valid sh"
    and args: "service_is_valid svc" "length rid = 16" "view_is_valid body" "view_clear sh body"
    and fits: "v_len body \<le> control_payload_max (effective_limits sh lim)" "frame_wire_max (v_len body) \<le> snd (sh ! 0)"
    and env: "clock_within P incoming t0 ms" "peer_answers T incoming lim answer" "limits_accepted lim"
  shows "\<exists>b' e'. emit_frame b (request_frame svc rid) (view_reload (storage b) body) e = (PBNS_OK, b', e')"
proof -
  have "storage_shape (storage b) = sh" using b(1) by (simp add: broker_static_def)
  then have body: "view_reload (storage b) body = body" using view_reload_clear args(4) by metis
  note room = effective_limits_room [OF shape_valid_raw [OF sh] effective_limits_valid [OF env(3)]]
  have fq: "frame_ok 65536 16384 (request_frame svc rid) (v_bytes body)"
    by (rule exchange_frames_ok [OF args(2,1)]) (use fits(1) room(1) in simp)
  have caps: "40 + v_len body \<le> b_cap (raw_scratch (storage b))" "frame_wire_max (v_len body) \<le> b_cap (encoded (storage b))"
    using static_caps [OF b(1)] fits(1,2) room(2) by simp_all
  show ?thesis using emit_frame_answered [OF b(1) sh fq args(3,4) caps b(2-4) env(1,2), of e] unfolding body by blast
qed

lemma bulk_begin_answered:
  assumes inv: "broker_inv T P (\<lambda>_. True) (\<lambda>_. True) sh c b e" "\<not> opened b" and sh: "shape_valid sh"
    and args: "service_is_valid svc" "length rid = 16" "request_id_is_nonzero rid" "exact \<noteq> 0" "view_is_valid body" "view_clear sh body"
    and fits: "v_len body \<le> control_payload_max (effective_limits sh lim)" "frame_wire_max (v_len body) \<le> snd (sh ! 0)"
      "0 < data_payload_max (effective_limits sh lim)"
      "exact \<le> of_nat (data_payload_max (effective_limits sh lim)) * (ucast (- 1 :: u32) - 1)"
    and env: "clock_within P incoming t0 ms" "peer_answers T incoming lim answer" "limits_accepted lim"
  shows "\<exists>b' e'. pbns_broker_bulk_begin (Some b) svc (Some rid) body exact ms e = (PBNS_OK, Some b', e')"
proof -
  have f: "broker_static sh (fresh_session b)" "\<not> opened (fresh_session b)" "\<not> active (fresh_session b)" "\<not> deadline_active (fresh_session b)"
    "idle_wf c (fresh_session b)" "transport (fresh_session b) = T" "platform (fresh_session b) = P"
    using any_env.fresh_session_inv [OF inv] by simp_all
  obtain b1 e1 where open1: "open_session (\<lambda>b. wipe_request_storage b False) (fresh_session b) rid ms e = Inr (PBNS_OK, b1, e1)"
    and b1: "limits b1 = effective_limits sh lim" "in_time t0 ms b1"
    using open_session_answered [OF f(1,6,7) sh env] by blast
  have o1: "session_opening sh rid b1" "transport b1 = T" "platform b1 = P"
    using any_env.open_session_inv(2) [OF f TrueI any_env.wipe_undo open1] by auto
  have s1: "broker_static sh b1" "request_id b1 = rid" using o1(1) by (auto simp: session_opening_def)
  obtain b2 e2 where emit: "emit_frame b1 (request_frame svc rid) (view_reload (storage b1) body) e1 = (PBNS_OK, b2, e2)"
    using emit_request_answered [OF s1(1) o1(2,3) b1(2) sh args(1,2,5,6) fits(1,2) env] by blast
  have "ms \<noteq> 0" using env(1) unfolding clock_within_def by (metis add.right_neutral leD unat_0 word_less_nat_alt)
  moreover have "initialized b" "\<not> active b" using inv by (auto simp: broker_inv_def broker_wf_def broker_static_def)
  moreover have "\<exists>b'. bulk_begin_opened b1 PBNS_OK svc body exact e1 = (PBNS_OK, b', e2)"
    using fits(1-3) emit args(1) unfolding bulk_begin_opened_def request_frame_def s1(2) b1(1)
    by (simp add: pbns_stream_init_def leD [OF fits(4)])
  ultimately show ?thesis
    using args inv(2) open1 by (auto simp: pbns_broker_bulk_begin_def Let_def)
qed

subsection \<open>Properties of bulk transfers\<close>

text \<open>C6:
  A bulk transfer delivers exactly the announced bytes.  At any point of a transfer the payloads
  delivered are not empty and together at most the announced size; each message carries the next
  sequence number; acknowledgement number \<open>k + 1\<close> is only sent when \<open>8 (k + 1)\<close> DATA messages have
  been delivered; and the transfer can only be finished after a COMPLETE message, when the
  payloads are together exactly as long as announced.
\<close>

theorem bulk_transfer_exact:
  assumes trace: "bulk_trace qc residue T P st0 idle e0 exact b e ds fin k"
  shows "length (concat ds) \<le> unat exact \<and> [] \<notin> set ds \<and> 8 * k \<le> length ds \<and> (fin \<longrightarrow> length (concat ds) = unat exact) \<and>
    (\<forall>r0 b' r e'. pbns_broker_bulk_receive qc residue (Some b) (Some r0) e = Some (PBNS_OK, Some b', Some r, e') \<longrightarrow>
       \<not> fin \<and> unat (f_sequence (resp_frame r)) = length ds) \<and>
    (\<forall>stack n w b' e'. pbns_broker_bulk_ack stack (Some b) n w e = (PBNS_OK, Some b', e') \<longrightarrow> length ds = 8 * (k + 1) \<and> w = 8) \<and>
    (\<forall>b' e'. pbns_broker_bulk_finish (Some b) e = (PBNS_OK, b', e') \<longrightarrow> fin \<and> length (concat ds) = unat exact)"
proof -
  note st = bulk_trace_state [OF trace]
  have "length ds = 8 * (k + 1) \<and> w = 8" if "pbns_broker_bulk_ack stack (Some b) n w e = (PBNS_OK, Some b', e')" for stack n w b' e'
    using bulk_ack_OK(1,2,3,5) [OF that] st by (auto simp: bulk_state_def)
  moreover have "fin" if "pbns_broker_bulk_finish (Some b) e = (PBNS_OK, b', e')" for b' e'
    using that st by (auto simp: pbns_broker_bulk_finish_def Let_def bulk_state_def split: if_splits)
  ultimately show ?thesis
    using st bulk_state_received(3) [OF st] by (auto simp: bulk_state_def)
qed

theorem bulk_transfer_exact_witness:
  "\<exists>b e. bulk_trace example_qcbor (\<lambda>_ m. m) example_peer example_clock example_room (=) [] 10 b e [] False 0 \<and>
     (\<forall>b' e'. pbns_broker_bulk_finish (Some b) e \<noteq> (PBNS_OK, b', e'))"
proof -
  obtain b where reach: "broker_reach example_qcbor (\<lambda>_ m. m) example_peer example_clock example_room (=) [] b []" and closed: "\<not> opened b"
    using example_started [OF example_callbacks(1,3)] by blast
  have inv: "broker_inv example_peer example_clock (\<lambda>_. True) (\<lambda>_. True) (storage_shape example_room) (storage_clean example_room) b []"
    by (rule any_env.broker_reach_inv [OF reach]) simp_all
  have sh: "shape_valid (storage_shape example_room)" using example_room_valid by (auto simp: shape_valid_def)
  have lim: "data_payload_max (effective_limits (storage_shape example_room) example_transport_limits) = 4"
    by (simp add: effective_limits_def storage_shape_def example_room_def example_transport_limits_def)
  have "(10 :: u64) \<le> 4 * (ucast (- 1 :: u32) - 1)" by code_simp
  then obtain b' e' where "pbns_broker_bulk_begin (Some b) PBNS_SERVICE_TRUSTED_TIME (Some example_id) example_body 10 5 [] = (PBNS_OK, Some b', e')"
    using bulk_begin_answered [OF inv closed sh example_args _ _ _ _ _ _ _ example_peer_answers(3,1,5), of 10 example_body] example_fits lim
    unfolding exchange_fits_def by auto
  from bulk_trace.started [OF reach _ this] example_args(2)
  have tr: "bulk_trace example_qcbor (\<lambda>_ m. m) example_peer example_clock example_room (=) [] 10 b' e' [] False 0" by simp
  from bulk_transfer_exact [OF tr] tr show ?thesis by blast
qed

subsection \<open>Uploads\<close>

lemma upload_emit_sent:
  assumes inv: "broker_inv (logged T) (logged_platform P) (\<lambda>_. True) (\<lambda>_. True) sh c b (e, log)" and op: "opened b"
    and res: "upload_emit b t p k (e, log) = (PBNS_OK, b', (e', log'))"
  shows "log' = log @ [Ev_send (wire_record \<lparr>f_service = service b, f_type = t, f_flags = 0, f_request_id = request_id b, f_sequence = k\<rparr> (v_bytes p)) PBNS_OK]"
    "service b' = service b" "request_id b' = request_id b" "upload_next_sequence b' = upload_next_sequence b"
    "broker_inv (logged T) (logged_platform P) (\<lambda>_. True) (\<lambda>_. True) sh c b' (e', log')" "opened b'"
proof -
  note eff = any_env.upload_emit_inv [OF inv op res]
  from eff(3) obtain st r where b': "b' = b\<lparr>storage := st, reader := r\<rparr>" by blast
  have "broker_static sh b" "transport b = logged T" "platform b = logged_platform P" "length (request_id b) = 16"
    using inv op by (auto simp: broker_inv_def broker_wf_def session_wf_def)
  from emit_frame_logged(1) [OF res [unfolded upload_emit_def] _ this(1-3)] this(4)
  show "log' = log @ [Ev_send (wire_record \<lparr>f_service = service b, f_type = t, f_flags = 0, f_request_id = request_id b, f_sequence = k\<rparr> (v_bytes p)) PBNS_OK]"
    by (simp add: wire_record_def)
  show "service b' = service b" "request_id b' = request_id b" "upload_next_sequence b' = upload_next_sequence b" by (simp_all add: b')
  show "broker_inv (logged T) (logged_platform P) (\<lambda>_. True) (\<lambda>_. True) sh c b' (e', log')" "opened b'" by (rule eff(1), rule eff(2))
qed

lemma receive_fill_log:
  assumes "receive_fill b (e, log) = (res, b', (e', log'))" and "transport b = logged T" and "platform b = logged_platform P"
  shows "\<exists>rs. log' = log @ recv_log rs" "transport b' = logged T" "platform b' = logged_platform P"
proof -
  let ?b = "b\<lparr>receive_offset := 0, receive_length := 0\<rparr>"
  obtain st ms e1 log1 where rem: "remaining_timeout ?b (Some 0) (e, log) = (st, ms, (e1, log1))" by (metis prod_cases4)
  have l1: "log1 = log" by (rule remaining_timeout_logged [OF rem]) (simp add: assms(3))
  obtain st2 bs n e2 where rcv: "the (t_receive (the T)) e1 ((receive (storage b))\<lparr>b_len := 0\<rparr>) (the ms) = (st2, bs, n, e2)" by (metis prod_cases4)
  have "log' = log \<or> (\<exists>x y. log' = log @ [Ev_receive x y])"
    using assms(1,2) by (auto simp: receive_fill_def Let_def rem l1 rcv split: if_splits)
  then show "\<exists>rs. log' = log @ recv_log rs"
  proof
    assume "\<exists>x y. log' = log @ [Ev_receive x y]"
    then obtain x y where "log' = log @ recv_log [(x, y)]" by (auto simp: recv_log_def)
    then show ?thesis by blast
  qed (auto simp: recv_log_def intro: exI [of _ "[]"])
  from receive_fill_memory [OF assms(1)] assms(2,3) show "transport b' = logged T" "platform b' = logged_platform P"
    by (auto simp: memory_step_def)
qed

lemma receive_log:
  assumes "pbns_broker_receive qc residue (Some b) r (e, log) = Some (st, b', r', (e', log'))"
    and "transport b = logged T" and "platform b = logged_platform P"
  shows "\<exists>rs. log' = log @ recv_log rs"
proof (cases "r = None \<or> \<not> initialized b \<or> \<not> active b \<or> bulk_mode b")
  case True
  then have "log' = log @ recv_log []" using assms(1) by (auto simp: pbns_broker_receive_def Let_def clear_response_def recv_log_def split: if_splits)
  then show ?thesis by blast
next
  case False
  then obtain b1 r1 where lp: "loop (receive_body qc residue) (b, (e, log)) = Some (st, b1, r1, (e', log'))"
    using assms(1) by (auto simp: pbns_broker_receive_def Let_def clear_response_def)
  let ?I = "\<lambda>(b, (e, l)). transport b = logged T \<and> platform b = logged_platform P \<and> (\<exists>rs. l = log @ recv_log rs)"
  have app: "recv_log rs @ recv_log rs' = recv_log (rs @ rs')" for rs rs' by (simp add: recv_log_def)
  have step: "transport b2 = logged T \<and> platform b2 = logged_platform P \<and> (\<exists>rs. l2 = log @ recv_log rs)"
    if "?I (b1, (e1, l1))" "receive_fill b1 (e1, l1) = (res, b2, (e2, l2))" for b1 e1 l1 res b2 e2 l2
  proof -
    have b1: "transport b1 = logged T" "platform b1 = logged_platform P" and "\<exists>rs. l1 = log @ recv_log rs" using that(1) by auto
    note f = receive_fill_log [OF that(2) b1]
    with \<open>\<exists>rs. l1 = log @ recv_log rs\<close> app show ?thesis by (metis append.assoc)
  qed
  have rec: "transport b3 = transport b2 \<and> platform b3 = platform b2" if "receive_record b2 = (res, b3)" for res b2 b3
    using receive_record_memory [OF that] by (auto simp: memory_step_def)
  have "(\<lambda>(st, b1, r1, (e', l')). \<exists>rs. l' = log @ recv_log rs) (st, b1, r1, (e', log'))"
  proof (rule loop_partial [OF lp, of ?I])
    show "?I (b, (e, log))" using assms(2,3) by (auto simp: recv_log_def intro: exI [of _ "[]"])
  next
    fix x y assume I: "?I x" and body: "receive_body qc residue x = Inl y"
    obtain b1 e1 l1 where x: "x = (b1, (e1, l1))" by (metis surj_pair)
    obtain res b2 e2 l2 where fill: "receive_fill b1 (e1, l1) = (res, b2, (e2, l2))" by (metis prod_cases4)
    from step [OF I [unfolded x] fill] rec [of b2] body show "?I y"
      unfolding x receive_body_def prod.case fill by (auto simp: Let_def split: attempt.splits prod.splits if_splits)
  next
    fix x y assume I: "?I x" and body: "receive_body qc residue x = Inr y"
    obtain b1 e1 l1 where x: "x = (b1, (e1, l1))" by (metis surj_pair)
    obtain res b2 e2 l2 where fill: "receive_fill b1 (e1, l1) = (res, b2, (e2, l2))" by (metis prod_cases4)
    from step [OF I [unfolded x] fill] body show "(\<lambda>(st, b1, r1, (e', l')). \<exists>rs. l' = log @ recv_log rs) y"
      unfolding x receive_body_def prod.case fill by (auto simp: Let_def split: attempt.splits prod.splits if_splits)
  qed
  then show ?thesis by simp
qed

text \<open>An upload: the payloads accepted so far, and whether the last of them was marked final.\<close>

inductive upload_trace ::
  "qcbor_decoder \<Rightarrow> (bytes \<Rightarrow> bytes \<Rightarrow> bytes) \<Rightarrow> 'e pbns_transport \<Rightarrow> 'e pbns_broker_platform \<Rightarrow> pbns_broker_storage \<Rightarrow> 'e \<Rightarrow>
   transport_event list \<Rightarrow> pbns_service_id \<Rightarrow> pbns_request_id \<Rightarrow> bytes \<Rightarrow> ('e \<times> transport_event list) pbns_broker \<Rightarrow> 'e \<Rightarrow>
   transport_event list \<Rightarrow> bytes list \<Rightarrow> bool \<Rightarrow> bool"
  for qc :: qcbor_decoder and residue :: "bytes \<Rightarrow> bytes \<Rightarrow> bytes" and T :: "'e pbns_transport" and P :: "'e pbns_broker_platform"
    and st0 :: pbns_broker_storage and e0 :: 'e and log0 :: "transport_event list" and svc :: pbns_service_id and rid :: pbns_request_id
    and body :: bytes where
  started: "broker_reach qc residue (logged T) (logged_platform P) st0 same_log (e0, []) b0 (e, log0) \<Longrightarrow>
    length rid = PBNS_REQUEST_ID_SIZE \<Longrightarrow> view_clear (storage_shape st0) v \<Longrightarrow> v_bytes v = body \<Longrightarrow>
    pbns_broker_upload_begin (Some b0) svc (Some rid) v ms (e, log0) = (PBNS_OK, Some b, (e', log)) \<Longrightarrow>
    upload_trace qc residue T P st0 e0 log0 svc rid body b e' log [] False"
| sent: "upload_trace qc residue T P st0 e0 log0 svc rid body b e log ds False \<Longrightarrow>
    pbns_broker_upload_send qc residue (Some b) p final (Some r0) (e, log) = Some (PBNS_OK, Some b', r, (e', log')) \<Longrightarrow>
    upload_trace qc residue T P st0 e0 log0 svc rid body b' e' log' (ds @ [v_bytes p]) final"

text \<open>The records that the payloads of an upload make.\<close>

definition upload_records :: "pbns_service_id \<Rightarrow> pbns_request_id \<Rightarrow> bytes \<Rightarrow> bytes list \<Rightarrow> bool \<Rightarrow> bytes list" where
  "upload_records svc rid body ds final =
     (let frame = (\<lambda>t k. \<lparr>f_service = svc, f_type = t, f_flags = 0, f_request_id = rid, f_sequence = of_nat k\<rparr>)
      in wire_record (frame PBNS_MESSAGE_REQUEST 0) body #
         map (\<lambda>(k, d). wire_record (frame PBNS_MESSAGE_DATA k) d) (enumerate 0 ds) @
         (if final then [wire_record (frame PBNS_MESSAGE_COMPLETE (length ds)) []] else []))"

lemma upload_begin_sent:
  assumes inv: "broker_inv (logged T) (logged_platform P) (\<lambda>_. True) (\<lambda>_. True) sh c b0 (e, log0)" and id: "length rid = 16"
    and clear: "view_clear sh v"
    and res: "pbns_broker_upload_begin (Some b0) svc (Some rid) v ms (e, log0) = (PBNS_OK, Some b, (e', log))"
  shows "log = log0 @ [Ev_open PBNS_OK, Ev_limits] @ map (\<lambda>x. Ev_send x PBNS_OK) (upload_records svc rid (v_bytes v) [] False) \<and>
    service b = svc \<and> request_id b = rid \<and> upload_next_sequence b = 0 \<and> opened b"
proof -
  have closed: "\<not> opened b0" using res by (auto simp: pbns_broker_upload_begin_def Let_def split: if_splits)
  note f = any_env.fresh_session_inv [OF inv closed]
  note f = f(1-4) f(5) [of c] f(6,7)
  obtain st1 b1 e1 log1 where op: "open_session (\<lambda>b. b) (fresh_session b0) rid ms (e, log0) = Inr (st1, b1, (e1, log1))"
    and ro: "upload_begin_opened b1 st1 svc rid v (e1, log1) = (PBNS_OK, b, (e', log))"
    using res by (auto simp: pbns_broker_upload_begin_def Let_def split: if_splits sum.splits prod.splits dest: open_session_Inl)
  have o: "session_opening sh rid b1" "transport b1 = logged T" "platform b1 = logged_platform P"
    using any_env.open_session_inv(2) [OF f TrueI _ op] by auto
  define b2 where "b2 = b1\<lparr>service := svc, upload_mode := True, upload_next_sequence := 0,
    stream := the (pbns_stream_init (Some (stream b1)) svc rid (of_nat (control_payload_max (limits b1)))), active := True\<rparr>"
  have s2: "broker_static sh b2" "transport b2 = logged T" "platform b2 = logged_platform P" "storage_shape (storage b2) = sh" "opened b2"
    using o by (simp_all add: b2_def session_opening_def broker_static_def)
  let ?f = "\<lparr>f_service = svc, f_type = PBNS_MESSAGE_REQUEST, f_flags = 0, f_request_id = rid, f_sequence = 0\<rparr>"
  obtain st3 b3 e3 log3 where emit: "emit_frame b2 ?f (view_reload (storage b2) v) (e1, log1) = (st3, b3, (e3, log3))" by (metis prod_cases4)
  have d: "drop_session s x y \<noteq> (PBNS_OK, b, (e', log))" "abort_upload_session x s y \<noteq> (PBNS_OK, b, (e', log))" if "s \<noteq> PBNS_OK" for s x y
    using that by (auto simp: drop_session_def abort_upload_session_def split: prod.splits if_splits)
  have ok: "st1 = PBNS_OK" "st3 = PBNS_OK" "b = b3" "log = log3"
    using ro d(1) [of st1] d(1) [of PBNS_ERR_LIMIT] d(1) [of PBNS_ERR_STATE] d(2) [of st3] emit
    unfolding upload_begin_opened_def Let_def b2_def by (auto split: if_splits)
  have "log1 = log0 @ [Ev_open PBNS_OK, Ev_limits]" by (rule open_session_logged [OF op [unfolded ok(1)] f(6,7)])
  moreover have "view_reload (storage b2) v = v" using view_reload_clear clear s2(4) by metis
  moreover have "b3 = b2\<lparr>storage := storage b3, reader := reader b3\<rparr>" using any_env.emit_frame_inv [OF emit _ s2(1-3) TrueI] id by simp
  then obtain s3 r3 where "b3 = b2\<lparr>storage := s3, reader := r3\<rparr>" by blast
  ultimately show ?thesis
    using emit_frame_logged(1) [OF emit [unfolded ok(2)] _ s2(1-3)] id ok(3,4) o(1)
    by (simp add: upload_records_def wire_record_def b2_def session_opening_def)
qed

lemma upload_records_snoc:
  "upload_records svc rid body (ds @ [d]) False = upload_records svc rid body ds False @
     [wire_record \<lparr>f_service = svc, f_type = PBNS_MESSAGE_DATA, f_flags = 0, f_request_id = rid, f_sequence = of_nat (length ds)\<rparr> d]"
  "upload_records svc rid body ds True = upload_records svc rid body ds False @
     [wire_record \<lparr>f_service = svc, f_type = PBNS_MESSAGE_COMPLETE, f_flags = 0, f_request_id = rid, f_sequence = of_nat (length ds)\<rparr> []]"
  by (simp_all add: upload_records_def Let_def enumerate_append_eq)

lemma upload_send_sent:
  assumes inv: "broker_inv (logged T) (logged_platform P) (\<lambda>_. True) (\<lambda>_. True) sh c b (e, log)"
    and seq: "upload_next_sequence b = of_nat (length ds)"
    and res: "pbns_broker_upload_send qc residue (Some b) p final (Some r0) (e, log) = Some (PBNS_OK, Some b', r, (e', log'))"
  defines "frame \<equiv> (\<lambda>t k. \<lparr>f_service = service b, f_type = t, f_flags = 0, f_request_id = request_id b, f_sequence = of_nat k\<rparr>)"
  shows "\<exists>rs. log' = log @ [Ev_send (wire_record (frame PBNS_MESSAGE_DATA (length ds)) (v_bytes p)) PBNS_OK] @
      (if final then Ev_send (wire_record (frame PBNS_MESSAGE_COMPLETE (length ds + 1)) []) PBNS_OK # recv_log rs else [])"
    and "\<not> final \<Longrightarrow> service b' = service b \<and> request_id b' = request_id b \<and> upload_next_sequence b' = of_nat (length ds + 1)"
proof -
  have op: "opened b" using inv res by (auto simp: pbns_broker_upload_send_def Let_def clear_response_def broker_inv_def broker_wf_def split: if_splits)
  have ab: "(case abort_upload_session x s y of (status, b, e) \<Rightarrow> Some (status, Some b, Some zero_response, e)) \<noteq> Some (PBNS_OK, Some b', r, (e', log'))"
    if "s \<noteq> PBNS_OK" for x s y
    using that by (auto simp: drop_session_def abort_upload_session_def split: prod.splits if_splits)
  obtain st1 b1 e1 log1 where em1: "upload_emit b PBNS_MESSAGE_DATA p (upload_next_sequence b) (e, log) = (st1, b1, (e1, log1))" by (metis prod_cases4)
  define b2 where "b2 = b1\<lparr>upload_next_sequence := upload_next_sequence b1 + 1\<rparr>"
  obtain st3 b3 e3 log3 where em3: "upload_emit b2 PBNS_MESSAGE_COMPLETE null_view (upload_next_sequence b2) (e1, log1) = (st3, b3, (e3, log3))" by (metis prod_cases4)
  have out: "st1 = PBNS_OK \<and> (if final then st3 = PBNS_OK \<and>
      (\<exists>x b4. pbns_broker_receive qc residue (Some (b3\<lparr>upload_mode := False\<rparr>)) x (e3, log3) = Some (PBNS_OK, b4, r, (e', log')))
      else b' = b2 \<and> (e', log') = (e1, log1))"
    using res ab unfolding pbns_broker_upload_send_def Let_def option.sel em1 prod.case
    by (auto simp: b2_def [symmetric] em3 split: if_splits option.splits) blast
  note s1 = upload_emit_sent [OF inv op em1 [unfolded conjunct1 [OF out]]]
  have i2: "broker_inv (logged T) (logged_platform P) (\<lambda>_. True) (\<lambda>_. True) sh c b2 (e1, log1)" "opened b2"
    using any_env.broker_inv_flags(1) [OF s1(5,6)] s1(6) by (simp_all add: b2_def)
  have l1: "log1 = log @ [Ev_send (wire_record (frame PBNS_MESSAGE_DATA (length ds)) (v_bytes p)) PBNS_OK]" using s1(1) by (simp add: frame_def seq)
  have k2: "service b2 = service b" "request_id b2 = request_id b" "upload_next_sequence b2 = of_nat (length ds + 1)" using s1(2-4) seq by (simp_all add: b2_def)
  show "\<exists>rs. log' = log @ [Ev_send (wire_record (frame PBNS_MESSAGE_DATA (length ds)) (v_bytes p)) PBNS_OK] @
      (if final then Ev_send (wire_record (frame PBNS_MESSAGE_COMPLETE (length ds + 1)) []) PBNS_OK # recv_log rs else [])"
  proof (cases final)
    case True
    then have ok3: "st3 = PBNS_OK" using out by simp
    note s3 = upload_emit_sent [OF i2 em3 [unfolded ok3]]
    obtain x b4 where rcv: "pbns_broker_receive qc residue (Some (b3\<lparr>upload_mode := False\<rparr>)) x (e3, log3) = Some (PBNS_OK, b4, r, (e', log'))"
      using out True by auto
    have "transport b3 = logged T" "platform b3 = logged_platform P" using s3(5) by (simp_all add: broker_inv_def)
    then obtain rs where "log' = log3 @ recv_log rs" using receive_log [OF rcv] by auto
    then show ?thesis using True s3(1) l1 k2 by (auto simp: frame_def null_view_def)
  next
    case False
    then show ?thesis using out l1 by simp
  qed
  show "\<not> final \<Longrightarrow> service b' = service b \<and> request_id b' = request_id b \<and> upload_next_sequence b' = of_nat (length ds + 1)"
    using out k2 by simp
qed

lemma upload_begin_answered:
  assumes inv: "broker_inv T P (\<lambda>_. True) (\<lambda>_. True) sh c b e" "\<not> opened b" and sh: "shape_valid sh"
    and args: "service_is_valid svc" "length rid = 16" "request_id_is_nonzero rid" "view_is_valid body" "view_clear sh body"
    and fits: "v_len body \<le> control_payload_max (effective_limits sh lim)" "frame_wire_max (v_len body) \<le> snd (sh ! 0)"
      "0 < data_payload_max (effective_limits sh lim)"
    and env: "clock_within P incoming t0 ms" "peer_answers T incoming lim answer" "limits_accepted lim"
  shows "\<exists>b' e'. pbns_broker_upload_begin (Some b) svc (Some rid) body ms e = (PBNS_OK, Some b', e')"
proof -
  have f: "broker_static sh (fresh_session b)" "\<not> opened (fresh_session b)" "\<not> active (fresh_session b)" "\<not> deadline_active (fresh_session b)"
    "idle_wf c (fresh_session b)" "transport (fresh_session b) = T" "platform (fresh_session b) = P"
    using any_env.fresh_session_inv [OF inv] by simp_all
  obtain b1 e1 where open1: "open_session (\<lambda>b. b) (fresh_session b) rid ms e = Inr (PBNS_OK, b1, e1)"
    and b1: "limits b1 = effective_limits sh lim" "in_time t0 ms b1"
    using open_session_answered [OF f(1,6,7) sh env] by blast
  have o1: "session_opening sh rid b1" "transport b1 = T" "platform b1 = P"
    using any_env.open_session_inv(2) [OF f TrueI _ open1] by auto
  define b2 where "b2 = b1\<lparr>service := svc, upload_mode := True, upload_next_sequence := 0,
    stream := the (pbns_stream_init (Some (stream b1)) svc rid (of_nat (control_payload_max (limits b1)))), active := True\<rparr>"
  have s2: "broker_static sh b2" "transport b2 = T" "platform b2 = P" "in_time t0 ms b2"
    using o1 b1(2) by (simp_all add: b2_def session_opening_def in_time_def)
  obtain b3 e3 where emit: "emit_frame b2 (request_frame svc rid) (view_reload (storage b2) body) e1 = (PBNS_OK, b3, e3)"
    using emit_request_answered [OF s2 sh args(1,2,4,5) fits(1,2) env] by blast
  have "ms \<noteq> 0" using env(1) unfolding clock_within_def by (metis add.right_neutral leD unat_0 word_less_nat_alt)
  moreover have "initialized b" "\<not> active b" using inv by (auto simp: broker_inv_def broker_wf_def broker_static_def)
  moreover have "upload_begin_opened b1 PBNS_OK svc rid body e1 = (PBNS_OK, b3, e3)"
    using fits emit args(1) unfolding upload_begin_opened_def Let_def request_frame_def b2_def
    by (simp add: pbns_stream_init_def b1(1))
  ultimately show ?thesis
    using args inv(2) open1 by (auto simp: pbns_broker_upload_begin_def Let_def)
qed

lemma upload_trace_state:
  assumes "upload_trace qc residue T P st0 e0 log0 svc rid body b e log ds final"
  shows "broker_reach qc residue (logged T) (logged_platform P) st0 same_log (e0, []) b (e, log) \<and>
    (\<exists>rs. log = log0 @ [Ev_open PBNS_OK, Ev_limits] @ map (\<lambda>x. Ev_send x PBNS_OK) (upload_records svc rid body ds final) @
       (if final then recv_log rs else [])) \<and>
    (\<not> final \<longrightarrow> service b = svc \<and> request_id b = rid \<and> upload_next_sequence b = of_nat (length ds))"
  using assms
proof (induction rule: upload_trace.induct)
  case (started b0 e v ms b e' log)
  have inv: "broker_inv (logged T) (logged_platform P) (\<lambda>_. True) (\<lambda>_. True) (storage_shape st0) (storage_clean st0) b0 (e, log0)"
    by (rule any_env.broker_reach_inv [OF started(1)]) simp_all
  have "length rid = 16" using started(2) by simp
  from upload_begin_sent [OF inv this started(3,5)] started(4)
    broker_reach.upload_begin [OF started(1) _ started(5)] started(2) show ?case by simp
next
  case (sent b e log ds p final r0 b' r e' log')
  have reach: "broker_reach qc residue (logged T) (logged_platform P) st0 same_log (e0, []) b (e, log)"
    and b: "service b = svc" "request_id b = rid" "upload_next_sequence b = of_nat (length ds)"
    and log: "log = log0 @ [Ev_open PBNS_OK, Ev_limits] @ map (\<lambda>x. Ev_send x PBNS_OK) (upload_records svc rid body ds False)"
    using sent.IH by auto
  have inv: "broker_inv (logged T) (logged_platform P) (\<lambda>_. True) (\<lambda>_. True) (storage_shape st0) (storage_clean st0) b (e, log)"
    by (rule any_env.broker_reach_inv [OF reach]) simp_all
  note s = upload_send_sent [OF inv b(3) sent.hyps(2), unfolded b(1,2)]
  show ?case
    using broker_reach.upload_send [OF reach sent.hyps(2)] s log
    by (auto simp: upload_records_snoc(1) upload_records_snoc(2) [of _ _ _ "ds @ [v_bytes p]"])
qed

subsection \<open>Remote errors\<close>

text \<open>What the CBOR decoder finds in a canonical error map, item by item.\<close>

definition reads_error_map :: "qcbor_decoder \<Rightarrow> bytes \<Rightarrow> u64 \<Rightarrow> u64 \<Rightarrow> bytes \<Rightarrow> bool" where
  "reads_error_map qc payload code svc detail \<longleftrightarrow>
     QCBORDecode_GetNext qc payload 0 = Some \<lparr>q_value = Q_MAP 3, q_label = Q_LABEL_NONE, q_nesting = 0\<rparr> \<and>
     QCBORDecode_GetNext qc payload 1 = Some \<lparr>q_value = Q_INT64 (uint code), q_label = Q_LABEL_INT64 1, q_nesting = 1\<rparr> \<and>
     QCBORDecode_GetNext qc payload 2 = Some \<lparr>q_value = Q_INT64 (uint svc), q_label = Q_LABEL_INT64 2, q_nesting = 1\<rparr> \<and>
     QCBORDecode_GetNext qc payload 3 = Some \<lparr>q_value = Q_TEXT_STRING detail, q_label = Q_LABEL_INT64 3, q_nesting = 1\<rparr> \<and>
     QCBORDecode_Finish qc payload 4"

lemma decode_remote_error_canonical:
  assumes "decode_remote_error qc residue b p svc = (st, b')" and "st \<notin> {PBNS_ERR_FORMAT, PBNS_ERR_SERVICE, PBNS_ERR_LIMIT}"
  shows "\<exists>code detail. v_bytes p = error_map code (of_nat (service_code svc)) detail \<and> 1 \<le> unat code \<and> unat code \<le> 22 \<and>
    st = pbns_status_table ! unat code \<and> utf8_is_valid \<lparr>v_ptr = 1, v_bytes = detail\<rparr> \<and> length detail \<le> PBNS_ERROR_DETAIL_MAX"
proof -
  have "error_fields qc (v_bytes p) svc \<in> range Inr \<or> error_fields qc (v_bytes p) svc \<in> Inl ` {PBNS_ERR_FORMAT, PBNS_ERR_SERVICE}"
    by (auto simp: error_fields_def split: option.splits if_splits qcbor_value.splits)
  with assms obtain code s detail where f: "error_fields qc (v_bytes p) svc = Inr (code, s, detail)"
    by (auto simp: decode_remote_error_def)
  note c = error_fields_code [OF f]
  then have "error_map code (of_nat (service_code svc)) detail = v_bytes p" "st = pbns_status_table ! unat code"
    using assms by (auto simp: decode_remote_error_def f Let_def split: if_splits)
  with c show ?thesis by metis
qed

lemma decode_remote_error_reads:
  assumes "reads_error_map qc (v_bytes p) code (of_nat (service_code svc)) detail" and "v_bytes p = error_map code (of_nat (service_code svc)) detail"
    and "1 \<le> unat code" "unat code \<le> 22" "utf8_is_valid \<lparr>v_ptr = 1, v_bytes = detail\<rparr>" "length detail \<le> PBNS_ERROR_DETAIL_MAX"
    and "v_len p \<le> b_cap (decoded (storage b))"
  shows "fst (decode_remote_error qc residue b p svc) = pbns_status_table ! unat code"
proof -
  have "\<not> code < 1" "\<not> code > 22" using assms(3,4) by (simp_all add: word_less_nat_alt)
  then have "error_fields qc (v_bytes p) svc = Inr (code, of_nat (service_code svc), detail)"
    using assms(1,5,6) by (simp add: error_fields_def reads_error_map_def next_labeled_item_def)
  with assms(2,7) show ?thesis by (simp add: decode_remote_error_def Let_def)
qed

subsection \<open>Properties of uploads and errors\<close>

text \<open>C7:
  What an upload puts on the wire.  After a successful begin and any number of successful sends,
  the calls made on the transport are one open, one query of the limits, and one send for each
  of: the REQUEST record with the body, the DATA records with the payloads in order and sequence
  numbers 0, 1, 2, and so on, and, once the last payload was marked final, the COMPLETE record with
  the next number; only then are there receives.  Nothing is sent twice, left out or reordered.
\<close>

theorem upload_wire_order:
  assumes "upload_trace qc residue T P st0 e0 log0 svc rid body b e log ds final"
  shows "\<exists>rs. log = log0 @ [Ev_open PBNS_OK, Ev_limits] @ map (\<lambda>x. Ev_send x PBNS_OK) (upload_records svc rid body ds final) @
    map (\<lambda>(bs, st). Ev_receive bs st) rs \<and> (\<not> final \<longrightarrow> rs = [])"
proof -
  obtain rs where "log = log0 @ [Ev_open PBNS_OK, Ev_limits] @ map (\<lambda>x. Ev_send x PBNS_OK) (upload_records svc rid body ds final) @
       (if final then recv_log rs else [])" using upload_trace_state [OF assms] by blast
  then show ?thesis by (intro exI [of _ "if final then rs else []"]) (simp add: recv_log_def)
qed

theorem upload_wire_order_witness:
  "\<exists>(b :: (bytes \<times> transport_event list) pbns_broker) e log.
     upload_trace example_qcbor (\<lambda>_ m. m) example_peer example_clock example_room [] [] PBNS_SERVICE_ENROLLMENT example_id [9] b e log [] False \<and>
     log = [Ev_open PBNS_OK, Ev_limits] @ map (\<lambda>x. Ev_send x PBNS_OK) (upload_records PBNS_SERVICE_ENROLLMENT example_id [9] [] False)"
proof -
  obtain b where reach: "broker_reach example_qcbor (\<lambda>_ m. m) (logged example_peer) (logged_platform example_clock) example_room same_log ([], []) b ([], [])"
    and closed: "\<not> opened b" using example_started [OF example_callbacks(2,4)] by blast
  have inv: "broker_inv (logged example_peer) (logged_platform example_clock) (\<lambda>_. True) (\<lambda>_. True) (storage_shape example_room)
      (storage_clean example_room) b ([], [])"
    by (rule any_env.broker_reach_inv [OF reach]) simp_all
  have sh: "shape_valid (storage_shape example_room)" using example_room_valid by (auto simp: shape_valid_def)
  have svc: "service_is_valid PBNS_SERVICE_ENROLLMENT" by (simp add: service_is_valid_def)
  have "0 < data_payload_max (effective_limits (storage_shape example_room) example_transport_limits)"
    by (simp add: effective_limits_def storage_shape_def example_room_def example_transport_limits_def)
  then obtain b' e' where ub: "pbns_broker_upload_begin (Some b) PBNS_SERVICE_ENROLLMENT (Some example_id) example_body 5 ([], []) = (PBNS_OK, Some b', e')"
    using upload_begin_answered [OF inv closed sh svc example_args(2,3) _ _ _ _ _ example_peer_answers(4,2,5), of example_body] example_fits
    unfolding exchange_fits_def by auto
  obtain e1 log1 where e': "e' = (e1, log1)" by fastforce
  have "view_clear (storage_shape example_room) example_body" using example_fits by (simp add: exchange_fits_def)
  moreover have "v_bytes example_body = [9]" by (simp add: example_body_def)
  ultimately have tr: "upload_trace example_qcbor (\<lambda>_ m. m) example_peer example_clock example_room [] [] PBNS_SERVICE_ENROLLMENT example_id [9] b' e1 log1 [] False"
    using upload_trace.started [OF reach _ _ _ ub [unfolded e']] example_args(2) by simp
  from upload_wire_order [OF tr] tr show ?thesis by auto
qed

text \<open>C25:
  When a status comes from the remote side.  Decoding an ERROR payload never yields success; any
  status other than the three that decoding itself can give (format, service, limit) means that
  the payload is, byte for byte, the canonical CBOR map of a code between 1 and 22, the service of
  this session and a valid UTF-8 detail of bounded length, and the status is the one that code
  stands for.  Conversely such a payload, read by the CBOR decoder as what it encodes, yields the
  status of its code whenever it fits the decoded buffer.
\<close>

theorem remote_error_status:
  "fst (decode_remote_error qc residue b p svc) \<noteq> PBNS_OK \<and>
   (fst (decode_remote_error qc residue b p svc) \<notin> {PBNS_ERR_FORMAT, PBNS_ERR_SERVICE, PBNS_ERR_LIMIT} \<longrightarrow>
     (\<exists>code detail. v_bytes p = error_map code (of_nat (service_code svc)) detail \<and> 1 \<le> unat code \<and> unat code \<le> 22 \<and>
       fst (decode_remote_error qc residue b p svc) = pbns_status_table ! unat code \<and>
       utf8_is_valid \<lparr>v_ptr = 1, v_bytes = detail\<rparr> \<and> length detail \<le> PBNS_ERROR_DETAIL_MAX)) \<and>
   (\<forall>code detail. reads_error_map qc (v_bytes p) code (of_nat (service_code svc)) detail \<and>
       v_bytes p = error_map code (of_nat (service_code svc)) detail \<and> 1 \<le> unat code \<and> unat code \<le> 22 \<and>
       utf8_is_valid \<lparr>v_ptr = 1, v_bytes = detail\<rparr> \<and> length detail \<le> PBNS_ERROR_DETAIL_MAX \<and> v_len p \<le> b_cap (decoded (storage b)) \<longrightarrow>
     fst (decode_remote_error qc residue b p svc) = pbns_status_table ! unat code)"
  using decode_remote_error_not_OK [of qc residue b p svc] decode_remote_error_canonical [of qc residue b p svc]
    decode_remote_error_reads [of qc p _ svc _ b residue]
  by (metis prod.collapse)

text \<open>A decoder that reads the map of code 12 and an empty detail.\<close>

definition example_error_qcbor :: qcbor_decoder where
  "example_error_qcbor = \<lparr>QCBORDecode_GetNext = (\<lambda>_ n. [
       Some \<lparr>q_value = Q_MAP 3, q_label = Q_LABEL_NONE, q_nesting = 0\<rparr>,
       Some \<lparr>q_value = Q_INT64 12, q_label = Q_LABEL_INT64 1, q_nesting = 1\<rparr>,
       Some \<lparr>q_value = Q_INT64 2, q_label = Q_LABEL_INT64 2, q_nesting = 1\<rparr>,
       Some \<lparr>q_value = Q_TEXT_STRING [], q_label = Q_LABEL_INT64 3, q_nesting = 1\<rparr>] ! n), QCBORDecode_Finish = (\<lambda>_ _. True)\<rparr>"

theorem remote_error_status_witness:
  "fst (decode_remote_error example_error_qcbor (\<lambda>_ m. m) ((zero_broker :: unit pbns_broker)\<lparr>storage := example_storage\<lparr>decoded := \<lparr>b_ptr = 1, b_len = 0, b_mem = replicate 20 0\<rparr>\<rparr>\<rparr>)
     \<lparr>v_ptr = 1, v_bytes = error_map 12 2 []\<rparr> PBNS_SERVICE_RECOVERY_ARTIFACT) = pbns_status_table ! 12"
proof -
  let ?b = "(zero_broker :: unit pbns_broker)\<lparr>storage := example_storage\<lparr>decoded := \<lparr>b_ptr = 1, b_len = 0, b_mem = replicate 20 0\<rparr>\<rparr>\<rparr>"
  let ?p = "\<lparr>v_ptr = 1, v_bytes = error_map 12 2 []\<rparr>"
  have "reads_error_map example_error_qcbor (v_bytes ?p) 12 (of_nat (service_code PBNS_SERVICE_RECOVERY_ARTIFACT)) []"
    by (simp add: reads_error_map_def example_error_qcbor_def)
  moreover have "length (error_map 12 2 []) \<le> 20" by code_simp
  then have "v_len ?p \<le> b_cap (decoded (storage ?b))" by simp
  moreover have "utf8_is_valid \<lparr>v_ptr = 1, v_bytes = []\<rparr>" by code_simp
  ultimately show ?thesis
    using remote_error_status [of example_error_qcbor "\<lambda>_ m. m" ?b ?p PBNS_SERVICE_RECOVERY_ARTIFACT] by force
qed

end
