(* ===== verification/Byte_Ring.thy ===== *)
theory Byte_Ring
  imports Pbns_Prelude
begin

text \<open>
  The proxy's byte ring, \<open>pico/src/byte_ring.c\<close>.  A caller obtains the contiguous writable
  part, fills it and commits; or obtains the contiguous readable part and consumes.
  \<open>ring_fill\<close> is the effect of the caller's writes through the buffer that
  \<open>pbns_byte_ring_writable\<close> handed out.

  The ring implements a bounded first-in first-out queue of bytes: \<open>ring_contents\<close> abstracts
  it to a list, and the interface \<open>byte_queue\<close> states what the byte pump relies on.  The ring
  is an instance of that interface.
\<close>

subsection \<open>State and operations\<close>

record pbns_byte_ring =
  ring_storage :: pbns_buffer
  ring_head :: nat
  ring_length :: nat
  ring_initialized :: bool

definition zero_ring :: pbns_byte_ring where
  "zero_ring = \<lparr>ring_storage = null_buffer, ring_head = 0, ring_length = 0, ring_initialized = False\<rparr>"

abbreviation ring_cap :: "pbns_byte_ring \<Rightarrow> nat" where
  "ring_cap r \<equiv> b_cap (ring_storage r)"

definition storage_is_valid :: "pbns_buffer \<Rightarrow> bool" where
  "storage_is_valid storage \<longleftrightarrow> b_ptr storage \<noteq> 0 \<and> b_len storage = 0 \<and> b_cap storage > 0"

definition ring_is_valid :: "pbns_byte_ring \<Rightarrow> bool" where
  "ring_is_valid r \<longleftrightarrow> ring_initialized r \<and> storage_is_valid (ring_storage r) \<and>
     ring_head r < ring_cap r \<and> ring_length r \<le> ring_cap r"

definition ring_tail :: "pbns_byte_ring \<Rightarrow> nat" where
  "ring_tail r =
     (let distance_to_end = ring_cap r - ring_head r
      in if ring_length r \<ge> distance_to_end then ring_length r - distance_to_end
         else ring_head r + ring_length r)"

definition writable_length :: "pbns_byte_ring \<Rightarrow> nat" where
  "writable_length r =
     (if ring_length r = ring_cap r then 0
      else
        let tail = ring_tail r
        in if tail < ring_head r then ring_head r - tail else ring_cap r - tail)"

definition pbns_byte_ring_init :: "pbns_byte_ring ptr \<Rightarrow> pbns_buffer \<Rightarrow> pbns_byte_ring ptr" where
  "pbns_byte_ring_init ring storage =
     (case ring of
        None \<Rightarrow> None
      | Some _ \<Rightarrow>
          if \<not> storage_is_valid storage then Some zero_ring
          else Some (zero_ring\<lparr>ring_storage := storage, ring_initialized := True\<rparr>))"

definition pbns_byte_ring_reset :: "pbns_byte_ring \<Rightarrow> pbns_byte_ring" where
  "pbns_byte_ring_reset r = (if \<not> ring_is_valid r then r else r\<lparr>ring_head := 0, ring_length := 0\<rparr>)"

definition pbns_byte_ring_capacity :: "pbns_byte_ring \<Rightarrow> nat" where
  "pbns_byte_ring_capacity r = (if ring_is_valid r then ring_cap r else 0)"

definition pbns_byte_ring_size :: "pbns_byte_ring \<Rightarrow> nat" where
  "pbns_byte_ring_size r = (if ring_is_valid r then ring_length r else 0)"

definition pbns_byte_ring_writable :: "pbns_byte_ring \<Rightarrow> pbns_buffer ptr \<Rightarrow> pbns_status \<times> pbns_buffer ptr" where
  "pbns_byte_ring_writable r writable =
     (case writable of
        None \<Rightarrow> (PBNS_ERR_ARGUMENT, None)
      | Some _ \<Rightarrow>
          if \<not> ring_is_valid r then (PBNS_ERR_STATE, Some null_buffer)
          else
            let available = writable_length r
            in if available = 0 then (PBNS_OK, Some null_buffer)
               else
                 let tail = ring_tail r
                 in (PBNS_OK, Some \<lparr>b_ptr = b_ptr (ring_storage r) + tail, b_len = 0,
                       b_mem = take available (drop tail (b_mem (ring_storage r)))\<rparr>))"

definition pbns_byte_ring_commit :: "pbns_byte_ring \<Rightarrow> nat \<Rightarrow> pbns_status \<times> pbns_byte_ring" where
  "pbns_byte_ring_commit r amount =
     (if \<not> ring_is_valid r then (PBNS_ERR_STATE, r)
      else if amount > writable_length r then (PBNS_ERR_LIMIT, r)
      else (PBNS_OK, r\<lparr>ring_length := ring_length r + amount\<rparr>))"

definition pbns_byte_ring_readable :: "pbns_byte_ring \<Rightarrow> pbns_view ptr \<Rightarrow> pbns_status \<times> pbns_view ptr" where
  "pbns_byte_ring_readable r readable =
     (case readable of
        None \<Rightarrow> (PBNS_ERR_ARGUMENT, None)
      | Some _ \<Rightarrow>
          if \<not> ring_is_valid r then (PBNS_ERR_STATE, Some null_view)
          else if ring_length r = 0 then (PBNS_OK, Some null_view)
          else
            let contiguous = (if ring_length r < ring_cap r - ring_head r then ring_length r
                              else ring_cap r - ring_head r)
            in (PBNS_OK, Some \<lparr>v_ptr = b_ptr (ring_storage r) + ring_head r,
                  v_bytes = take contiguous (drop (ring_head r) (b_mem (ring_storage r)))\<rparr>))"

definition pbns_byte_ring_consume :: "pbns_byte_ring \<Rightarrow> nat \<Rightarrow> pbns_status \<times> pbns_byte_ring" where
  "pbns_byte_ring_consume r amount =
     (if \<not> ring_is_valid r then (PBNS_ERR_STATE, r)
      else
        let contiguous = (if ring_length r < ring_cap r - ring_head r then ring_length r
                          else ring_cap r - ring_head r)
        in if amount > contiguous then (PBNS_ERR_LIMIT, r)
           else if amount = ring_length r then (PBNS_OK, r\<lparr>ring_head := 0, ring_length := 0\<rparr>)
           else
             let r = r\<lparr>ring_head := ring_head r + amount, ring_length := ring_length r - amount\<rparr>
             in (PBNS_OK, if ring_head r = ring_cap r then r\<lparr>ring_head := 0\<rparr> else r))"

text \<open>
  The caller's writes through the buffer it got from \<open>pbns_byte_ring_writable\<close>: \<open>new\<close> goes to
  the memory of the ring at the place the buffer's pointer has in it.
\<close>

definition ring_fill :: "pbns_byte_ring \<Rightarrow> pbns_buffer \<Rightarrow> bytes \<Rightarrow> pbns_byte_ring" where
  "ring_fill r writable new =
     r\<lparr>ring_storage := (ring_storage r)
         \<lparr>b_mem := store_at (b_mem (ring_storage r)) (b_ptr writable - b_ptr (ring_storage r)) new\<rparr>\<rparr>"

abbreviation ring_window :: "pbns_byte_ring \<Rightarrow> pbns_buffer" where
  "ring_window r \<equiv> the (snd (pbns_byte_ring_writable r (Some null_buffer)))"

subsection \<open>The interface of a byte queue\<close>

text \<open>
  \<open>peek\<close> is the part that can be taken next, \<open>room\<close> the number of bytes that can be put next;
  \<open>put q new n\<close> stores \<open>new\<close> and keeps its first \<open>n\<close> bytes.
\<close>

locale byte_queue =
  fixes invar :: "'q \<Rightarrow> bool" and contents :: "'q \<Rightarrow> bytes" and capacity :: "'q \<Rightarrow> nat"
    and peek :: "'q \<Rightarrow> bytes" and room :: "'q \<Rightarrow> nat"
    and get :: "'q \<Rightarrow> nat \<Rightarrow> 'q" and put :: "'q \<Rightarrow> bytes \<Rightarrow> nat \<Rightarrow> 'q"
  assumes bounded: "invar q \<Longrightarrow> length (contents q) \<le> capacity q"
    and peek_prefix: "invar q \<Longrightarrow> peek q = take (length (peek q)) (contents q)"
    and peek_empty: "invar q \<Longrightarrow> peek q = [] \<longleftrightarrow> contents q = []"
    and room_full: "invar q \<Longrightarrow> room q = 0 \<longleftrightarrow> length (contents q) = capacity q"
    and get_contents: "invar q \<Longrightarrow> n \<le> length (peek q) \<Longrightarrow>
      invar (get q n) \<and> contents (get q n) = drop n (contents q) \<and> capacity (get q n) = capacity q"
    and put_contents: "invar q \<Longrightarrow> length new = room q \<Longrightarrow> n \<le> room q \<Longrightarrow>
      invar (put q new n) \<and> contents (put q new n) = contents q @ take n new \<and> capacity (put q new n) = capacity q"
begin

lemma get_split:
  assumes "invar q" and "n \<le> length (peek q)"
  shows "take n (peek q) @ contents (get q n) = contents q"
proof -
  have "take n (peek q) = take n (contents q)"
    using assms peek_prefix [OF assms(1)] by (metis take_take min.absorb1)
  with get_contents [OF assms] show ?thesis by simp
qed

text \<open>Whatever is put and taken, in any order, nothing is lost, duplicated or reordered.\<close>

lemma get_log:
  assumes "invar q" and "n \<le> length (peek q)" and "sent @ contents q = got"
  shows "(sent @ take n (peek q)) @ contents (get q n) = got"
  using get_split [OF assms(1,2)] assms(3) by simp

lemma put_log:
  assumes "invar q" and "length new = room q" and "n \<le> room q" and "sent @ contents q = got"
  shows "sent @ contents (put q new n) = got @ take n new"
  using put_contents [OF assms(1-3)] assms(4) by (simp flip: append_assoc)

lemma get_progress:
  assumes "invar q" and "contents q \<noteq> []"
  shows "0 < length (peek q) \<and> length (contents (get q (length (peek q)))) < length (contents q)"
proof -
  have "peek q \<noteq> []" using peek_empty [OF assms(1)] assms(2) by simp
  then show ?thesis using get_contents [OF assms(1), of "length (peek q)"] assms(2) by simp
qed

end

subsection \<open>The ring is a byte queue\<close>

definition ring_contents :: "pbns_byte_ring \<Rightarrow> bytes" where
  "ring_contents r = map (\<lambda>i. b_mem (ring_storage r) ! ((ring_head r + i) mod ring_cap r)) [0..<ring_length r]"

definition ring_peek :: "pbns_byte_ring \<Rightarrow> bytes" where
  "ring_peek r = v_bytes (the (snd (pbns_byte_ring_readable r (Some null_view))))"

definition ring_put :: "pbns_byte_ring \<Rightarrow> bytes \<Rightarrow> nat \<Rightarrow> pbns_byte_ring" where
  "ring_put r new n = snd (pbns_byte_ring_commit (ring_fill r (ring_window r) new) n)"

lemma mod_wrap: "i < c \<Longrightarrow> k \<le> c \<Longrightarrow> (i + k) mod c = (if i + k < c then i + k else i + k - c)" for i k c :: nat
  by (auto simp: mod_if)

lemma mod_wrap_end: "h + n = c \<Longrightarrow> i < c \<Longrightarrow> (h + (n + i)) mod c = i" for h n i c :: nat
  by (simp flip: add.assoc)

lemma ring_tail_mod: "ring_is_valid r \<Longrightarrow> ring_tail r = (ring_head r + ring_length r) mod ring_cap r"
  by (auto simp: ring_tail_def ring_is_valid_def mod_wrap Let_def)

lemma ring_peek_eq:
  assumes "ring_is_valid r"
  shows "ring_peek r = take (min (ring_length r) (ring_cap r - ring_head r)) (ring_contents r)"
    and "length (ring_peek r) = min (ring_length r) (ring_cap r - ring_head r)"
proof -
  have "ring_peek r = take (min (ring_length r) (ring_cap r - ring_head r)) (drop (ring_head r) (b_mem (ring_storage r)))"
    using assms by (auto simp: ring_peek_def pbns_byte_ring_readable_def null_view_def min_def Let_def)
  then show "ring_peek r = take (min (ring_length r) (ring_cap r - ring_head r)) (ring_contents r)"
    "length (ring_peek r) = min (ring_length r) (ring_cap r - ring_head r)"
    using assms by (auto simp: ring_is_valid_def ring_contents_def intro!: nth_equalityI)
qed

lemma ring_consume_contents:
  assumes "ring_is_valid r" and "n \<le> length (ring_peek r)"
  shows "fst (pbns_byte_ring_consume r n) = PBNS_OK" and "ring_is_valid (snd (pbns_byte_ring_consume r n))"
    and "ring_contents (snd (pbns_byte_ring_consume r n)) = drop n (ring_contents r)"
    and "ring_cap (snd (pbns_byte_ring_consume r n)) = ring_cap r"
proof -
  have n: "n \<le> ring_length r" "n \<le> ring_cap r - ring_head r" using assms ring_peek_eq(2) by auto
  show "fst (pbns_byte_ring_consume r n) = PBNS_OK" "ring_is_valid (snd (pbns_byte_ring_consume r n))"
    "ring_cap (snd (pbns_byte_ring_consume r n)) = ring_cap r"
    using assms(1) n by (auto simp: pbns_byte_ring_consume_def ring_is_valid_def Let_def)
  show "ring_contents (snd (pbns_byte_ring_consume r n)) = drop n (ring_contents r)"
    using assms(1) n
    by (auto simp: pbns_byte_ring_consume_def ring_contents_def ring_is_valid_def Let_def drop_map add.assoc mod_wrap_end
        intro!: nth_equalityI arg_cong [where f = "\<lambda>k. b_mem (ring_storage r) ! k"])
qed

lemma writable_room:
  assumes "ring_is_valid r"
  shows "ring_tail r + writable_length r \<le> ring_cap r" and "ring_length r + writable_length r \<le> ring_cap r"
    and "writable_length r = 0 \<longleftrightarrow> ring_length r = ring_cap r"
  using assms by (auto simp: writable_length_def ring_tail_def ring_is_valid_def Let_def split: if_splits)

lemma ring_fill_window:
  assumes "ring_is_valid r" and "length new = writable_length r"
  shows "ring_fill r (ring_window r) new =
    r\<lparr>ring_storage := (ring_storage r)\<lparr>b_mem := store_at (b_mem (ring_storage r)) (ring_tail r) new\<rparr>\<rparr>"
  using assms by (auto simp: ring_fill_def pbns_byte_ring_writable_def store_at_def Let_def)

lemma ring_fill_valid:
  assumes "ring_is_valid r" and "length new = writable_length r"
  shows "ring_is_valid (ring_fill r (ring_window r) new)" and "ring_cap (ring_fill r (ring_window r) new) = ring_cap r"
    and "writable_length (ring_fill r (ring_window r) new) = writable_length r"
proof -
  note fill = ring_fill_window [OF assms]
  have "length (store_at (b_mem (ring_storage r)) (ring_tail r) new) = ring_cap r"
    using writable_room [OF assms(1)] assms(2) by simp
  then have sel: "ring_cap (ring_fill r (ring_window r) new) = ring_cap r" "ring_head (ring_fill r (ring_window r) new) = ring_head r"
    "ring_length (ring_fill r (ring_window r) new) = ring_length r"
    by (simp_all add: fill)
  then have "ring_tail (ring_fill r (ring_window r) new) = ring_tail r" by (simp add: ring_tail_def Let_def)
  with sel show "ring_is_valid (ring_fill r (ring_window r) new)" "ring_cap (ring_fill r (ring_window r) new) = ring_cap r"
    "writable_length (ring_fill r (ring_window r) new) = writable_length r"
    using assms(1) by (auto simp: fill ring_is_valid_def storage_is_valid_def writable_length_def Let_def)
qed

lemma ring_put_contents:
  assumes "ring_is_valid r" and "length new = writable_length r" and "n \<le> writable_length r"
  shows "ring_is_valid (ring_put r new n)" and "ring_contents (ring_put r new n) = ring_contents r @ take n new"
    and "ring_cap (ring_put r new n) = ring_cap r"
proof -
  note fill = ring_fill_window [OF assms(1,2)] and fv = ring_fill_valid [OF assms(1,2)] and wr = writable_room [OF assms(1)]
  have put: "ring_put r new n = (ring_fill r (ring_window r) new)\<lparr>ring_length := ring_length r + n\<rparr>"
    using fv assms(3) by (simp add: ring_put_def pbns_byte_ring_commit_def) (simp add: fill)
  show "ring_is_valid (ring_put r new n)" "ring_cap (ring_put r new n) = ring_cap r"
    using fv wr assms(3) by (simp_all add: put ring_is_valid_def)
  show "ring_contents (ring_put r new n) = ring_contents r @ take n new"
  proof (rule nth_equalityI)
    show "length (ring_contents (ring_put r new n)) = length (ring_contents r @ take n new)"
      using assms(2,3) by (simp add: put ring_contents_def)
  next
    fix i assume "i < length (ring_contents (ring_put r new n))"
    then have i: "i < ring_length r + n" by (simp add: put ring_contents_def)
    let ?k = "(ring_head r + i) mod ring_cap r"
    have h: "ring_head r < ring_cap r" using assms(1) by (simp add: ring_is_valid_def)
    then have "?k < ring_cap r" by (intro mod_less_divisor) linarith
    then have "ring_contents (ring_put r new n) ! i =
        (if ?k < ring_tail r then b_mem (ring_storage r) ! ?k
         else if ?k < ring_tail r + writable_length r then new ! (?k - ring_tail r) else b_mem (ring_storage r) ! ?k)"
      using i fv wr assms(2) by (simp add: put ring_contents_def fill store_at_nth)
    moreover have "i < ring_length r \<Longrightarrow> ?k < ring_tail r \<or> ring_tail r + writable_length r \<le> ?k"
      using assms(1) h by (auto simp: mod_wrap writable_length_def ring_tail_def ring_is_valid_def Let_def)
    moreover have "\<not> i < ring_length r \<Longrightarrow> ?k = ring_tail r + (i - ring_length r)"
      using assms(1,3) h i by (auto simp: mod_wrap writable_length_def ring_tail_def ring_is_valid_def Let_def split: if_splits)
    ultimately show "ring_contents (ring_put r new n) ! i = (ring_contents r @ take n new) ! i"
      using i assms(2,3) by (auto simp: nth_append ring_contents_def)
  qed
qed

interpretation ring_queue: byte_queue ring_is_valid ring_contents ring_cap ring_peek writable_length
  "\<lambda>r n. snd (pbns_byte_ring_consume r n)" ring_put
proof unfold_locales
  fix r :: pbns_byte_ring and n new
  assume r: "ring_is_valid r"
  show "length (ring_contents r) \<le> ring_cap r" using r by (simp add: ring_contents_def ring_is_valid_def)
  show "ring_peek r = take (length (ring_peek r)) (ring_contents r)" using ring_peek_eq [OF r] by simp
  show "ring_peek r = [] \<longleftrightarrow> ring_contents r = []"
    using ring_peek_eq(2) [OF r] r by (auto simp: ring_contents_def ring_is_valid_def simp flip: length_0_conv)
  show "writable_length r = 0 \<longleftrightarrow> length (ring_contents r) = ring_cap r"
    using writable_room(3) [OF r] by (simp add: ring_contents_def)
  show "ring_is_valid (snd (pbns_byte_ring_consume r n)) \<and> ring_contents (snd (pbns_byte_ring_consume r n)) = drop n (ring_contents r) \<and>
      ring_cap (snd (pbns_byte_ring_consume r n)) = ring_cap r" if "n \<le> length (ring_peek r)"
    using ring_consume_contents [OF r that] by simp
  show "ring_is_valid (ring_put r new n) \<and> ring_contents (ring_put r new n) = ring_contents r @ take n new \<and>
      ring_cap (ring_put r new n) = ring_cap r" if "length new = writable_length r" "n \<le> writable_length r"
    using ring_put_contents [OF r that] by simp
qed

subsection \<open>Properties\<close>

text \<open>
  Whatever a caller puts and takes, in any order and in amounts the ring allows.
\<close>

datatype ring_op = Put bytes nat | Take nat

fun ring_run :: "pbns_byte_ring \<Rightarrow> ring_op list \<Rightarrow> (bytes \<times> bytes \<times> pbns_byte_ring) option" where
  "ring_run r [] = Some ([], [], r)"
| "ring_run r (Put new n # ops) =
     (case pbns_byte_ring_writable r (Some null_buffer) of
        (status, w) \<Rightarrow>
          if status \<noteq> PBNS_OK \<or> length new \<noteq> b_cap (the w) then None
          else (case pbns_byte_ring_commit (ring_fill r (the w) new) n of
                  (status, r') \<Rightarrow>
                    if status \<noteq> PBNS_OK then None
                    else map_option (\<lambda>(i, out, s). (take n new @ i, out, s)) (ring_run r' ops)))"
| "ring_run r (Take n # ops) =
     (case pbns_byte_ring_readable r (Some null_view) of
        (status, v) \<Rightarrow>
          (case pbns_byte_ring_consume r n of
             (status', r') \<Rightarrow>
               if status \<noteq> PBNS_OK \<or> status' \<noteq> PBNS_OK then None
               else map_option (\<lambda>(i, out, s). (i, take n (v_bytes (the v)) @ out, s)) (ring_run r' ops)))"

lemma ring_writable_cap:
  "pbns_byte_ring_writable r (Some b) = (PBNS_OK, w) \<Longrightarrow> b_cap (the w) = writable_length r \<and> ring_is_valid r"
  using writable_room [of r]
  by (auto simp: pbns_byte_ring_writable_def null_buffer_def Let_def split: if_splits)

lemma ring_run_fifo:
  assumes "ring_is_valid r" and "ring_run r ops = Some (put, got, r')"
  shows "got @ ring_contents r' = ring_contents r @ put \<and> ring_is_valid r' \<and> ring_cap r' = ring_cap r"
  using assms
proof (induction r ops arbitrary: put got rule: ring_run.induct)
  case (2 r new n ops)
  obtain w where w: "pbns_byte_ring_writable r (Some null_buffer) = (PBNS_OK, w)" "length new = writable_length r"
    using "2.prems"(2) ring_writable_cap [of r null_buffer] by (auto split: prod.splits if_splits)
  note fv = ring_fill_valid [OF "2.prems"(1) w(2)]
  obtain r1 put' where r1: "pbns_byte_ring_commit (ring_fill r (the w) new) n = (PBNS_OK, r1)" "n \<le> writable_length r"
      "ring_run r1 ops = Some (put', got, r')" "put = take n new @ put'"
    using "2.prems"(2) w ring_writable_cap [OF w(1)] fv [unfolded w(1) snd_conv]
    by (auto simp: pbns_byte_ring_commit_def split: prod.splits if_splits)
  then have "r1 = ring_put r new n" using w(1) by (simp add: ring_put_def)
  with "2.IH" [OF w(1) [symmetric] _ r1(1) [symmetric]] r1 ring_put_contents [OF "2.prems"(1) w(2) r1(2)] w ring_writable_cap [OF w(1)]
  show ?case by simp
next
  case (3 r n ops)
  obtain v where v: "pbns_byte_ring_readable r (Some null_view) = (PBNS_OK, v)" "ring_peek r = v_bytes (the v)"
    using "3.prems"(1) by (cases "pbns_byte_ring_readable r (Some null_view)")
      (auto simp: ring_peek_def pbns_byte_ring_readable_def Let_def split: if_splits)
  obtain r1 got' where r1: "pbns_byte_ring_consume r n = (PBNS_OK, r1)"
      "ring_run r1 ops = Some (put, got', r')" "got = take n (ring_peek r) @ got'"
    using "3.prems"(2) v by (auto split: prod.splits if_splits)
  then have n: "n \<le> length (ring_peek r)"
    using ring_peek_eq(2) [OF "3.prems"(1)] "3.prems"(1) by (auto simp: pbns_byte_ring_consume_def Let_def split: if_splits)
  have "ring_is_valid r1 \<and> ring_contents r = take n (ring_peek r) @ ring_contents r1 \<and> ring_cap r1 = ring_cap r"
    using ring_consume_contents [OF "3.prems"(1) n] ring_queue.get_split [OF "3.prems"(1) n] r1(1) by simp
  with "3.IH" [OF v(1) [symmetric] r1(1) [symmetric]] r1 show ?case by simp
qed simp

text \<open>C21:
  The ring is a bounded first-in first-out queue.  From a valid ring, after any sequence of
  fills with commits and reads with consumes that the ring admits, where a fill writes through
  the buffer that the ring handed out and a read sees the view it handed out, the bytes taken followed by
  the bytes still stored are the bytes stored at the start followed by the bytes committed;
  the ring stays valid and never holds more than its capacity.
\<close>

theorem byte_ring_is_fifo:
  assumes "ring_is_valid r" and "ring_run r ops = Some (put, got, r')"
  shows "got @ ring_contents r' = ring_contents r @ put \<and> ring_is_valid r' \<and>
    length (ring_contents r') \<le> ring_cap r"
  using ring_run_fifo [OF assms] ring_queue.bounded [of r'] by auto

theorem byte_ring_is_fifo_witness:
  "\<exists>r'. ring_run (the (pbns_byte_ring_init (Some zero_ring) \<lparr>b_ptr = 16, b_len = 0, b_mem = [0, 0, 0]\<rparr>))
      [Put [1, 2, 9] 2, Take 1, Put [3] 1, Put [4] 1, Take 2] = Some ([1, 2, 3, 4], [1, 2, 3], r') \<and> ring_contents r' = [4]"
proof -
  let ?r = "the (pbns_byte_ring_init (Some zero_ring) \<lparr>b_ptr = 16, b_len = 0, b_mem = [0, 0, 0]\<rparr>)"
  let ?ops = "[Put [1, 2, 9] 2, Take 1, Put [3] 1, Put [4] 1, Take 2]"
  have valid: "ring_is_valid ?r" "ring_contents ?r = []"
    by (simp_all add: pbns_byte_ring_init_def storage_is_valid_def zero_ring_def ring_is_valid_def ring_contents_def)
  obtain r' where run: "ring_run ?r ?ops = Some ([1, 2, 3, 4], [1, 2, 3], r')"
    by (simp add: pbns_byte_ring_init_def storage_is_valid_def zero_ring_def ring_is_valid_def pbns_byte_ring_writable_def
        writable_length_def ring_tail_def pbns_byte_ring_commit_def ring_fill_def store_at_def pbns_byte_ring_readable_def
        pbns_byte_ring_consume_def Let_def)
  from byte_ring_is_fifo [OF valid(1) run] valid(2) have "ring_contents r' = [4]" by simp
  with run show ?thesis by blast
qed

end
