(* ===== verification/Byte_Pump.thy ===== *)
theory Byte_Pump
  imports Byte_Ring
begin

text \<open>
  The proxy's byte pump, \<open>pico/src/byte_pump.c\<close>: it relays bytes between the USB and the TLS
  endpoint through two rings.  An endpoint is a pair of callbacks over an environment state
  (their \<open>context\<close>); a callback returns its status as the C integer, since the pump itself
  rejects values outside the enumeration.  A read callback gets the writable buffer and returns
  the count and the new contents of that buffer.

  The properties observe the pump through \<open>log_usb\<close> and \<open>log_tls\<close>, which record the bytes an
  endpoint supplied and accepted.  They rest on the interface \<open>byte_queue\<close> of the rings: nothing
  is lost, duplicated or reordered in either direction, whatever the endpoints do.
\<close>

subsection \<open>Endpoints, policy and state\<close>

record 'e pbns_pump_endpoint =
  pump_read :: "('e \<Rightarrow> pbns_buffer \<Rightarrow> int \<times> nat \<times> bytes \<times> 'e) ptr"
  pump_write :: "('e \<Rightarrow> pbns_view \<Rightarrow> int \<times> nat \<times> 'e) ptr"

record pbns_pump_session =
  ps_connected :: bool
  ps_initialized :: bool

record pbns_byte_pump_policy =
  usb_to_tls_minimum_write :: nat
  tls_to_usb_minimum_writable :: nat
  force_usb_to_tls_write :: bool

record pbns_byte_pump =
  usb_to_tls :: pbns_byte_ring
  tls_to_usb :: pbns_byte_ring
  usb_source_closed :: bool
  tls_source_closed :: bool
  usb_to_tls_read_generation :: nat
  usb_to_tls_write_generation :: nat
  bp_initialized :: bool
  bp_cancelled :: bool
  bp_failed :: bool

abbreviation PBNS_BYTE_PUMP_BATCH_MAX_STEPS :: nat where "PBNS_BYTE_PUMP_BATCH_MAX_STEPS \<equiv> 8"

definition zero_pump :: pbns_byte_pump where
  "zero_pump = \<lparr>usb_to_tls = zero_ring, tls_to_usb = zero_ring, usb_source_closed = False, tls_source_closed = False,
     usb_to_tls_read_generation = 0, usb_to_tls_write_generation = 0, bp_initialized = False, bp_cancelled = False,
     bp_failed = False\<rparr>"

definition default_policy :: pbns_byte_pump_policy where
  "default_policy = \<lparr>usb_to_tls_minimum_write = 0, tls_to_usb_minimum_writable = 0, force_usb_to_tls_write = False\<rparr>"

definition buffers_overlap :: "pbns_buffer \<Rightarrow> pbns_buffer \<Rightarrow> bool" where
  "buffers_overlap left right =
     (if b_cap left > UINTPTR_MAX - b_ptr left \<or> b_cap right > UINTPTR_MAX - b_ptr right then True
      else b_ptr left < b_ptr right + b_cap right \<and> b_ptr right < b_ptr left + b_cap left)"

definition endpoint_is_valid :: "'e pbns_pump_endpoint \<Rightarrow> bool" where
  "endpoint_is_valid ep \<longleftrightarrow> pump_read ep \<noteq> None \<and> pump_write ep \<noteq> None"

definition status_is_typed :: "int \<Rightarrow> bool" where
  "status_is_typed c \<longleftrightarrow> - 22 \<le> c \<and> c \<le> 0"

definition status_of_int :: "int \<Rightarrow> pbns_status" where
  "status_of_int c = pbns_status_table ! nat (- c)"

text \<open>\<open>size_t\<close> counters wrap around.\<close>

definition size_inc :: "nat \<Rightarrow> nat" where
  "size_inc n = (if n = SIZE_MAX then 0 else n + 1)"

subsection \<open>One direction\<close>

record 'e pump_direction =
  d_ring :: pbns_byte_ring
  d_source :: "'e pbns_pump_endpoint"
  d_sink :: "'e pbns_pump_endpoint"
  d_source_closed :: bool
  d_source_read_generation :: "nat ptr"
  d_sink_write_generation :: "nat ptr"
  d_minimum_write :: nat
  d_minimum_writable :: nat
  d_force_write :: bool

definition should_hold_write :: "'e pump_direction \<Rightarrow> bool" where
  "should_hold_write d =
     (let size = pbns_byte_ring_size (d_ring d)
      in d_minimum_write d \<noteq> 0 \<and> size < d_minimum_write d \<and> \<not> d_force_write d \<and> \<not> d_source_closed d \<and>
         size < pbns_byte_ring_capacity (d_ring d))"

definition write_pending :: "'e pump_direction \<Rightarrow> bool \<Rightarrow> 'e \<Rightarrow> pbns_status \<times> 'e pump_direction \<times> bool \<times> 'e" where
  "write_pending d made_progress e =
     (case pbns_byte_ring_readable (d_ring d) (Some null_view) of
        (status, readable) \<Rightarrow>
          if status \<noteq> PBNS_OK \<or> v_len (the readable) = 0 \<or> should_hold_write d then (status, d, made_progress, e)
          else
            (case the (pump_write (d_sink d)) e (the readable) of
               (code, written, e') \<Rightarrow>
                 if \<not> status_is_typed code then (PBNS_ERR_IO, d, made_progress, e')
                 else if status_of_int code = PBNS_ERR_WOULD_BLOCK then
                   ((if written = 0 then PBNS_OK else PBNS_ERR_IO), d, made_progress, e')
                 else if status_of_int code \<noteq> PBNS_OK then (status_of_int code, d, made_progress, e')
                 else if written = 0 \<or> written > v_len (the readable) then (PBNS_ERR_IO, d, made_progress, e')
                 else
                   (case pbns_byte_ring_consume (d_ring d) written of
                      (status, ring) \<Rightarrow>
                        if status = PBNS_OK
                        then (status, d\<lparr>d_ring := ring,
                               d_sink_write_generation := map_option size_inc (d_sink_write_generation d)\<rparr>, True, e')
                        else (status, d\<lparr>d_ring := ring\<rparr>, made_progress, e'))))"

definition read_available :: "'e pump_direction \<Rightarrow> bool \<Rightarrow> 'e \<Rightarrow> pbns_status \<times> 'e pump_direction \<times> bool \<times> 'e" where
  "read_available d made_progress e =
     (if d_source_closed d then (PBNS_OK, d, made_progress, e)
      else
        (case pbns_byte_ring_writable (d_ring d) (Some null_buffer) of
           (status, writable) \<Rightarrow>
             if status \<noteq> PBNS_OK \<or> b_cap (the writable) = 0 then (status, d, made_progress, e)
             else if d_minimum_writable d \<noteq> 0 \<and> pbns_byte_ring_size (d_ring d) \<noteq> 0 \<and>
                     b_cap (the writable) < d_minimum_writable d
             then (PBNS_OK, d, made_progress, e)
             else
               (case the (pump_read (d_source d)) e (the writable) of
                  (code, received, mem, e') \<Rightarrow>
                    let d = d\<lparr>d_ring := ring_fill (d_ring d) (the writable) mem\<rparr>
                    in if \<not> status_is_typed code then (PBNS_ERR_IO, d, made_progress, e')
                       else if status_of_int code = PBNS_ERR_WOULD_BLOCK then
                         ((if received = 0 then PBNS_OK else PBNS_ERR_IO), d, made_progress, e')
                       else if status_of_int code \<noteq> PBNS_OK then (status_of_int code, d, made_progress, e')
                       else if received > b_cap (the writable) then (PBNS_ERR_IO, d, made_progress, e')
                       else if received = 0 then (PBNS_OK, d\<lparr>d_source_closed := True\<rparr>, True, e')
                       else
                         (case pbns_byte_ring_commit (d_ring d) received of
                            (status, ring) \<Rightarrow>
                              if status = PBNS_OK
                              then (status, d\<lparr>d_ring := ring,
                                     d_source_read_generation := map_option size_inc (d_source_read_generation d)\<rparr>, True, e')
                              else (status, d\<lparr>d_ring := ring\<rparr>, made_progress, e')))))"

definition process_direction :: "'e pump_direction \<Rightarrow> bool \<Rightarrow> 'e \<Rightarrow> pbns_status \<times> 'e pump_direction \<times> bool \<times> 'e" where
  "process_direction d made_progress e =
     (case write_pending d made_progress e of
        (status, d, made_progress, e) \<Rightarrow>
          if status \<noteq> PBNS_OK then (status, d, made_progress, e) else read_available d made_progress e)"

subsection \<open>The pump\<close>

definition fail_pump :: "pbns_byte_pump \<Rightarrow> pbns_status \<Rightarrow> pbns_status \<times> pbns_byte_pump" where
  "fail_pump pump status = (status, pump\<lparr>bp_failed := True\<rparr>)"

definition pbns_pump_session_init :: "pbns_pump_session ptr \<Rightarrow> pbns_pump_session ptr" where
  "pbns_pump_session_init session = map_option (\<lambda>_. \<lparr>ps_connected = False, ps_initialized = True\<rparr>) session"

definition pbns_pump_session_observe ::
  "pbns_pump_session ptr \<Rightarrow> bool \<Rightarrow> bool ptr \<Rightarrow> pbns_status \<times> pbns_pump_session ptr \<times> bool ptr" where
  "pbns_pump_session_observe session connected disconnected =
     (let disconnected = map_option (\<lambda>_. False) disconnected
      in if session = None \<or> \<not> ps_initialized (the session) \<or> disconnected = None
         then (PBNS_ERR_ARGUMENT, session, disconnected)
         else (PBNS_OK, Some ((the session)\<lparr>ps_connected := connected\<rparr>),
               Some (ps_connected (the session) \<and> \<not> connected)))"

definition pbns_byte_pump_init :: "pbns_byte_pump ptr \<Rightarrow> pbns_buffer \<Rightarrow> pbns_buffer \<Rightarrow> pbns_byte_pump ptr" where
  "pbns_byte_pump_init pump usb_to_tls_storage tls_to_usb_storage =
     (case pump of
        None \<Rightarrow> None
      | Some _ \<Rightarrow>
          let p = zero_pump\<lparr>usb_to_tls := the (pbns_byte_ring_init (Some zero_ring) usb_to_tls_storage),
                            tls_to_usb := the (pbns_byte_ring_init (Some zero_ring) tls_to_usb_storage)\<rparr>
          in if \<not> ring_initialized (usb_to_tls p) \<or> \<not> ring_initialized (tls_to_usb p) \<or>
                buffers_overlap usb_to_tls_storage tls_to_usb_storage
             then Some zero_pump
             else Some (p\<lparr>bp_initialized := True\<rparr>))"

definition pbns_byte_pump_reset :: "pbns_byte_pump ptr \<Rightarrow> pbns_byte_pump ptr" where
  "pbns_byte_pump_reset pump =
     (case pump of
        None \<Rightarrow> None
      | Some p \<Rightarrow>
          if \<not> bp_initialized p then Some p
          else Some (p\<lparr>usb_to_tls := pbns_byte_ring_reset (usb_to_tls p), tls_to_usb := pbns_byte_ring_reset (tls_to_usb p),
                       usb_source_closed := False, tls_source_closed := False, usb_to_tls_read_generation := 0,
                       usb_to_tls_write_generation := 0, bp_cancelled := False, bp_failed := False\<rparr>))"

definition pbns_byte_pump_cancel :: "pbns_byte_pump ptr \<Rightarrow> pbns_byte_pump ptr" where
  "pbns_byte_pump_cancel pump =
     (case pump of
        None \<Rightarrow> None
      | Some p \<Rightarrow>
          if \<not> bp_initialized p then Some p
          else Some (p\<lparr>usb_to_tls := pbns_byte_ring_reset (usb_to_tls p), tls_to_usb := pbns_byte_ring_reset (tls_to_usb p),
                       bp_cancelled := True\<rparr>))"

definition pbns_byte_pump_is_complete :: "pbns_byte_pump \<Rightarrow> bool" where
  "pbns_byte_pump_is_complete p \<longleftrightarrow>
     bp_initialized p \<and> \<not> bp_cancelled p \<and> \<not> bp_failed p \<and> usb_source_closed p \<and> tls_source_closed p \<and>
     pbns_byte_ring_size (usb_to_tls p) = 0 \<and> pbns_byte_ring_size (tls_to_usb p) = 0"

definition usb_to_tls_direction ::
  "pbns_byte_pump \<Rightarrow> 'e pbns_pump_endpoint \<Rightarrow> 'e pbns_pump_endpoint \<Rightarrow> pbns_byte_pump_policy \<Rightarrow> 'e pump_direction" where
  "usb_to_tls_direction p usb tls policy =
     \<lparr>d_ring = usb_to_tls p, d_source = usb, d_sink = tls, d_source_closed = usb_source_closed p,
      d_source_read_generation = Some (usb_to_tls_read_generation p),
      d_sink_write_generation = Some (usb_to_tls_write_generation p),
      d_minimum_write = usb_to_tls_minimum_write policy, d_minimum_writable = 0,
      d_force_write = force_usb_to_tls_write policy\<rparr>"

definition tls_to_usb_direction ::
  "pbns_byte_pump \<Rightarrow> 'e pbns_pump_endpoint \<Rightarrow> 'e pbns_pump_endpoint \<Rightarrow> pbns_byte_pump_policy \<Rightarrow> 'e pump_direction" where
  "tls_to_usb_direction p usb tls policy =
     \<lparr>d_ring = tls_to_usb p, d_source = tls, d_sink = usb, d_source_closed = tls_source_closed p,
      d_source_read_generation = None, d_sink_write_generation = None, d_minimum_write = 0,
      d_minimum_writable = tls_to_usb_minimum_writable policy, d_force_write = False\<rparr>"

definition pump_step_body ::
  "pbns_byte_pump \<Rightarrow> 'e pbns_pump_endpoint \<Rightarrow> 'e pbns_pump_endpoint \<Rightarrow> pbns_byte_pump_policy \<Rightarrow> 'e \<Rightarrow>
   pbns_status \<times> pbns_byte_pump \<times> bool \<times> 'e" where
  "pump_step_body p usb tls policy e =
     (case process_direction (usb_to_tls_direction p usb tls policy) False e of
        (status, d, made_progress, e) \<Rightarrow>
          let p = p\<lparr>usb_to_tls := d_ring d, usb_source_closed := d_source_closed d,
                    usb_to_tls_read_generation := the (d_source_read_generation d),
                    usb_to_tls_write_generation := the (d_sink_write_generation d)\<rparr>
          in if status \<noteq> PBNS_OK then (case fail_pump p status of (status, p) \<Rightarrow> (status, p, made_progress, e))
             else
               (case process_direction (tls_to_usb_direction p usb tls policy) made_progress e of
                  (status, d, made_progress, e) \<Rightarrow>
                    let p = p\<lparr>tls_to_usb := d_ring d, tls_source_closed := d_source_closed d\<rparr>
                    in if status = PBNS_OK then (PBNS_OK, p, made_progress, e)
                       else (case fail_pump p status of (status, p) \<Rightarrow> (status, p, made_progress, e))))"

definition pbns_byte_pump_step_with_policy ::
  "pbns_byte_pump ptr \<Rightarrow> 'e pbns_pump_endpoint \<Rightarrow> 'e pbns_pump_endpoint \<Rightarrow> pbns_byte_pump_policy ptr \<Rightarrow> bool ptr \<Rightarrow> 'e \<Rightarrow>
   pbns_status \<times> pbns_byte_pump ptr \<times> bool ptr \<times> 'e" where
  "pbns_byte_pump_step_with_policy pump usb tls policy made_progress e =
     (if made_progress = None then (PBNS_ERR_ARGUMENT, pump, None, e)
      else if pump = None \<or> policy = None \<or> \<not> endpoint_is_valid usb \<or> \<not> endpoint_is_valid tls
      then (PBNS_ERR_ARGUMENT, pump, Some False, e)
      else
        let p = the pump
        in if \<not> bp_initialized p \<or> bp_cancelled p \<or> bp_failed p then (PBNS_ERR_STATE, pump, Some False, e)
           else if pbns_byte_pump_is_complete p then (PBNS_OK, pump, Some False, e)
           else
             (case pump_step_body p usb tls (the policy) e of
                (status, p, made_progress, e) \<Rightarrow> (status, Some p, Some made_progress, e)))"

definition pbns_byte_pump_step ::
  "pbns_byte_pump ptr \<Rightarrow> 'e pbns_pump_endpoint \<Rightarrow> 'e pbns_pump_endpoint \<Rightarrow> bool ptr \<Rightarrow> 'e \<Rightarrow>
   pbns_status \<times> pbns_byte_pump ptr \<times> bool ptr \<times> 'e" where
  "pbns_byte_pump_step pump usb tls made_progress e =
     pbns_byte_pump_step_with_policy pump usb tls (Some default_policy) made_progress e"

text \<open>The loop of a batch: \<open>n\<close> iterations are left, \<open>step_count\<close> are done.\<close>

fun pump_batch_loop ::
  "nat \<Rightarrow> nat \<Rightarrow> pbns_byte_pump \<Rightarrow> 'e pbns_pump_endpoint \<Rightarrow> 'e pbns_pump_endpoint \<Rightarrow> pbns_byte_pump_policy \<Rightarrow> nat \<Rightarrow>
   bool \<Rightarrow> 'e \<Rightarrow> pbns_status \<times> pbns_byte_pump \<times> nat \<times> bool \<times> 'e" where
  "pump_batch_loop 0 step_count p usb tls batch_policy forced_write_generation made_progress e =
     (PBNS_OK, p, step_count, made_progress, e)"
| "pump_batch_loop (Suc n) step_count p usb tls batch_policy forced_write_generation made_progress e =
     (case pbns_byte_pump_step_with_policy (Some p) usb tls (Some batch_policy) (Some False) e of
        (status, p, step_progress, e) \<Rightarrow>
          let p = the p; step_progress = the step_progress; made_progress = made_progress \<or> step_progress
          in if status \<noteq> PBNS_OK then (status, p, step_count + 1, made_progress, e)
             else
               let batch_policy =
                     (if force_usb_to_tls_write batch_policy \<and>
                         usb_to_tls_write_generation p \<noteq> forced_write_generation
                      then batch_policy\<lparr>force_usb_to_tls_write := False\<rparr> else batch_policy)
               in if \<not> step_progress \<or> pbns_byte_pump_is_complete p then (PBNS_OK, p, step_count + 1, made_progress, e)
                  else pump_batch_loop n (step_count + 1) p usb tls batch_policy forced_write_generation made_progress e)"

definition pbns_byte_pump_batch_with_policy ::
  "pbns_byte_pump ptr \<Rightarrow> 'e pbns_pump_endpoint \<Rightarrow> 'e pbns_pump_endpoint \<Rightarrow> pbns_byte_pump_policy ptr \<Rightarrow> nat ptr \<Rightarrow> bool ptr \<Rightarrow> 'e \<Rightarrow>
   pbns_status \<times> pbns_byte_pump ptr \<times> nat ptr \<times> bool ptr \<times> 'e" where
  "pbns_byte_pump_batch_with_policy pump usb tls policy steps made_progress e =
     (let steps = map_option (\<lambda>_. 0) steps; made_progress = map_option (\<lambda>_. False) made_progress
      in if pump = None \<or> policy = None \<or> steps = None \<or> made_progress = None \<or> \<not> endpoint_is_valid usb \<or>
            \<not> endpoint_is_valid tls
         then (PBNS_ERR_ARGUMENT, pump, steps, made_progress, e)
         else
           let p = the pump
           in if \<not> bp_initialized p \<or> bp_cancelled p \<or> bp_failed p then (PBNS_ERR_STATE, pump, steps, made_progress, e)
              else
                (case pump_batch_loop PBNS_BYTE_PUMP_BATCH_MAX_STEPS 0 p usb tls (the policy)
                        (usb_to_tls_write_generation p) False e of
                   (status, p, steps, made_progress, e) \<Rightarrow> (status, Some p, Some steps, Some made_progress, e)))"

definition pbns_byte_pump_batch ::
  "pbns_byte_pump ptr \<Rightarrow> 'e pbns_pump_endpoint \<Rightarrow> 'e pbns_pump_endpoint \<Rightarrow> nat ptr \<Rightarrow> bool ptr \<Rightarrow> 'e \<Rightarrow>
   pbns_status \<times> pbns_byte_pump ptr \<times> nat ptr \<times> bool ptr \<times> 'e" where
  "pbns_byte_pump_batch pump usb tls steps made_progress e =
     pbns_byte_pump_batch_with_policy pump usb tls (Some default_policy) steps made_progress e"

subsection \<open>Effect of one direction\<close>

text \<open>The documented contract of a read callback: it writes inside the buffer it is given.\<close>

definition reads_in_bounds :: "'e pbns_pump_endpoint \<Rightarrow> bool" where
  "reads_in_bounds ep \<longleftrightarrow>
     (\<forall>f e buf c n mem e'. pump_read ep = Some f \<longrightarrow> f e buf = (c, n, mem, e') \<longrightarrow> length mem = b_cap buf)"

text \<open>What a completed callback contributes to the data stream.\<close>

definition supplied :: "int \<Rightarrow> nat \<Rightarrow> bytes \<Rightarrow> bytes" where
  "supplied code n mem = (if code = 0 \<and> n \<le> length mem then take n mem else [])"

definition accepted :: "int \<Rightarrow> nat \<Rightarrow> bytes \<Rightarrow> bytes" where
  "accepted code n src = (if code = 0 \<and> n \<le> length src then take n src else [])"

lemma status_of_int_OK: "status_is_typed c \<Longrightarrow> status_of_int c = PBNS_OK \<longleftrightarrow> c = 0"
proof
  assume "status_is_typed c" and ok: "status_of_int c = PBNS_OK"
  then have "nat (- c) < 23" by (auto simp: status_is_typed_def)
  then have "nat (- c) \<in> set [0..<23]" by simp
  then have "nat (- c) = 0" using ok by (auto simp: status_of_int_def pbns_status_table_def upt_rec)
  then show "c = 0" using \<open>status_is_typed c\<close> by (simp add: status_is_typed_def)
qed (simp add: status_of_int_def pbns_status_table_def)

lemma ring_fill_contents:
  assumes "ring_is_valid r" and "length new = writable_length r"
  shows "ring_contents (ring_fill r (ring_window r) new) = ring_contents r"
proof -
  have "ring_fill r (ring_window r) new = ring_put r new 0"
    using ring_fill_valid [OF assms] by (simp add: ring_put_def pbns_byte_ring_commit_def)
  then show ?thesis using ring_put_contents [OF assms, of 0] by simp
qed

lemma write_pending_effect:
  assumes r: "ring_is_valid (d_ring d)" and w: "pump_write (d_sink d) = Some f"
    and res: "write_pending d p e = (status, d', p', e')"
  shows "ring_is_valid (d_ring d') \<and> d_source d' = d_source d \<and>
    (e' = e \<and> ring_contents (d_ring d') = ring_contents (d_ring d) \<or>
     (\<exists>v c n. f e v = (c, n, e') \<and> accepted c n (v_bytes v) @ ring_contents (d_ring d') = ring_contents (d_ring d)))"
proof -
  let ?r = "d_ring d"
  obtain v where v: "pbns_byte_ring_readable ?r (Some null_view) = (PBNS_OK, Some v)" "v_bytes v = ring_peek ?r"
    using r by (cases "pbns_byte_ring_readable ?r (Some null_view)")
      (auto simp: ring_peek_def pbns_byte_ring_readable_def Let_def split: if_splits)
  show ?thesis
  proof (cases "v_len v = 0 \<or> should_hold_write d")
    case True
    with res v r show ?thesis by (auto simp: write_pending_def)
  next
    case False
    obtain c n e1 where f: "f e v = (c, n, e1)" by (cases "f e v") auto
    have empty: "accepted c 0 bs = []" for bs by (simp add: accepted_def)
    show ?thesis
    proof (cases "status_is_typed c \<and> c = 0 \<and> 0 < n \<and> n \<le> v_len v")
      case True
      then have n: "n \<le> length (ring_peek ?r)" by (simp add: v)
      note con = ring_consume_contents [OF r n] ring_queue.get_split [OF r n]
      from True False res v w f con(1) have "d_ring d' = snd (pbns_byte_ring_consume ?r n)" "e' = e1" "d_source d' = d_source d"
        by (auto simp: write_pending_def status_of_int_OK status_of_int_def pbns_status_table_def split: prod.splits if_splits)
      moreover have "accepted c n (v_bytes v) = take n (ring_peek ?r)" using True v by (simp add: accepted_def)
      ultimately show ?thesis using con f by metis
    next
      case bad: False
      with False res v w f status_of_int_OK [of c] have "d' = d" "e' = e1"
        by (auto simp: write_pending_def split: if_splits)
      moreover have "accepted c n (v_bytes v) = []"
        using bad by (auto simp: accepted_def status_is_typed_def)
      ultimately show ?thesis using f r by (metis append_Nil)
    qed
  qed
qed

lemma read_available_effect:
  assumes r: "ring_is_valid (d_ring d)" and w: "pump_read (d_source d) = Some f" and b: "reads_in_bounds (d_source d)"
    and res: "read_available d p e = (status, d', p', e')"
  shows "ring_is_valid (d_ring d') \<and>
    (e' = e \<and> ring_contents (d_ring d') = ring_contents (d_ring d) \<or>
     (\<exists>buf c n mem. f e buf = (c, n, mem, e') \<and> ring_contents (d_ring d') = ring_contents (d_ring d) @ supplied c n mem))"
proof -
  let ?r = "d_ring d"
  obtain b where wr: "pbns_byte_ring_writable ?r (Some null_buffer) = (PBNS_OK, Some b)"
    using r by (cases "writable_length ?r = 0") (simp_all add: pbns_byte_ring_writable_def Let_def)
  have cap: "b_cap b = writable_length ?r" using ring_writable_cap [OF wr] by simp
  obtain c n mem e1 where f: "f e b = (c, n, mem, e1)" by (cases "f e b") auto
  have mem: "length mem = writable_length ?r" using b w f cap unfolding reads_in_bounds_def by metis
  note fill = ring_fill_valid [OF r mem, unfolded wr snd_conv option.sel] ring_fill_contents [OF r mem, unfolded wr snd_conv option.sel]
  show ?thesis
  proof (cases "d_source_closed d \<or> b_cap b = 0 \<or> d_minimum_writable d \<noteq> 0 \<and> pbns_byte_ring_size ?r \<noteq> 0 \<and> b_cap b < d_minimum_writable d")
    case True
    with res wr r show ?thesis by (auto simp: read_available_def split: if_splits)
  next
    case go: False
    show ?thesis
    proof (cases "c = 0 \<and> n \<le> writable_length ?r \<and> 0 < n")
      case True
      then have st: "status_is_typed c" "status_of_int c = PBNS_OK" by (simp_all add: status_is_typed_def status_of_int_def pbns_status_table_def)
      have com: "pbns_byte_ring_commit (ring_fill ?r b mem) n = (PBNS_OK, ring_put ?r mem n)"
        using fill True by (simp add: wr ring_put_def pbns_byte_ring_commit_def)
      from True go res wr w f cap st com have "d_ring d' = ring_put ?r mem n" "e' = e1"
        by (auto simp: read_available_def Let_def split: if_splits)
      moreover have "supplied c n mem = take n mem" using True mem by (simp add: supplied_def)
      ultimately show ?thesis using f ring_put_contents [OF r mem, of n] True by metis
    next
      case False
      with go res wr w f cap status_of_int_OK [of c] have "d_ring d' = ring_fill ?r b mem" "e' = e1"
        by (auto simp: read_available_def Let_def split: if_splits)
      moreover have "supplied c n mem = []" using False mem by (auto simp: supplied_def)
      ultimately show ?thesis using f fill by (metis append_Nil2)
    qed
  qed
qed

lemma direction_relay:
  assumes r: "ring_is_valid (d_ring d)" and fw: "pump_write (d_sink d) = Some fw" and fr: "pump_read (d_source d) = Some fr"
    and b: "reads_in_bounds (d_source d)"
    and W: "\<And>e v c n e'. fw e v = (c, n, e') \<Longrightarrow>
      out e' = out e @ accepted c n (v_bytes v) \<and> inp e' = inp e \<and> keep e' = keep e"
    and R: "\<And>e buf c n mem e'. fr e buf = (c, n, mem, e') \<Longrightarrow>
      inp e' = inp e @ supplied c n mem \<and> out e' = out e \<and> keep e' = keep e"
    and inv: "out e @ ring_contents (d_ring d) = inp e"
    and res: "process_direction d p e = (status, d', p', e')"
  shows "ring_is_valid (d_ring d') \<and> out e' @ ring_contents (d_ring d') = inp e' \<and> keep e' = keep e"
proof -
  obtain st1 d1 p1 e1 where w: "write_pending d p e = (st1, d1, p1, e1)" by (metis prod_cases4)
  have d1: "ring_is_valid (d_ring d1)" "d_source d1 = d_source d" using write_pending_effect [OF r fw w] by simp_all
  have wr: "out e1 @ ring_contents (d_ring d1) = inp e1 \<and> keep e1 = keep e"
    using write_pending_effect [OF r fw w] W inv by (metis append_assoc)
  show ?thesis
  proof (cases "st1 = PBNS_OK")
    case False
    with w res wr d1 show ?thesis by (simp add: process_direction_def)
  next
    case True
    then have ra: "read_available d1 p1 e1 = (status, d', p', e')" using w res by (simp add: process_direction_def)
    have "pump_read (d_source d1) = Some fr" "reads_in_bounds (d_source d1)" using fr b d1 by simp_all
    note eff = read_available_effect [OF d1(1) this ra]
    then have "out e' @ ring_contents (d_ring d') = inp e' \<and> keep e' = keep e1"
      using R wr by (metis append_assoc)
    with eff wr show ?thesis by simp
  qed
qed

subsection \<open>Observed streams\<close>

record 'e pump_log =
  env :: 'e
  usb_in :: bytes
  usb_out :: bytes
  tls_in :: bytes
  tls_out :: bytes

definition log_usb :: "'e pbns_pump_endpoint \<Rightarrow> 'e pump_log pbns_pump_endpoint" where
  "log_usb ep =
     \<lparr>pump_read = map_option (\<lambda>f s buf. case f (env s) buf of (c, n, mem, e) \<Rightarrow>
        (c, n, mem, s\<lparr>env := e, usb_in := usb_in s @ supplied c n mem\<rparr>)) (pump_read ep),
      pump_write = map_option (\<lambda>f s v. case f (env s) v of (c, n, e) \<Rightarrow>
        (c, n, s\<lparr>env := e, usb_out := usb_out s @ accepted c n (v_bytes v)\<rparr>)) (pump_write ep)\<rparr>"

definition log_tls :: "'e pbns_pump_endpoint \<Rightarrow> 'e pump_log pbns_pump_endpoint" where
  "log_tls ep =
     \<lparr>pump_read = map_option (\<lambda>f s buf. case f (env s) buf of (c, n, mem, e) \<Rightarrow>
        (c, n, mem, s\<lparr>env := e, tls_in := tls_in s @ supplied c n mem\<rparr>)) (pump_read ep),
      pump_write = map_option (\<lambda>f s v. case f (env s) v of (c, n, e) \<Rightarrow>
        (c, n, s\<lparr>env := e, tls_out := tls_out s @ accepted c n (v_bytes v)\<rparr>)) (pump_write ep)\<rparr>"

text \<open>The relay invariant: what went out, followed by what is stored, is what came in.\<close>

definition relayed :: "pbns_byte_pump \<Rightarrow> 'e pump_log \<Rightarrow> bool" where
  "relayed p s \<longleftrightarrow> ring_is_valid (usb_to_tls p) \<and> ring_is_valid (tls_to_usb p) \<and>
     tls_out s @ ring_contents (usb_to_tls p) = usb_in s \<and>
     usb_out s @ ring_contents (tls_to_usb p) = tls_in s"

lemma log_in_bounds [simp]:
  "reads_in_bounds ep \<Longrightarrow> reads_in_bounds (log_usb ep)" "reads_in_bounds ep \<Longrightarrow> reads_in_bounds (log_tls ep)"
  by (fastforce simp: reads_in_bounds_def log_usb_def log_tls_def split: prod.splits)+

lemma log_valid [simp]:
  "endpoint_is_valid (log_usb ep) = endpoint_is_valid ep" "endpoint_is_valid (log_tls ep) = endpoint_is_valid ep"
  by (auto simp: endpoint_is_valid_def log_usb_def log_tls_def)

lemma usb_to_tls_relay:
  assumes "ring_is_valid (d_ring d)" and "d_source d = log_usb usb" and "d_sink d = log_tls tls"
    and "endpoint_is_valid usb" and "endpoint_is_valid tls" and "reads_in_bounds usb"
    and "tls_out s @ ring_contents (d_ring d) = usb_in s"
    and "process_direction d p s = (status, d', p', s')"
  shows "ring_is_valid (d_ring d') \<and> tls_out s' @ ring_contents (d_ring d') = usb_in s' \<and>
    (usb_out s', tls_in s') = (usb_out s, tls_in s)"
proof -
  obtain fr fw where f: "pump_read usb = Some fr" "pump_write tls = Some fw"
    using assms(4,5) by (auto simp: endpoint_is_valid_def)
  have b: "reads_in_bounds (d_source d)" using assms(2,6) by simp
  show ?thesis
    by (rule direction_relay [where out = tls_out and inp = usb_in and keep = "\<lambda>s. (usb_out s, tls_in s)", OF assms(1) _ _ b _ _ assms(7,8)])
      (use f assms(2,3) in \<open>auto simp: log_usb_def log_tls_def split: prod.splits\<close>)
qed

lemma tls_to_usb_relay:
  assumes "ring_is_valid (d_ring d)" and "d_source d = log_tls tls" and "d_sink d = log_usb usb"
    and "endpoint_is_valid usb" and "endpoint_is_valid tls" and "reads_in_bounds tls"
    and "usb_out s @ ring_contents (d_ring d) = tls_in s"
    and "process_direction d p s = (status, d', p', s')"
  shows "ring_is_valid (d_ring d') \<and> usb_out s' @ ring_contents (d_ring d') = tls_in s' \<and>
    (tls_out s', usb_in s') = (tls_out s, usb_in s)"
proof -
  obtain fr fw where f: "pump_read tls = Some fr" "pump_write usb = Some fw"
    using assms(4,5) by (auto simp: endpoint_is_valid_def)
  have b: "reads_in_bounds (d_source d)" using assms(2,6) by simp
  show ?thesis
    by (rule direction_relay [where out = usb_out and inp = tls_in and keep = "\<lambda>s. (tls_out s, usb_in s)", OF assms(1) _ _ b _ _ assms(7,8)])
      (use f assms(2,3) in \<open>auto simp: log_usb_def log_tls_def split: prod.splits\<close>)
qed

lemma pump_step_relayed:
  assumes "relayed p s" and "endpoint_is_valid usb" and "endpoint_is_valid tls" and "reads_in_bounds usb" and "reads_in_bounds tls"
    and "pbns_byte_pump_step_with_policy (Some p) (log_usb usb) (log_tls tls) (Some policy) (Some b) s = (status, p', b', s')"
  shows "\<exists>q. p' = Some q \<and> relayed q s'"
proof (cases "\<not> bp_initialized p \<or> bp_cancelled p \<or> bp_failed p \<or> pbns_byte_pump_is_complete p")
  case True
  with assms show ?thesis by (auto simp: pbns_byte_pump_step_with_policy_def Let_def split: if_splits)
next
  case False
  let ?d = "usb_to_tls_direction p (log_usb usb) (log_tls tls) policy"
  obtain st1 d1 b1 s1 where 1: "process_direction ?d False s = (st1, d1, b1, s1)" by (metis prod_cases4)
  have r1: "ring_is_valid (d_ring d1)" "tls_out s1 @ ring_contents (d_ring d1) = usb_in s1"
    "usb_out s1 = usb_out s" "tls_in s1 = tls_in s"
    using usb_to_tls_relay [of ?d usb tls s, OF _ _ _ assms(2-4) _ 1] assms(1)
    by (simp_all add: relayed_def usb_to_tls_direction_def)
  define p1 where "p1 = p\<lparr>usb_to_tls := d_ring d1, usb_source_closed := d_source_closed d1,
                    usb_to_tls_read_generation := the (d_source_read_generation d1),
                    usb_to_tls_write_generation := the (d_sink_write_generation d1)\<rparr>"
  have p1: "relayed p1 s1" using assms(1) r1 by (simp add: relayed_def p1_def)
  let ?e = "tls_to_usb_direction p1 (log_usb usb) (log_tls tls) policy"
  obtain st2 d2 b2 s2 where 2: "process_direction ?e b1 s1 = (st2, d2, b2, s2)" by (metis prod_cases4)
  have r2: "ring_is_valid (d_ring d2)" "usb_out s2 @ ring_contents (d_ring d2) = tls_in s2"
    "tls_out s2 = tls_out s1" "usb_in s2 = usb_in s1"
    using tls_to_usb_relay [of ?e tls usb s1, OF _ _ _ assms(2,3,5) _ 2] p1
    by (simp_all add: relayed_def tls_to_usb_direction_def)
  have "\<exists>q. p' = Some q \<and> (s' = s1 \<and> usb_to_tls q = usb_to_tls p1 \<and> tls_to_usb q = tls_to_usb p1 \<or>
      s' = s2 \<and> usb_to_tls q = usb_to_tls p1 \<and> tls_to_usb q = d_ring d2)"
    using assms(2,3,6) False 1 2
    by (auto simp: pbns_byte_pump_step_with_policy_def pump_step_body_def Let_def fail_pump_def p1_def [symmetric] split: if_splits)
  with p1 r2 show ?thesis by (auto simp: relayed_def)
qed

lemma pump_batch_loop_relayed:
  assumes "relayed p s" and "endpoint_is_valid usb" and "endpoint_is_valid tls" and "reads_in_bounds usb" and "reads_in_bounds tls"
    and "pump_batch_loop n k p (log_usb usb) (log_tls tls) policy g b s = (status, p', k', b', s')"
  shows "relayed p' s' \<and> k \<le> k' \<and> k' \<le> k + n \<and> (0 < n \<longrightarrow> k < k')"
  using assms(1,6)
proof (induction n arbitrary: k p policy b s)
  case (Suc n)
  obtain st q c s1 where step: "pbns_byte_pump_step_with_policy (Some p) (log_usb usb) (log_tls tls) (Some policy) (Some False) s = (st, q, c, s1)"
    by (metis prod_cases4)
  obtain p1 where p1: "q = Some p1" "relayed p1 s1"
    using pump_step_relayed [OF Suc.prems(1) assms(2-5) step] by blast
  show ?case
    using Suc.IH [OF p1(2)] Suc.prems(2) step p1 by (fastforce simp: Let_def split: if_splits)
qed simp

lemma pump_batch_relayed:
  assumes "relayed p s" and "endpoint_is_valid usb" and "endpoint_is_valid tls" and "reads_in_bounds usb" and "reads_in_bounds tls"
    and "pbns_byte_pump_batch_with_policy (Some p) (log_usb usb) (log_tls tls) (Some policy) (Some k) (Some b) s = (status, q, k', b', s')"
  shows "\<exists>p' n. q = Some p' \<and> k' = Some n \<and> relayed p' s' \<and> n \<le> 8"
proof (cases "bp_initialized p \<and> \<not> bp_cancelled p \<and> \<not> bp_failed p")
  case True
  obtain st p1 n c s1 where run: "pump_batch_loop 8 0 p (log_usb usb) (log_tls tls) policy (usb_to_tls_write_generation p) False s = (st, p1, n, c, s1)"
    by (metis prod_cases5)
  with True assms(2,3,6) pump_batch_loop_relayed [OF assms(1-5) run] show ?thesis
    by (auto simp: pbns_byte_pump_batch_with_policy_def)
next
  case False
  with assms show ?thesis by (auto simp: pbns_byte_pump_batch_with_policy_def)
qed

text \<open>A tunnel: successive batches under policies that the main loop chooses.\<close>

fun pump_run ::
  "pbns_byte_pump \<Rightarrow> 'e pbns_pump_endpoint \<Rightarrow> 'e pbns_pump_endpoint \<Rightarrow> pbns_byte_pump_policy list \<Rightarrow> 'e \<Rightarrow> pbns_byte_pump \<times> 'e" where
  "pump_run p usb tls [] e = (p, e)"
| "pump_run p usb tls (policy # policies) e =
     (case pbns_byte_pump_batch_with_policy (Some p) usb tls (Some policy) (Some 0) (Some False) e of
        (_, p, _, _, e) \<Rightarrow> pump_run (the p) usb tls policies e)"

lemma pump_run_relayed:
  assumes "relayed p s" and "endpoint_is_valid usb" and "endpoint_is_valid tls" and "reads_in_bounds usb" and "reads_in_bounds tls"
    and "pump_run p (log_usb usb) (log_tls tls) policies s = (p', s')"
  shows "relayed p' s'"
  using assms(1,6)
proof (induction policies arbitrary: p s)
  case (Cons policy policies)
  obtain st q k b s1 where batch: "pbns_byte_pump_batch_with_policy (Some p) (log_usb usb) (log_tls tls) (Some policy) (Some 0) (Some False) s = (st, q, k, b, s1)"
    by (metis prod_cases5)
  with pump_batch_relayed [OF Cons.prems(1) assms(2-5) batch] Cons.IH Cons.prems(2) show ?case by auto
qed simp

lemma pump_init_relayed:
  assumes "pbns_byte_pump_init (Some p0) a b = Some p" and "bp_initialized p"
  shows "relayed p \<lparr>env = e, usb_in = [], usb_out = [], tls_in = [], tls_out = []\<rparr>"
  using assms
  by (auto simp: pbns_byte_pump_init_def pbns_byte_ring_init_def relayed_def ring_is_valid_def ring_contents_def zero_ring_def
      zero_pump_def storage_is_valid_def Let_def split: if_splits)

subsection \<open>Properties\<close>

text \<open>C16:
  The tunnel relays both byte streams faithfully.  Start from a freshly initialised pump and
  run any number of batches with any policies against any two endpoints whose reads stay in
  the buffer they are given; errors, short writes and blocking included.  Then in each
  direction the bytes accepted by the sink followed by the bytes in the ring are exactly the
  bytes the source supplied, in order, and the ring holds at most its capacity.  When the pump
  reports completion, every byte has been delivered.
\<close>

theorem byte_pump_relays:
  assumes "pbns_byte_pump_init (Some p0) a b = Some p" and "bp_initialized p"
    and "endpoint_is_valid usb" and "endpoint_is_valid tls" and "reads_in_bounds usb" and "reads_in_bounds tls"
    and "pump_run p (log_usb usb) (log_tls tls) policies \<lparr>env = e, usb_in = [], usb_out = [], tls_in = [], tls_out = []\<rparr> = (p', s)"
  shows "tls_out s @ ring_contents (usb_to_tls p') = usb_in s \<and> usb_out s @ ring_contents (tls_to_usb p') = tls_in s \<and>
    length (ring_contents (usb_to_tls p')) \<le> ring_cap (usb_to_tls p') \<and>
    length (ring_contents (tls_to_usb p')) \<le> ring_cap (tls_to_usb p') \<and>
    (pbns_byte_pump_is_complete p' \<longrightarrow> tls_out s = usb_in s \<and> usb_out s = tls_in s)"
proof -
  have rel: "relayed p' s" by (rule pump_run_relayed [OF pump_init_relayed [OF assms(1,2)] assms(3-7)])
  then have v: "ring_is_valid (usb_to_tls p')" "ring_is_valid (tls_to_usb p')" by (simp_all add: relayed_def)
  have "ring_contents (usb_to_tls p') = [] \<and> ring_contents (tls_to_usb p') = []" if "pbns_byte_pump_is_complete p'"
    using that v by (simp add: pbns_byte_pump_is_complete_def pbns_byte_ring_size_def ring_contents_def)
  with rel ring_queue.bounded [OF v(1)] ring_queue.bounded [OF v(2)] show ?thesis by (auto simp: relayed_def)
qed

definition example_usb :: "nat pbns_pump_endpoint" where
  "example_usb =
     \<lparr>pump_read = Some (\<lambda>e buf. if e = 0 \<and> 2 \<le> b_cap buf then (0, 2, [7, 8] @ drop 2 (b_mem buf), 1) else (0, 0, b_mem buf, e)),
      pump_write = Some (\<lambda>e v. (0, v_len v, e))\<rparr>"

definition example_tls :: "nat pbns_pump_endpoint" where
  "example_tls = \<lparr>pump_read = Some (\<lambda>e buf. (0, 0, b_mem buf, e)), pump_write = Some (\<lambda>e v. (0, v_len v, e))\<rparr>"

lemmas pump_eval =
  pbns_byte_pump_init_def pbns_byte_ring_init_def storage_is_valid_def zero_ring_def zero_pump_def
  Let_def pbns_byte_pump_batch_with_policy_def endpoint_is_valid_def log_usb_def log_tls_def
  example_usb_def example_tls_def eval_nat_numeral pbns_byte_pump_step_with_policy_def pbns_byte_pump_is_complete_def
  pump_step_body_def process_direction_def write_pending_def read_available_def usb_to_tls_direction_def tls_to_usb_direction_def
  pbns_byte_ring_readable_def pbns_byte_ring_writable_def pbns_byte_ring_consume_def pbns_byte_ring_commit_def
  pbns_byte_ring_size_def pbns_byte_ring_capacity_def ring_is_valid_def ring_tail_def writable_length_def ring_fill_def
  store_at_def should_hold_write_def status_is_typed_def status_of_int_def pbns_status_table_def default_policy_def
  supplied_def accepted_def null_view_def null_buffer_def size_inc_def

theorem byte_pump_relays_witness:
  "\<exists>p s. pump_run (the (pbns_byte_pump_init (Some zero_pump) \<lparr>b_ptr = 16, b_len = 0, b_mem = [0, 0]\<rparr> \<lparr>b_ptr = 32, b_len = 0, b_mem = [0, 0]\<rparr>))
      (log_usb example_usb) (log_tls example_tls) [default_policy] \<lparr>env = 0, usb_in = [], usb_out = [], tls_in = [], tls_out = []\<rparr> = (p, s) \<and>
    pbns_byte_pump_is_complete p \<and> usb_in s = [7, 8] \<and> tls_out s = usb_in s"
proof -
  let ?p = "the (pbns_byte_pump_init (Some zero_pump) \<lparr>b_ptr = 16, b_len = 0, b_mem = [0, 0]\<rparr> \<lparr>b_ptr = 32, b_len = 0, b_mem = [0, 0]\<rparr>)"
  let ?s = "\<lparr>env = 0, usb_in = [], usb_out = [], tls_in = [], tls_out = []\<rparr> :: nat pump_log"
  have p: "pbns_byte_pump_init (Some zero_pump) \<lparr>b_ptr = 16, b_len = 0, b_mem = [0, 0]\<rparr> \<lparr>b_ptr = 32, b_len = 0, b_mem = [0, 0]\<rparr> = Some ?p"
    "bp_initialized ?p"
    by (simp_all add: pbns_byte_pump_init_def pbns_byte_ring_init_def storage_is_valid_def zero_ring_def zero_pump_def
        buffers_overlap_def UINTPTR_MAX_def Let_def)
  let ?r = "\<lambda>a. zero_ring\<lparr>ring_storage := \<lparr>b_ptr = a, b_len = 0, b_mem = [0, 0]\<rparr>, ring_initialized := True\<rparr>"
  have p': "?p = zero_pump\<lparr>usb_to_tls := ?r 16, tls_to_usb := ?r 32, bp_initialized := True\<rparr>"
    by (simp add: pbns_byte_pump_init_def pbns_byte_ring_init_def storage_is_valid_def zero_ring_def zero_pump_def
        buffers_overlap_def UINTPTR_MAX_def Let_def)
  have ep: "endpoint_is_valid example_usb" "endpoint_is_valid example_tls" "reads_in_bounds example_usb" "reads_in_bounds example_tls"
    by (auto simp: endpoint_is_valid_def reads_in_bounds_def example_usb_def example_tls_def split: if_splits)
  obtain q s where run: "pump_run ?p (log_usb example_usb) (log_tls example_tls) [default_policy] ?s = (q, s)"
    by (metis surj_pair)
  moreover have "case pump_run ?p (log_usb example_usb) (log_tls example_tls) [default_policy] ?s of
      (q, s) \<Rightarrow> pbns_byte_pump_is_complete q \<and> usb_in s = [7, 8]"
    unfolding p' by (simp add: pump_eval)
  ultimately have "pbns_byte_pump_is_complete q \<and> usb_in s = [7, 8]" by simp
  with byte_pump_relays [OF p ep run] run show ?thesis by auto
qed

end
