(* ===== verification/Proxy_Control.thy ===== *)
theory Proxy_Control
  imports Pbns_Prelude
begin

text \<open>
  The small control components of the proxy firmware: the aggregation deadline
  (\<open>pico/src/tail_deadline.c\<close>), the classification of a TCP write
  (\<open>pico/src/tcp_write_outcome.c\<close>), and the physical-presence gate that admits a new
  credential record (\<open>pico/src/provision_gate.c\<close>).

  The gate is followed through its accepted samples: \<open>gate_held\<close> says that the most recent
  of them show the button held without interruption, and the lemmas show that the gate only
  latches after such a hold of two seconds.  The session part is followed through the
  connection states observed since activation.
\<close>

subsection \<open>Aggregation deadline\<close>

record pbns_tail_deadline =
  last_input_us :: u64
  observed_input_generation :: nat
  td_pending :: bool
  td_initialized :: bool

definition pbns_tail_deadline_init :: "pbns_tail_deadline ptr \<Rightarrow> nat \<Rightarrow> pbns_tail_deadline ptr" where
  "pbns_tail_deadline_init deadline input_generation =
     map_option (\<lambda>_. \<lparr>last_input_us = 0, observed_input_generation = input_generation, td_pending = False,
                      td_initialized = True\<rparr>) deadline"

definition pbns_tail_deadline_reset :: "pbns_tail_deadline ptr \<Rightarrow> nat \<Rightarrow> pbns_tail_deadline ptr" where
  "pbns_tail_deadline_reset deadline input_generation =
     map_option (\<lambda>_. \<lparr>last_input_us = 0, observed_input_generation = input_generation, td_pending = False,
                      td_initialized = True\<rparr>) deadline"

definition pbns_tail_deadline_observe_input :: "pbns_tail_deadline ptr \<Rightarrow> nat \<Rightarrow> u64 \<Rightarrow> pbns_tail_deadline ptr" where
  "pbns_tail_deadline_observe_input deadline input_generation now_us =
     map_option (\<lambda>d. if \<not> td_initialized d then d
                     else if observed_input_generation d \<noteq> input_generation
                     then d\<lparr>observed_input_generation := input_generation, last_input_us := now_us\<rparr> else d) deadline"

definition pbns_tail_deadline_set_pending :: "pbns_tail_deadline ptr \<Rightarrow> bool \<Rightarrow> pbns_tail_deadline ptr" where
  "pbns_tail_deadline_set_pending deadline pending =
     map_option (\<lambda>d. if \<not> td_initialized d then d else d\<lparr>td_pending := pending\<rparr>) deadline"

definition pbns_tail_deadline_should_force :: "pbns_tail_deadline ptr \<Rightarrow> u64 \<Rightarrow> u64 \<Rightarrow> bool" where
  "pbns_tail_deadline_should_force deadline now_us delay_us =
     (case deadline of
        None \<Rightarrow> False
      | Some d \<Rightarrow> td_initialized d \<and> td_pending d \<and> now_us - last_input_us d \<ge> delay_us)"

subsection \<open>Outcome of a TCP write\<close>

datatype pbns_tcp_io_result = PBNS_TCP_IO_NOT_RUN | PBNS_TCP_IO_OK | PBNS_TCP_IO_RETRY | PBNS_TCP_IO_FAILED

definition pbns_tcp_write_outcome ::
  "pbns_tcp_io_result \<Rightarrow> pbns_tcp_io_result \<Rightarrow> nat \<Rightarrow> nat ptr \<Rightarrow> pbns_status \<times> nat ptr" where
  "pbns_tcp_write_outcome write_result output_result queued_bytes written =
     (case written of
        None \<Rightarrow> (PBNS_ERR_ARGUMENT, None)
      | Some _ \<Rightarrow>
          if queued_bytes = 0 then (PBNS_ERR_ARGUMENT, Some 0)
          else
            (case write_result of
               PBNS_TCP_IO_RETRY \<Rightarrow>
                 ((if output_result = PBNS_TCP_IO_NOT_RUN then PBNS_ERR_WOULD_BLOCK else PBNS_ERR_ARGUMENT), Some 0)
             | PBNS_TCP_IO_FAILED \<Rightarrow>
                 ((if output_result = PBNS_TCP_IO_NOT_RUN then PBNS_ERR_TRANSPORT else PBNS_ERR_ARGUMENT), Some 0)
             | PBNS_TCP_IO_NOT_RUN \<Rightarrow> (PBNS_ERR_ARGUMENT, Some 0)
             | PBNS_TCP_IO_OK \<Rightarrow>
                 (case output_result of
                    PBNS_TCP_IO_OK \<Rightarrow> (PBNS_OK, Some queued_bytes)
                  | PBNS_TCP_IO_RETRY \<Rightarrow> (PBNS_ERR_TRANSPORT, Some 0)
                  | PBNS_TCP_IO_FAILED \<Rightarrow> (PBNS_ERR_TRANSPORT, Some 0)
                  | PBNS_TCP_IO_NOT_RUN \<Rightarrow> (PBNS_ERR_ARGUMENT, Some 0))))"

subsection \<open>Provisioning gate\<close>

abbreviation PBNS_PROVISION_SAMPLE_INTERVAL_MS :: u64 where "PBNS_PROVISION_SAMPLE_INTERVAL_MS \<equiv> 50"
abbreviation PBNS_PROVISION_HOLD_MS :: u64 where "PBNS_PROVISION_HOLD_MS \<equiv> 2000"

datatype pbns_provision_gate_state =
    PBNS_PROVISION_GATE_IDLE | PBNS_PROVISION_GATE_PRESS_PENDING | PBNS_PROVISION_GATE_LATCHED

record pbns_provision_gate =
  g_state :: pbns_provision_gate_state
  press_started_ms :: u64
  last_sample_ms :: u64
  next_sample_ms :: u64
  has_sample :: bool
  g_initialized :: bool

datatype pbns_provision_session_state =
    PBNS_PROVISION_SESSION_INACTIVE | PBNS_PROVISION_SESSION_WAIT_DISCONNECT
  | PBNS_PROVISION_SESSION_WAIT_CONNECT | PBNS_PROVISION_SESSION_READY

record pbns_provision_session =
  ses_state :: pbns_provision_session_state
  ses_initialized :: bool

definition next_sample_deadline :: "u64 \<Rightarrow> u64" where
  "next_sample_deadline now_ms =
     (if now_ms > - 1 - PBNS_PROVISION_SAMPLE_INTERVAL_MS then - 1 else now_ms + PBNS_PROVISION_SAMPLE_INTERVAL_MS)"

definition gate_zero :: pbns_provision_gate where
  "gate_zero = \<lparr>g_state = PBNS_PROVISION_GATE_IDLE, press_started_ms = 0, last_sample_ms = 0, next_sample_ms = 0,
     has_sample = False, g_initialized = True\<rparr>"

definition pbns_provision_gate_init :: "pbns_provision_gate ptr \<Rightarrow> pbns_provision_gate ptr" where
  "pbns_provision_gate_init gate = map_option (\<lambda>_. gate_zero) gate"

definition pbns_provision_gate_sample_due :: "pbns_provision_gate \<Rightarrow> u64 \<Rightarrow> bool" where
  "pbns_provision_gate_sample_due g now_ms =
     (if \<not> g_initialized g \<or> g_state g = PBNS_PROVISION_GATE_LATCHED then False
      else if \<not> has_sample g \<or> now_ms < last_sample_ms g then True
      else last_sample_ms g \<noteq> - 1 \<and> now_ms \<ge> next_sample_ms g)"

definition pbns_provision_gate_observe ::
  "pbns_provision_gate ptr \<Rightarrow> u64 \<Rightarrow> bool \<Rightarrow> bool ptr \<Rightarrow> pbns_status \<times> pbns_provision_gate ptr \<times> bool ptr" where
  "pbns_provision_gate_observe gate now_ms pressed activated =
     (let activated = map_option (\<lambda>_. False) activated
      in if gate = None \<or> \<not> g_initialized (the gate) \<or> activated = None then (PBNS_ERR_ARGUMENT, gate, activated)
         else
           let g = the gate
           in if g_state g = PBNS_PROVISION_GATE_LATCHED then (PBNS_OK, gate, activated)
              else if \<not> pbns_provision_gate_sample_due g now_ms then (PBNS_ERR_WOULD_BLOCK, gate, activated)
              else
                let g = (if has_sample g \<and> now_ms < last_sample_ms g
                         then g\<lparr>g_state := PBNS_PROVISION_GATE_IDLE, press_started_ms := 0\<rparr> else g);
                    g = g\<lparr>has_sample := True, last_sample_ms := now_ms, next_sample_ms := next_sample_deadline now_ms\<rparr>
                in if \<not> pressed
                   then (PBNS_OK, Some (g\<lparr>g_state := PBNS_PROVISION_GATE_IDLE, press_started_ms := 0\<rparr>), activated)
                   else if g_state g = PBNS_PROVISION_GATE_IDLE
                   then (PBNS_OK, Some (g\<lparr>g_state := PBNS_PROVISION_GATE_PRESS_PENDING, press_started_ms := now_ms\<rparr>), activated)
                   else if g_state g \<noteq> PBNS_PROVISION_GATE_PRESS_PENDING then (PBNS_ERR_STATE, Some g, activated)
                   else if now_ms - press_started_ms g \<ge> PBNS_PROVISION_HOLD_MS
                   then (PBNS_OK, Some (g\<lparr>g_state := PBNS_PROVISION_GATE_LATCHED\<rparr>), Some True)
                   else (PBNS_OK, Some g, activated))"

definition pbns_provision_gate_is_latched :: "pbns_provision_gate ptr \<Rightarrow> bool" where
  "pbns_provision_gate_is_latched gate =
     (case gate of None \<Rightarrow> False | Some g \<Rightarrow> g_initialized g \<and> g_state g = PBNS_PROVISION_GATE_LATCHED)"

definition pbns_provision_session_init :: "pbns_provision_session ptr \<Rightarrow> pbns_provision_session ptr" where
  "pbns_provision_session_init session =
     map_option (\<lambda>_. \<lparr>ses_state = PBNS_PROVISION_SESSION_INACTIVE, ses_initialized = True\<rparr>) session"

definition pbns_provision_session_activate ::
  "pbns_provision_session ptr \<Rightarrow> bool \<Rightarrow> pbns_status \<times> pbns_provision_session ptr" where
  "pbns_provision_session_activate session connected =
     (if session = None \<or> \<not> ses_initialized (the session) then (PBNS_ERR_ARGUMENT, session)
      else (PBNS_OK, Some ((the session)\<lparr>ses_state :=
        (if connected then PBNS_PROVISION_SESSION_WAIT_DISCONNECT else PBNS_PROVISION_SESSION_WAIT_CONNECT)\<rparr>)))"

definition pbns_provision_session_observe ::
  "pbns_provision_session ptr \<Rightarrow> bool \<Rightarrow> bool ptr \<Rightarrow> pbns_status \<times> pbns_provision_session ptr \<times> bool ptr" where
  "pbns_provision_session_observe session connected opened =
     (let opened = map_option (\<lambda>_. False) opened
      in if session = None \<or> \<not> ses_initialized (the session) \<or> opened = None then (PBNS_ERR_ARGUMENT, session, opened)
         else
           let s = the session
           in case ses_state s of
                PBNS_PROVISION_SESSION_INACTIVE \<Rightarrow> (PBNS_ERR_STATE, session, opened)
              | PBNS_PROVISION_SESSION_WAIT_DISCONNECT \<Rightarrow>
                  (PBNS_OK, Some (if \<not> connected then s\<lparr>ses_state := PBNS_PROVISION_SESSION_WAIT_CONNECT\<rparr> else s), opened)
              | PBNS_PROVISION_SESSION_WAIT_CONNECT \<Rightarrow>
                  if connected then (PBNS_OK, Some (s\<lparr>ses_state := PBNS_PROVISION_SESSION_READY\<rparr>), Some True)
                  else (PBNS_OK, session, opened)
              | PBNS_PROVISION_SESSION_READY \<Rightarrow>
                  (PBNS_OK, Some (if \<not> connected then s\<lparr>ses_state := PBNS_PROVISION_SESSION_WAIT_CONNECT\<rparr> else s), opened))"

definition pbns_provision_session_is_ready :: "pbns_provision_session ptr \<Rightarrow> bool" where
  "pbns_provision_session_is_ready session =
     (case session of None \<Rightarrow> False | Some s \<Rightarrow> ses_initialized s \<and> ses_state s = PBNS_PROVISION_SESSION_READY)"

subsection \<open>Runs of the gate\<close>

text \<open>The gate under a list of timed samples; the log holds the samples it took into account.\<close>

fun gate_run :: "pbns_provision_gate \<Rightarrow> (u64 \<times> bool) list \<Rightarrow> (u64 \<times> bool) list \<Rightarrow> pbns_provision_gate \<times> (u64 \<times> bool) list" where
  "gate_run g log [] = (g, log)"
| "gate_run g log ((now, pressed) # samples) =
     (case pbns_provision_gate_observe (Some g) now pressed (Some False) of
        (status, g', _) \<Rightarrow>
          gate_run (the g') (if status = PBNS_OK \<and> g_state g \<noteq> PBNS_PROVISION_GATE_LATCHED then log @ [(now, pressed)] else log) samples)"

text \<open>The last samples of the log show the button pressed all the time from \<open>t0\<close> to \<open>t1\<close>.\<close>

definition gate_held :: "(u64 \<times> bool) list \<Rightarrow> u64 \<Rightarrow> u64 \<Rightarrow> bool" where
  "gate_held log t0 t1 \<longleftrightarrow>
     (\<exists>pre mid. log = pre @ mid \<and> mid \<noteq> [] \<and> (\<forall>(t, b) \<in> set mid. b) \<and> sorted (map fst mid) \<and>
        fst (hd mid) = t0 \<and> fst (last mid) = t1)"

definition gate_inv :: "pbns_provision_gate \<Rightarrow> (u64 \<times> bool) list \<Rightarrow> bool" where
  "gate_inv g log \<longleftrightarrow> g_initialized g \<and>
     (g_state g = PBNS_PROVISION_GATE_PRESS_PENDING \<longrightarrow> has_sample g \<and> gate_held log (press_started_ms g) (last_sample_ms g)) \<and>
     (g_state g = PBNS_PROVISION_GATE_LATCHED \<longrightarrow>
        (\<exists>t0 t1. gate_held log t0 t1 \<and> unat t0 + 2000 \<le> unat t1))"

lemma gate_held_single: "gate_held (log @ [(t, True)]) t t"
  unfolding gate_held_def by (rule exI [of _ log], rule exI [of _ "[(t, True)]"]) simp

lemma sorted_le_last: "sorted xs \<Longrightarrow> x \<in> set xs \<Longrightarrow> x \<le> last xs"
  by (induction xs) auto

lemma gate_heldE:
  assumes "gate_held log t0 t1"
  obtains pre mid where "log = pre @ mid" "mid \<noteq> []" "\<forall>(t, b) \<in> set mid. b" "sorted (map fst mid)"
    "fst (hd mid) = t0" "fst (last mid) = t1"
  using assms unfolding gate_held_def by blast

lemma gate_held_snoc:
  assumes "gate_held log t0 t1" and "t1 \<le> t"
  shows "gate_held (log @ [(t, True)]) t0 t"
  using assms(1)
proof (rule gate_heldE)
  fix pre mid
  assume mid: "log = pre @ mid" "mid \<noteq> []" "\<forall>(t, b) \<in> set mid. b" "sorted (map fst mid)" "fst (hd mid) = t0" "fst (last mid) = t1"
  have "x \<le> t" if "x \<in> set (map fst mid)" for x
    using sorted_le_last [OF mid(4) that] mid(2,6) assms(2) by (simp add: last_map)
  with mid have "log @ [(t, True)] = pre @ (mid @ [(t, True)])" "\<forall>(t, b) \<in> set (mid @ [(t, True)]). b"
    "sorted (map fst (mid @ [(t, True)]))" "fst (hd (mid @ [(t, True)])) = t0" "fst (last (mid @ [(t, True)])) = t"
    by (simp_all add: sorted_append)
  then show ?thesis unfolding gate_held_def by blast
qed

lemma gate_held_le: "gate_held log t0 t1 \<Longrightarrow> t0 \<le> t1"
proof (erule gate_heldE)
  fix pre mid
  assume "mid \<noteq> []" "sorted (map fst mid)" "fst (hd mid) = t0" "fst (last mid) = t1"
  then show "t0 \<le> t1"
    using sorted_le_last [of "map fst mid" t0] by (cases mid) (auto simp: last_map split: if_splits)
qed

lemma gate_observe_inv:
  assumes inv: "gate_inv g log" and obs: "pbns_provision_gate_observe (Some g) now pressed (Some a) = (status, g', act)"
  shows "\<exists>h. g' = Some h \<and>
    gate_inv h (if status = PBNS_OK \<and> g_state g \<noteq> PBNS_PROVISION_GATE_LATCHED then log @ [(now, pressed)] else log)"
proof (cases "g_state g = PBNS_PROVISION_GATE_LATCHED \<or> \<not> pbns_provision_gate_sample_due g now")
  case True
  with inv obs show ?thesis by (auto simp: pbns_provision_gate_observe_def gate_inv_def Let_def split: if_splits)
next
  case due: False
  have init: "g_initialized g" using inv by (simp add: gate_inv_def)
  let ?regressed = "has_sample g \<and> now < last_sample_ms g"
  show ?thesis
  proof (cases "pressed \<and> g_state g = PBNS_PROVISION_GATE_PRESS_PENDING \<and> \<not> ?regressed")
    case False
    with due init obs inv gate_held_single [of log now] show ?thesis
      by (cases "g_state g") (auto simp: pbns_provision_gate_observe_def gate_inv_def Let_def split: if_splits)
  next
    case True
    then have held: "gate_held log (press_started_ms g) (last_sample_ms g)" and fwd: "last_sample_ms g \<le> now"
      using inv by (auto simp: gate_inv_def)
    from gate_held_snoc [OF this] have snoc: "gate_held (log @ [(now, True)]) (press_started_ms g) now" .
    have le: "press_started_ms g \<le> now" using gate_held_le [OF snoc] .
    have "unat (press_started_ms g) + 2000 \<le> unat now" if "now - press_started_ms g \<ge> 2000"
      using that le by (simp add: word_le_nat_alt unat_sub)
    with snoc have "\<exists>t0 t1. gate_held (log @ [(now, True)]) t0 t1 \<and> unat t0 + 2000 \<le> unat t1"
      if "now - press_started_ms g \<ge> 2000"
      using that by blast
    with True due init obs snoc show ?thesis
      by (auto simp: pbns_provision_gate_observe_def gate_inv_def Let_def split: if_splits)
  qed
qed

lemma gate_run_inv:
  "gate_inv g log \<Longrightarrow> gate_run g log samples = (g', log') \<Longrightarrow> gate_inv g' log'"
proof (induction g log samples rule: gate_run.induct)
  case (2 g log now pressed samples)
  obtain st h act where obs: "pbns_provision_gate_observe (Some g) now pressed (Some False) = (st, h, act)" by (metis prod_cases3)
  from gate_observe_inv [OF "2.prems"(1) obs] "2.IH" [OF obs [symmetric] refl] "2.prems"(2) obs show ?case by auto
qed simp

fun session_run :: "pbns_provision_session \<Rightarrow> bool list \<Rightarrow> pbns_provision_session" where
  "session_run s [] = s"
| "session_run s (c # cs) =
     (case pbns_provision_session_observe (Some s) c (Some False) of (_, s', _) \<Rightarrow> session_run (the s') cs)"

lemma session_run_state:
  assumes "ses_initialized s" and "ses_state (session_run s cs) = PBNS_PROVISION_SESSION_READY"
  shows "case ses_state s of
      PBNS_PROVISION_SESSION_INACTIVE \<Rightarrow> False
    | PBNS_PROVISION_SESSION_WAIT_DISCONNECT \<Rightarrow> \<exists>before after. cs = before @ False # after \<and> after \<noteq> [] \<and> last after
    | PBNS_PROVISION_SESSION_WAIT_CONNECT \<Rightarrow> cs \<noteq> [] \<and> last cs
    | PBNS_PROVISION_SESSION_READY \<Rightarrow> cs = [] \<or> last cs"
  using assms
proof (induction cs arbitrary: s)
  case (Cons c cs)
  let ?to = "\<lambda>st. s\<lparr>ses_state := st\<rparr>"
  show ?case
  proof (cases "ses_state s = PBNS_PROVISION_SESSION_WAIT_DISCONNECT")
    case True
    show ?thesis
    proof (cases c)
      case c: True
      with True Cons.prems have "ses_state (session_run s cs) = PBNS_PROVISION_SESSION_READY"
        by (simp add: pbns_provision_session_observe_def)
      with Cons.IH [OF Cons.prems(1)] True obtain b a where "cs = b @ False # a" "a \<noteq> []" "last a" by auto
      then have "c # cs = (c # b) @ False # a \<and> a \<noteq> [] \<and> last a" by simp
      with True show ?thesis unfolding True pbns_provision_session_state.case by blast
    next
      case c: False
      with True Cons.prems have "ses_state (session_run (?to PBNS_PROVISION_SESSION_WAIT_CONNECT) cs) = PBNS_PROVISION_SESSION_READY"
        by (simp add: pbns_provision_session_observe_def)
      with Cons.IH [of "?to PBNS_PROVISION_SESSION_WAIT_CONNECT"] Cons.prems(1) have "cs \<noteq> []" "last cs" by simp_all
      then have "c # cs = [] @ False # cs \<and> cs \<noteq> [] \<and> last cs" using c by simp
      then show ?thesis unfolding True pbns_provision_session_state.case by blast
    qed
  next
    case False
    with Cons.prems Cons.IH [of s] Cons.IH [of "?to PBNS_PROVISION_SESSION_WAIT_CONNECT"] Cons.IH [of "?to PBNS_PROVISION_SESSION_READY"]
    show ?thesis
      by (cases "ses_state s"; cases c) (auto simp: pbns_provision_session_observe_def)
  qed
qed (auto split: pbns_provision_session_state.splits)

subsection \<open>Properties\<close>

text \<open>C32:
  Physical presence.  Starting from an initialised gate and observing any samples at any
  times, including a clock that steps back, the gate is latched only if among the samples it
  took into account there is an unbroken run of pressed ones, in time order, that spans at
  least 2000 milliseconds.
\<close>

theorem provision_gate_requires_hold:
  assumes "gate_run (the (pbns_provision_gate_init (Some g0))) [] samples = (g, log)"
    and "pbns_provision_gate_is_latched (Some g)"
  shows "\<exists>t0 t1. gate_held log t0 t1 \<and> unat t0 + 2000 \<le> unat t1"
proof -
  have "gate_inv (the (pbns_provision_gate_init (Some g0))) []"
    by (simp add: pbns_provision_gate_init_def gate_inv_def gate_zero_def)
  from gate_run_inv [OF this assms(1)] assms(2) show ?thesis
    by (simp add: gate_inv_def pbns_provision_gate_is_latched_def)
qed

theorem provision_gate_requires_hold_witness:
  "\<exists>g log. gate_run (the (pbns_provision_gate_init (Some gate_zero))) [] [(10, True), (1000, True), (2010, True)] = (g, log) \<and>
    pbns_provision_gate_is_latched (Some g) \<and> (\<exists>t0 t1. gate_held log t0 t1 \<and> unat t0 + 2000 \<le> unat t1)"
proof -
  obtain g log where run: "gate_run (the (pbns_provision_gate_init (Some gate_zero))) [] [(10, True), (1000, True), (2010, True)] = (g, log)"
    by (metis surj_pair)
  then have latched: "pbns_provision_gate_is_latched (Some g)"
    by (auto simp: pbns_provision_gate_init_def gate_zero_def pbns_provision_gate_observe_def pbns_provision_gate_sample_due_def
        next_sample_deadline_def pbns_provision_gate_is_latched_def Let_def)
  from provision_gate_requires_hold [OF run latched] run latched show ?thesis by blast
qed

text \<open>C31:
  Fresh connection.  When provisioning is activated while the USB host is connected, the
  session becomes ready only after a disconnection has been observed and the host has connected
  again: data already in flight at activation never reaches the credential record.
\<close>

theorem provision_session_needs_reconnect:
  assumes "pbns_provision_session_activate (Some s) True = (PBNS_OK, Some s')"
    and "pbns_provision_session_is_ready (Some (session_run s' observed))"
  shows "\<exists>before after. observed = before @ False # after \<and> after \<noteq> [] \<and> last after"
  using assms session_run_state [of s' observed]
  by (auto simp: pbns_provision_session_activate_def pbns_provision_session_is_ready_def split: if_splits)

theorem provision_session_needs_reconnect_witness:
  "\<exists>before after. [True, False, True] = before @ False # after \<and> after \<noteq> [] \<and> last after"
proof (rule provision_session_needs_reconnect)
  let ?s = "\<lparr>ses_state = PBNS_PROVISION_SESSION_INACTIVE, ses_initialized = True\<rparr>"
  show "pbns_provision_session_activate (Some ?s) True = (PBNS_OK, Some (?s\<lparr>ses_state := PBNS_PROVISION_SESSION_WAIT_DISCONNECT\<rparr>))"
    by (simp add: pbns_provision_session_activate_def)
  show "pbns_provision_session_is_ready (Some (session_run (?s\<lparr>ses_state := PBNS_PROVISION_SESSION_WAIT_DISCONNECT\<rparr>) [True, False, True]))"
    by (simp add: pbns_provision_session_observe_def pbns_provision_session_is_ready_def)
qed

end
