(* ===== verification/Network.thy ===== *)
theory Network
  imports "Pbns_Prelude"
begin

text \<open>
  The connection state machine of the proxy firmware, \<open>pico/src/network.c\<close>.  The network
  operations are callbacks over an environment state.  \<open>pbns_network_step\<close> is one call from the
  firmware's main loop; \<open>net_step\<close> and \<open>net_reach\<close> are the induced transition relation and
  its reachable states, for arbitrary callbacks, times and USB states.

  A state is one of the six enumerators, so the \<open>default\<close> branch of the C switch, which closes
  the connection and records a state error, cannot be reached and has no counterpart.

  The invariant: the callbacks are called in brackets of a start and a close, a connection is
  open exactly in the connecting and ready states, and a recorded failure is final.  Retries are delayed exponentially, between 250 ms and 8 s, with
  the jitter the code draws.
\<close>

subsection \<open>State and operations\<close>

abbreviation PBNS_NETWORK_WIFI_TIMEOUT_MS :: u64 where "PBNS_NETWORK_WIFI_TIMEOUT_MS \<equiv> 30000"
abbreviation PBNS_NETWORK_TCP_TIMEOUT_MS :: u64 where "PBNS_NETWORK_TCP_TIMEOUT_MS \<equiv> 10000"
abbreviation PBNS_NETWORK_SESSION_TIMEOUT_MS :: u64 where "PBNS_NETWORK_SESSION_TIMEOUT_MS \<equiv> 15000"
abbreviation BACKOFF_INITIAL_MS :: u64 where "BACKOFF_INITIAL_MS \<equiv> 250"
abbreviation BACKOFF_MAX_MS :: u64 where "BACKOFF_MAX_MS \<equiv> 8000"
abbreviation BACKOFF_MAX_SHIFT :: u32 where "BACKOFF_MAX_SHIFT \<equiv> 5"

datatype pbns_network_state =
    PBNS_NETWORK_DOWN
  | PBNS_NETWORK_WIFI_CONNECTING
  | PBNS_NETWORK_TCP_CONNECTING
  | PBNS_NETWORK_SESSION_CONNECTING
  | PBNS_NETWORK_READY
  | PBNS_NETWORK_BACKOFF

record 'e pbns_network_ops =
  wifi_start :: "('e \<Rightarrow> pbns_status \<times> 'e) ptr"
  wifi_poll :: "('e \<Rightarrow> pbns_status \<times> 'e) ptr"
  tcp_poll :: "('e \<Rightarrow> pbns_status \<times> 'e) ptr"
  session_poll :: "('e \<Rightarrow> pbns_status \<times> 'e) ptr"
  net_close :: "('e \<Rightarrow> 'e) ptr"
  random_u32 :: "('e \<Rightarrow> pbns_status \<times> u32 \<times> 'e) ptr"

record pbns_network =
  n_state :: pbns_network_state
  failure_count :: u32
  retry_deadline_ms :: u64
  state_entered_ms :: u64
  n_failure :: pbns_status
  n_initialized :: bool
  connection_active :: bool

definition ops_are_valid :: "'e pbns_network_ops ptr \<Rightarrow> bool" where
  "ops_are_valid ops =
     (case ops of
        None \<Rightarrow> False
      | Some o' \<Rightarrow> wifi_start o' \<noteq> None \<and> wifi_poll o' \<noteq> None \<and> tcp_poll o' \<noteq> None \<and> session_poll o' \<noteq> None \<and>
                  net_close o' \<noteq> None \<and> random_u32 o' \<noteq> None)"

definition close_active_connection :: "pbns_network \<Rightarrow> 'e pbns_network_ops \<Rightarrow> 'e \<Rightarrow> pbns_network \<times> 'e" where
  "close_active_connection network ops e =
     (if connection_active network then (network\<lparr>connection_active := False\<rparr>, the (net_close ops) e)
      else (network, e))"

fun state_timeout :: "pbns_network_state \<Rightarrow> u64" where
  "state_timeout PBNS_NETWORK_WIFI_CONNECTING = PBNS_NETWORK_WIFI_TIMEOUT_MS"
| "state_timeout PBNS_NETWORK_TCP_CONNECTING = PBNS_NETWORK_TCP_TIMEOUT_MS"
| "state_timeout PBNS_NETWORK_SESSION_CONNECTING = PBNS_NETWORK_SESSION_TIMEOUT_MS"
| "state_timeout _ = 0"

definition nominal_backoff :: "u32 \<Rightarrow> u64" where
  "nominal_backoff failures =
     (let shift = (if failures < BACKOFF_MAX_SHIFT then failures else BACKOFF_MAX_SHIFT)
      in push_bit (unat shift) BACKOFF_INITIAL_MS)"

definition backoff_delay :: "u32 \<Rightarrow> u32 \<Rightarrow> u64" where
  "backoff_delay failures random_value =
     (let nominal = nominal_backoff failures;
          jitter_span = nominal div 4 + 1;
          jitter = ucast random_value mod jitter_span
      in if jitter > BACKOFF_MAX_MS - nominal then BACKOFF_MAX_MS else nominal + jitter)"

definition schedule_backoff ::
  "pbns_network \<Rightarrow> u64 \<Rightarrow> 'e pbns_network_ops \<Rightarrow> pbns_status \<Rightarrow> 'e \<Rightarrow> pbns_status \<times> pbns_network \<times> bool \<times> 'e" where
  "schedule_backoff network now_ms ops cause e =
     (case close_active_connection network ops e of
        (network, e) \<Rightarrow>
          (case the (random_u32 ops) e of
             (random_status, random_value, e) \<Rightarrow>
               if random_status \<noteq> PBNS_OK then
                 (random_status,
                  network\<lparr>n_state := PBNS_NETWORK_DOWN, retry_deadline_ms := 0, state_entered_ms := now_ms,
                          n_failure := random_status\<rparr>, True, e)
               else
                 let delay = backoff_delay (failure_count network) random_value
                 in (cause,
                     network\<lparr>retry_deadline_ms := (if now_ms > - 1 - delay then - 1 else now_ms + delay),
                             failure_count := (if failure_count network < - 1 then failure_count network + 1
                                               else failure_count network),
                             n_state := PBNS_NETWORK_BACKOFF, state_entered_ms := now_ms\<rparr>, True, e)))"

definition network_zero :: pbns_network where
  "network_zero = \<lparr>n_state = PBNS_NETWORK_DOWN, failure_count = 0, retry_deadline_ms = 0, state_entered_ms = 0,
     n_failure = PBNS_OK, n_initialized = True, connection_active = False\<rparr>"

definition pbns_network_init :: "pbns_network ptr \<Rightarrow> pbns_network ptr" where
  "pbns_network_init network = map_option (\<lambda>_. network_zero) network"

definition poll_connecting_stage ::
  "pbns_network \<Rightarrow> 'e pbns_network_ops \<Rightarrow> ('e \<Rightarrow> pbns_status \<times> 'e) \<Rightarrow> pbns_network_state \<Rightarrow> u64 \<Rightarrow> 'e \<Rightarrow>
   pbns_status \<times> pbns_network \<times> bool \<times> 'e" where
  "poll_connecting_stage network ops poll next_state now_ms e =
     (case poll e of
        (status, e) \<Rightarrow>
          if status = PBNS_ERR_WOULD_BLOCK then (PBNS_OK, network, False, e)
          else if status \<noteq> PBNS_OK then schedule_backoff network now_ms ops status e
          else
            let network = network\<lparr>n_state := next_state, state_entered_ms := now_ms\<rparr>;
                network = (if next_state = PBNS_NETWORK_READY
                           then network\<lparr>failure_count := 0, retry_deadline_ms := 0\<rparr> else network)
            in (PBNS_OK, network, True, e))"

definition network_step_connected ::
  "pbns_network \<Rightarrow> 'e pbns_network_ops \<Rightarrow> u64 \<Rightarrow> 'e \<Rightarrow> pbns_status \<times> pbns_network \<times> bool \<times> 'e" where
  "network_step_connected n ops now_ms e =
     (let timeout = state_timeout (n_state n)
      in if timeout > 0 \<and> now_ms \<ge> state_entered_ms n \<and> now_ms - state_entered_ms n \<ge> timeout
         then schedule_backoff n now_ms ops PBNS_ERR_TIMEOUT e
         else
           case n_state n of
             PBNS_NETWORK_DOWN \<Rightarrow>
               let n = n\<lparr>connection_active := True\<rparr>
               in (case the (wifi_start ops) e of
                     (status, e) \<Rightarrow>
                       if status \<noteq> PBNS_OK then schedule_backoff n now_ms ops status e
                       else (PBNS_OK, n\<lparr>n_state := PBNS_NETWORK_WIFI_CONNECTING, state_entered_ms := now_ms\<rparr>, True, e))
           | PBNS_NETWORK_WIFI_CONNECTING \<Rightarrow>
               poll_connecting_stage n ops (the (wifi_poll ops)) PBNS_NETWORK_TCP_CONNECTING now_ms e
           | PBNS_NETWORK_TCP_CONNECTING \<Rightarrow>
               poll_connecting_stage n ops (the (tcp_poll ops)) PBNS_NETWORK_SESSION_CONNECTING now_ms e
           | PBNS_NETWORK_SESSION_CONNECTING \<Rightarrow>
               poll_connecting_stage n ops (the (session_poll ops)) PBNS_NETWORK_READY now_ms e
           | PBNS_NETWORK_READY \<Rightarrow>
               (case the (session_poll ops) e of
                  (status, e) \<Rightarrow>
                    if status = PBNS_OK \<or> status = PBNS_ERR_WOULD_BLOCK then (PBNS_OK, n, False, e)
                    else schedule_backoff n now_ms ops status e)
           | PBNS_NETWORK_BACKOFF \<Rightarrow>
               if now_ms \<ge> retry_deadline_ms n
               then (PBNS_OK, n\<lparr>n_state := PBNS_NETWORK_DOWN, state_entered_ms := now_ms\<rparr>, True, e)
               else (PBNS_OK, n, False, e))"

definition pbns_network_step ::
  "pbns_network ptr \<Rightarrow> 'e pbns_network_ops ptr \<Rightarrow> u64 \<Rightarrow> bool \<Rightarrow> bool ptr \<Rightarrow> 'e \<Rightarrow>
   pbns_status \<times> pbns_network ptr \<times> bool ptr \<times> 'e" where
  "pbns_network_step network ops now_ms usb_connected made_progress e =
     (let made_progress = map_option (\<lambda>_. False) made_progress
      in if network = None \<or> \<not> n_initialized (the network) \<or> \<not> ops_are_valid ops \<or> made_progress = None
         then (PBNS_ERR_ARGUMENT, network, made_progress, e)
         else
           let n = the network
           in if n_failure n \<noteq> PBNS_OK then (n_failure n, network, made_progress, e)
              else if \<not> usb_connected then
                if n_state n \<noteq> PBNS_NETWORK_DOWN then
                  (case close_active_connection n (the ops) e of
                     (n, e) \<Rightarrow> (PBNS_OK, Some (n\<lparr>n_state := PBNS_NETWORK_DOWN, failure_count := 0, retry_deadline_ms := 0,
                                              state_entered_ms := 0\<rparr>), Some True, e))
                else (PBNS_OK, network, made_progress, e)
              else
                (case network_step_connected n (the ops) now_ms e of
                   (status, n, progress, e) \<Rightarrow> (status, Some n, Some progress, e)))"

subsection \<open>Transitions and reachable states\<close>

inductive net_step :: "'e pbns_network_ops \<Rightarrow> pbns_network \<times> 'e \<Rightarrow> pbns_network \<times> 'e \<Rightarrow> bool" for ops where
  net_step: "pbns_network_step (Some n) (Some ops) now_ms usb (Some False) e = (status, Some n', p, e') \<Longrightarrow>
    net_step ops (n, e) (n', e')"

inductive net_reach :: "'e pbns_network_ops \<Rightarrow> 'e \<Rightarrow> pbns_network \<times> 'e \<Rightarrow> bool" for ops e0 where
  net_init: "pbns_network_init (Some n0) = Some n \<Longrightarrow> net_reach ops e0 (n, e0)"
| net_next: "net_reach ops e0 s \<Longrightarrow> net_step ops s s' \<Longrightarrow> net_reach ops e0 s'"

inductive_cases net_stepE [elim]: "net_step ops (n, e) (n', e')"

text \<open>
  The calls that the state machine makes of its callbacks, as a ghost log beside the
  environment of the callbacks.  A connection attempt is opened by \<open>wifi_start\<close> and ended by
  \<open>close\<close>: \<open>connection_calls\<close> runs over a log and gives whether an attempt is open at its end,
  and nothing when a call came at the wrong time (a second start, a poll or a close with no
  open attempt, a jitter value drawn while one is open).
\<close>

datatype net_call = Wifi_Start | Wifi_Poll | Tcp_Poll | Session_Poll | Net_Close | Random_U32

definition logged_call :: "net_call \<Rightarrow> ('e \<Rightarrow> 'r \<times> 'e) \<Rightarrow> 'e \<times> net_call list \<Rightarrow> 'r \<times> 'e \<times> net_call list" where
  "logged_call c f s = (case f (fst s) of (r, e) \<Rightarrow> (r, e, snd s @ [c]))"

definition logged_net :: "'e pbns_network_ops \<Rightarrow> ('e \<times> net_call list) pbns_network_ops" where
  "logged_net ops =
     \<lparr>wifi_start = map_option (logged_call Wifi_Start) (wifi_start ops),
      wifi_poll = map_option (logged_call Wifi_Poll) (wifi_poll ops),
      tcp_poll = map_option (logged_call Tcp_Poll) (tcp_poll ops),
      session_poll = map_option (logged_call Session_Poll) (session_poll ops),
      net_close = map_option (\<lambda>f s. (f (fst s), snd s @ [Net_Close])) (net_close ops),
      random_u32 = map_option (\<lambda>f s. case f (fst s) of (r, v, e) \<Rightarrow> (r, v, e, snd s @ [Random_U32])) (random_u32 ops)\<rparr>"

fun call_opens :: "bool \<Rightarrow> net_call \<Rightarrow> bool option" where
  "call_opens active Wifi_Start = (if active then None else Some True)"
| "call_opens active Net_Close = (if active then Some False else None)"
| "call_opens active Random_U32 = (if active then None else Some False)"
| "call_opens active _ = (if active then Some True else None)"

fun connection_calls :: "bool \<Rightarrow> net_call list \<Rightarrow> bool option" where
  "connection_calls active [] = Some active"
| "connection_calls active (c # cs) = Option.bind (call_opens active c) (\<lambda>b. connection_calls b cs)"

definition calls_match :: "pbns_network \<Rightarrow> 'e \<times> net_call list \<Rightarrow> bool" where
  "calls_match n s \<longleftrightarrow> connection_calls False (snd s) = Some (connection_active n)"

definition connecting :: "pbns_network_state \<Rightarrow> bool" where
  "connecting st \<longleftrightarrow> st \<noteq> PBNS_NETWORK_DOWN \<and> st \<noteq> PBNS_NETWORK_BACKOFF"

definition net_inv :: "pbns_network \<Rightarrow> bool" where
  "net_inv n \<longleftrightarrow> n_initialized n \<and> (connection_active n \<longleftrightarrow> connecting (n_state n)) \<and>
     (n_failure n \<noteq> PBNS_OK \<longrightarrow> n_state n = PBNS_NETWORK_DOWN)"

lemma nominal_backoff_eq: "unat (nominal_backoff k) = 250 * 2 ^ (if unat k < 5 then unat k else 5)"
proof (cases "unat k < 5")
  case True
  then have "unat k \<in> set [0..<5]" by simp
  then have "unat k = 0 \<or> unat k = 1 \<or> unat k = 2 \<or> unat k = 3 \<or> unat k = 4" by (auto simp: upt_rec)
  with True show ?thesis
    by (auto simp: nominal_backoff_def word_less_nat_alt Let_def)
next
  case False
  then show ?thesis by (simp add: nominal_backoff_def word_less_nat_alt Let_def)
qed

lemma nominal_backoff_range: "250 \<le> unat (nominal_backoff k)" "unat (nominal_backoff k) \<le> 8000"
proof -
  have "(2 :: nat) ^ (if unat k < 5 then unat k else 5) \<le> 2 ^ 5" by (rule power_increasing) auto
  then show "250 \<le> unat (nominal_backoff k)" "unat (nominal_backoff k) \<le> 8000"
    unfolding nominal_backoff_eq by simp_all
qed

lemma backoff_delay_range:
  "unat (nominal_backoff k) \<le> unat (backoff_delay k r)" "unat (backoff_delay k r) \<le> 8000"
  "unat (backoff_delay k r) \<le> unat (nominal_backoff k) + unat (nominal_backoff k) div 4"
proof -
  let ?n = "nominal_backoff k"
  define j where "j = (ucast r :: u64) mod (?n div 4 + 1)"
  have d: "unat (?n div 4) = unat ?n div 4" by (simp add: unat_div)
  have s: "unat (?n div 4 + 1) = unat ?n div 4 + 1"
    using unat_add_nowrap [of "?n div 4" 1] nominal_backoff_range(2) [of k] by (simp add: d)
  have "unat j = unat (ucast r :: u64) mod (unat ?n div 4 + 1)" by (simp only: j_def unat_mod s)
  then have j: "unat j \<le> unat ?n div 4" by (metis Suc_eq_plus1 less_Suc_eq_le mod_less_divisor zero_less_Suc)
  have sub: "unat (8000 - ?n) = 8000 - unat ?n" using unat_sub_nowrap [of ?n 8000] nominal_backoff_range(2) [of k] by simp
  have del: "backoff_delay k r = (if j > 8000 - ?n then 8000 else ?n + j)" by (simp add: backoff_delay_def Let_def j_def)
  have c: "j > 8000 - ?n \<longleftrightarrow> unat j > 8000 - unat ?n" by (simp only: word_less_nat_alt sub)
  have add: "unat j \<le> 8000 - unat ?n \<Longrightarrow> unat (?n + j) = unat ?n + unat j"
    using unat_add_nowrap [of ?n j] nominal_backoff_range(2) [of k] by simp
  show "unat ?n \<le> unat (backoff_delay k r)" "unat (backoff_delay k r) \<le> 8000"
    "unat (backoff_delay k r) \<le> unat ?n + unat ?n div 4"
    using nominal_backoff_range [of k] j c add by (auto simp: del)
qed

lemma schedule_backoff_inv:
  assumes "schedule_backoff n now ops cause e = (status, n', p, e')" and "n_initialized n" and "n_failure n = PBNS_OK"
  shows "net_inv n' \<and> p"
  using assms by (auto simp: schedule_backoff_def close_active_connection_def net_inv_def connecting_def Let_def split: prod.splits if_splits)

lemma poll_connecting_stage_inv:
  assumes "poll_connecting_stage n ops poll st now e = (status, n', p, e')" and "net_inv n" and "n_failure n = PBNS_OK"
    and "connecting (n_state n)" and "connecting st"
  shows "net_inv n'"
  using assms(1-3) schedule_backoff_inv [of n now ops] assms(4,5)
  by (fastforce simp: poll_connecting_stage_def net_inv_def Let_def split: prod.splits if_splits)

lemma network_step_connected_inv:
  assumes "network_step_connected n ops now e = (status, n', p, e')" and "net_inv n" and "n_failure n = PBNS_OK"
  shows "net_inv n'"
proof -
  have init: "n_initialized n" using assms(2) by (simp add: net_inv_def)
  show ?thesis
  proof (cases "state_timeout (n_state n) > 0 \<and> now \<ge> state_entered_ms n \<and> now - state_entered_ms n \<ge> state_timeout (n_state n)")
    case True
    with assms(1) have "schedule_backoff n now ops PBNS_ERR_TIMEOUT e = (status, n', p, e')"
      by (simp add: network_step_connected_def Let_def)
    from schedule_backoff_inv [OF this init assms(3)] show ?thesis by simp
  next
    case False
    note step = assms(1) [unfolded network_step_connected_def Let_def if_not_P [OF False]]
    show ?thesis
    proof (cases "n_state n")
      case PBNS_NETWORK_DOWN
      have "schedule_backoff (n\<lparr>connection_active := True\<rparr>) now ops st e1 = (status, n', p, e') \<Longrightarrow> net_inv n'" for st e1
        using schedule_backoff_inv [of "n\<lparr>connection_active := True\<rparr>" now ops st e1] init assms(3) by simp
      with step PBNS_NETWORK_DOWN assms(2,3) show ?thesis
        by (auto simp: net_inv_def connecting_def split: prod.splits if_splits)
    next
      case PBNS_NETWORK_READY
      have "schedule_backoff n now ops st e1 = (status, n', p, e') \<Longrightarrow> net_inv n'" for st e1
        using schedule_backoff_inv [of n now ops st e1] init assms(3) by simp
      with step PBNS_NETWORK_READY assms(2) show ?thesis by (auto split: prod.splits if_splits)
    next
      case PBNS_NETWORK_BACKOFF
      with step assms(2,3) show ?thesis by (auto simp: net_inv_def connecting_def split: if_splits)
    qed (use step assms(2,3) poll_connecting_stage_inv in \<open>fastforce simp: connecting_def\<close>)+
  qed
qed

lemma net_step_inv:
  assumes "net_step ops (n, e) (n', e')" and "net_inv n"
  shows "net_inv n'"
  using assms(1)
proof cases
  case (net_step now usb status p)
  obtain st m q e1 where c: "network_step_connected n ops now e = (st, m, q, e1)" by (metis prod_cases4)
  from network_step_connected_inv [OF c assms(2)] net_step c assms(2) show ?thesis
    by (auto simp: pbns_network_step_def close_active_connection_def net_inv_def connecting_def Let_def split: if_splits)
qed

lemma net_reach_inv: "net_reach ops e0 s \<Longrightarrow> net_inv (fst s)"
proof (induction rule: net_reach.induct)
  case (net_init n0 n)
  then show ?case by (auto simp: pbns_network_init_def network_zero_def net_inv_def connecting_def)
next
  case (net_next s s')
  then show ?case using net_step_inv [of ops "fst s" "snd s" "fst s'" "snd s'"] by simp
qed

lemma connection_calls_snoc: "connection_calls b (cs @ [c]) = Option.bind (connection_calls b cs) (\<lambda>b. call_opens b c)"
  by (induction cs arbitrary: b) (auto split: bind_splits)

lemma logged_net_calls:
  assumes "ops_are_valid (Some ops)"
  shows "the (wifi_start (logged_net ops)) = logged_call Wifi_Start (the (wifi_start ops))"
    and "the (wifi_poll (logged_net ops)) = logged_call Wifi_Poll (the (wifi_poll ops))"
    and "the (tcp_poll (logged_net ops)) = logged_call Tcp_Poll (the (tcp_poll ops))"
    and "the (session_poll (logged_net ops)) = logged_call Session_Poll (the (session_poll ops))"
    and "the (net_close (logged_net ops)) s = (the (net_close ops) (fst s), snd s @ [Net_Close])"
    and "the (random_u32 (logged_net ops)) s =
      (case the (random_u32 ops) (fst s) of (r, v, e) \<Rightarrow> (r, v, e, snd s @ [Random_U32]))"
  using assms by (auto simp: ops_are_valid_def logged_net_def option.map_sel)

lemma ops_are_valid_logged: "ops_are_valid (Some (logged_net ops)) = ops_are_valid (Some ops)"
  by (simp add: ops_are_valid_def logged_net_def)

lemma logged_poll_calls:
  assumes "logged_call c f s = (r, s')" and "calls_match n s" and "connection_active n"
    and "c \<in> {Wifi_Poll, Tcp_Poll, Session_Poll}"
  shows "calls_match n s'"
  using assms by (auto simp: logged_call_def calls_match_def connection_calls_snoc split: prod.splits)

lemma close_active_connection_calls:
  assumes "close_active_connection n (logged_net ops) s = (n', s')" and "calls_match n s" and "ops_are_valid (Some ops)"
  shows "calls_match n' s' \<and> \<not> connection_active n'"
  using assms by (auto simp: close_active_connection_def calls_match_def connection_calls_snoc logged_net_calls split: if_splits)

lemma schedule_backoff_calls:
  assumes "schedule_backoff n now (logged_net ops) cause s = (status, n', p, s')" and "calls_match n s"
    and "ops_are_valid (Some ops)"
  shows "calls_match n' s'"
proof -
  obtain m s1 where c: "close_active_connection n (logged_net ops) s = (m, s1)" by (metis surj_pair)
  with close_active_connection_calls [OF c assms(2,3)] assms(1,3) show ?thesis
    by (auto simp: schedule_backoff_def logged_net_calls calls_match_def connection_calls_snoc Let_def
        split: prod.splits if_splits)
qed

lemma poll_connecting_stage_calls:
  assumes "poll_connecting_stage n (logged_net ops) (logged_call c f) st now s = (status, n', p, s')" and "calls_match n s"
    and "ops_are_valid (Some ops)" and "connection_active n" and "c \<in> {Wifi_Poll, Tcp_Poll, Session_Poll}"
  shows "calls_match n' s'"
proof -
  obtain r s1 where p: "logged_call c f s = (r, s1)" by (metis surj_pair)
  from logged_poll_calls [OF p assms(2,4,5)] have m: "calls_match n s1" .
  with p assms(1,3) schedule_backoff_calls [of n now ops r s1] show ?thesis
    by (auto simp: poll_connecting_stage_def calls_match_def Let_def split: if_splits)
qed

lemma network_start_calls:
  assumes "calls_match n s" and "\<not> connection_active n" and "logged_call Wifi_Start f s = (r, s1)"
  shows "calls_match (n\<lparr>connection_active := True\<rparr>) s1"
  using assms by (auto simp: logged_call_def calls_match_def connection_calls_snoc split: prod.splits)

lemma network_step_connected_calls:
  assumes "network_step_connected n (logged_net ops) now s = (status, n', p, s')" and "calls_match n s"
    and "net_inv n" and v: "ops_are_valid (Some ops)"
  shows "calls_match n' s'"
proof (cases "state_timeout (n_state n) > 0 \<and> now \<ge> state_entered_ms n \<and> now - state_entered_ms n \<ge> state_timeout (n_state n)")
  case True
  with assms show ?thesis
    using schedule_backoff_calls [of n now ops PBNS_ERR_TIMEOUT s] by (simp add: network_step_connected_def Let_def)
next
  case False
  note step = assms(1) [unfolded network_step_connected_def Let_def if_not_P [OF False] logged_net_calls(1-4) [OF v]]
  show ?thesis
  proof (cases "n_state n")
    case PBNS_NETWORK_DOWN
    obtain r s1 where w: "logged_call Wifi_Start (the (wifi_start ops)) s = (r, s1)" by (metis surj_pair)
    have m: "calls_match (n\<lparr>connection_active := True\<rparr>) s1"
      using network_start_calls [OF assms(2) _ w] assms(3) PBNS_NETWORK_DOWN by (simp add: net_inv_def connecting_def)
    show ?thesis using step schedule_backoff_calls [OF _ m v] m by (auto simp: PBNS_NETWORK_DOWN w calls_match_def split: if_splits)
  next
    case PBNS_NETWORK_READY
    obtain r s1 where w: "logged_call Session_Poll (the (session_poll ops)) s = (r, s1)" by (metis surj_pair)
    have m: "calls_match n s1"
      using logged_poll_calls [OF w assms(2)] assms(3) PBNS_NETWORK_READY by (simp add: net_inv_def connecting_def)
    show ?thesis using step schedule_backoff_calls [OF _ m v] m by (auto simp: PBNS_NETWORK_READY w split: if_splits)
  next
    case PBNS_NETWORK_BACKOFF
    with step assms(2) show ?thesis by (auto simp: calls_match_def split: if_splits)
  qed (use step assms(2,3) poll_connecting_stage_calls [OF _ assms(2) v] in \<open>auto simp: net_inv_def connecting_def\<close>)
qed

lemma net_step_calls:
  assumes "net_step (logged_net ops) (n, s) (n', s')" and "net_inv n" and "calls_match n s"
  shows "calls_match n' s'"
  using assms(1)
proof cases
  case (net_step now usb status p)
  obtain st m q s1 where c: "network_step_connected n (logged_net ops) now s = (st, m, q, s1)" by (metis prod_cases4)
  obtain m' s2 where d: "close_active_connection n (logged_net ops) s = (m', s2)" by (metis surj_pair)
  note calls = network_step_connected_calls [OF c assms(3,2)] close_active_connection_calls [OF d assms(3)]
  from net_step calls c d assms(3) show ?thesis
    by (auto simp: pbns_network_step_def ops_are_valid_logged calls_match_def Let_def split: if_splits)
qed

lemma net_reach_calls: "net_reach (logged_net ops) (e0, []) s \<Longrightarrow> calls_match (fst s) (snd s)"
proof (induction rule: net_reach.induct)
  case (net_init n0 n)
  then show ?case by (auto simp: pbns_network_init_def network_zero_def calls_match_def)
next
  case (net_next s s')
  then show ?case
    using net_step_calls [of ops "fst s" "snd s" "fst s'" "snd s'"] net_reach_inv [OF net_next.hyps(1)] by simp
qed

text \<open>The retry schedule that a step into the backoff state leaves behind.\<close>

definition backoff_scheduled :: "u64 \<Rightarrow> pbns_network \<Rightarrow> pbns_network \<Rightarrow> bool" where
  "backoff_scheduled now n n' \<longleftrightarrow>
     (\<exists>delay. 250 * 2 ^ min 5 (unat (failure_count n)) \<le> delay \<and> delay \<le> 8000 \<and>
        unat (retry_deadline_ms n') = min (unat now + delay) (2 ^ 64 - 1)) \<and>
     unat (failure_count n') = min (unat (failure_count n) + 1) (2 ^ 32 - 1)"

lemma schedule_backoff_scheduled:
  assumes "schedule_backoff n now ops cause e = (status, n', p, e')" and "n_state n' = PBNS_NETWORK_BACKOFF"
  shows "backoff_scheduled now n n'"
proof -
  define m where "m = fst (close_active_connection n ops e)"
  obtain rs r e1 where rnd: "the (random_u32 ops) (snd (close_active_connection n ops e)) = (rs, r, e1)" by (metis prod_cases3)
  have m: "failure_count m = failure_count n" by (simp add: m_def close_active_connection_def)
  have d: "retry_deadline_ms n' = (if now > - 1 - backoff_delay (failure_count n) r then - 1 else now + backoff_delay (failure_count n) r)"
    and f: "failure_count n' = (if failure_count n < - 1 then failure_count n + 1 else failure_count n)"
    using assms rnd m unfolding m_def schedule_backoff_def case_prod_beta Let_def by (auto simp del: not_less split: if_split_asm)
  let ?d = "backoff_delay (failure_count n) r"
  have max: "unat (- 1 - ?d) = 2 ^ 64 - 1 - unat ?d"
    using unat_sub_nowrap [of ?d "- 1"] unat_lt [of ?d] unat_max_word [where 'a = 64] by simp
  have "unat (retry_deadline_ms n') = min (unat now + unat ?d) (2 ^ 64 - 1)"
  proof (cases "unat now + unat ?d \<le> 2 ^ 64 - 1")
    case True
    then have "\<not> now > - 1 - ?d" by (simp add: word_less_nat_alt max)
    with True unat_add_nowrap [of now ?d] show ?thesis by (simp add: d)
  next
    case False
    then have "2 ^ 64 - 1 - unat ?d < unat now" using unat_lt [of ?d] by simp
    then have "now > - 1 - ?d" by (simp only: word_less_nat_alt max)
    with False unat_max_word [where 'a = 64] show ?thesis by (simp add: d)
  qed
  moreover have "unat (nominal_backoff (failure_count n)) = 250 * 2 ^ min 5 (unat (failure_count n))"
    by (simp add: nominal_backoff_eq min_def)
  moreover have "unat (failure_count n') = min (unat (failure_count n) + 1) (2 ^ 32 - 1)"
  proof (cases "failure_count n = - 1")
    case True
    then show ?thesis using f unat_max_word [where 'a = 32] by simp
  next
    case False
    then have "unat (failure_count n) < 2 ^ 32 - 1" using not_max_word [of "failure_count n"] by simp
    moreover have "failure_count n < - 1" using calculation unat_max_word [where 'a = 32] by (simp add: word_less_nat_alt)
    ultimately show ?thesis using f unat_add_nowrap [of "failure_count n" 1] by simp
  qed
  ultimately show ?thesis using backoff_delay_range [of "failure_count n" r] unfolding backoff_scheduled_def by metis
qed

lemma network_step_into_backoff:
  assumes "network_step_connected n ops now e = (status, n', p, e')" and "n_state n' = PBNS_NETWORK_BACKOFF" and "n_state n \<noteq> PBNS_NETWORK_BACKOFF"
  shows "backoff_scheduled now n n'"
proof -
  have sb: "schedule_backoff n now ops st e1 = (status, n', p, e') \<Longrightarrow> backoff_scheduled now n n'"
    "schedule_backoff (n\<lparr>connection_active := True\<rparr>) now ops st e1 = (status, n', p, e') \<Longrightarrow> backoff_scheduled now n n'" for st e1
    using schedule_backoff_scheduled [of n now ops] schedule_backoff_scheduled [of "n\<lparr>connection_active := True\<rparr>" now ops] assms(2)
    by (auto simp: backoff_scheduled_def)
  with assms show ?thesis
    by (auto simp: network_step_connected_def poll_connecting_stage_def Let_def split: if_splits prod.splits pbns_network_state.splits)
qed

subsection \<open>Properties\<close>

text \<open>C20:
  Connection discipline.  From an initialised machine, for arbitrary callbacks, clock readings
  and USB states, the calls of the callbacks are well bracketed: \<open>wifi_start\<close> is only called
  when no connection attempt is open, the polls and \<open>close\<close> only while one is, the jitter is
  drawn only after the attempt was closed, and every attempt that was started and whose
  \<open>close\<close> has not been called yet is one the machine still holds: the flag
  \<open>connection_active\<close> is exactly what the calls made so far leave open, and it is set exactly
  in the connecting and ready states.  After a recorded fatal failure the machine is down with
  the connection closed.
\<close>

theorem network_connection_invariant:
  assumes "net_reach (logged_net ops) (e0, []) (n, e, calls)"
  shows "connection_calls False calls = Some (connection_active n) \<and> n_initialized n \<and>
    (connection_active n \<longleftrightarrow> n_state n \<noteq> PBNS_NETWORK_DOWN \<and> n_state n \<noteq> PBNS_NETWORK_BACKOFF) \<and>
    (n_failure n \<noteq> PBNS_OK \<longrightarrow> n_state n = PBNS_NETWORK_DOWN \<and> \<not> connection_active n)"
  using net_reach_inv [OF assms] net_reach_calls [OF assms] by (auto simp: net_inv_def connecting_def calls_match_def)

definition example_ops :: "nat pbns_network_ops" where
  "example_ops = \<lparr>wifi_start = Some (\<lambda>e. (PBNS_OK, e)), wifi_poll = Some (\<lambda>e. (PBNS_OK, e)), tcp_poll = Some (\<lambda>e. (PBNS_ERR_TRANSPORT, e)),
     session_poll = Some (\<lambda>e. (PBNS_OK, e)), net_close = Some Suc, random_u32 = Some (\<lambda>e. (PBNS_OK, 7, e))\<rparr>"

theorem network_connection_invariant_witness:
  "\<exists>n. net_reach (logged_net example_ops) (0, []) (n, 1, [Wifi_Start, Wifi_Poll, Tcp_Poll, Net_Close, Random_U32]) \<and>
     n_state n = PBNS_NETWORK_BACKOFF \<and> \<not> connection_active n \<and>
     connection_calls False [Wifi_Start, Wifi_Poll, Tcp_Poll, Net_Close, Random_U32] = Some False"
proof -
  let ?n1 = "network_zero\<lparr>n_state := PBNS_NETWORK_WIFI_CONNECTING, state_entered_ms := 5, connection_active := True\<rparr>"
  let ?n2 = "?n1\<lparr>n_state := PBNS_NETWORK_TCP_CONNECTING, state_entered_ms := 6\<rparr>"
  let ?n3 = "?n2\<lparr>n_state := PBNS_NETWORK_BACKOFF, state_entered_ms := 7, retry_deadline_ms := 264, failure_count := 1, connection_active := False\<rparr>"
  let ?l = "logged_net example_ops"
  note ev = pbns_network_step_def ops_are_valid_def logged_net_def logged_call_def example_ops_def network_zero_def network_step_connected_def
    poll_connecting_stage_def schedule_backoff_def close_active_connection_def backoff_delay_def nominal_backoff_def Let_def word_le_nat_alt
  have "(0 :: u32) < - 1" by code_simp
  note ev = ev this
  have "net_reach ?l (0, []) (network_zero, 0, [])" by (rule net_init [of network_zero]) (simp add: pbns_network_init_def)
  moreover have "net_step ?l (network_zero, 0, []) (?n1, 0, [Wifi_Start])" by (rule net_step [of _ _ 5 True]) (simp add: ev)
  moreover have "net_step ?l (?n1, 0, [Wifi_Start]) (?n2, 0, [Wifi_Start, Wifi_Poll])" by (rule net_step [of _ _ 6 True]) (simp add: ev)
  moreover have "net_step ?l (?n2, 0, [Wifi_Start, Wifi_Poll]) (?n3, 1, [Wifi_Start, Wifi_Poll, Tcp_Poll, Net_Close, Random_U32])"
    by (rule net_step [of _ _ 7 True]) (simp add: ev)
  ultimately have r: "net_reach ?l (0, []) (?n3, 1, [Wifi_Start, Wifi_Poll, Tcp_Poll, Net_Close, Random_U32])" by (meson net_next)
  from network_connection_invariant [OF r] r show ?thesis by (intro exI [of _ ?n3]) simp
qed

text \<open>C34:
  Retry schedule.  When a step takes the machine into the backoff state, the next attempt is
  scheduled at least 250 ms times two to the power of the previous failures (at most five) and
  at most 8 seconds later, saturating at the end of the 64 bit clock, and the failure counter
  is incremented, saturating at the 32 bit maximum.
\<close>

theorem network_backoff_schedule:
  assumes "pbns_network_step (Some n) (Some ops) now True (Some b) e = (status, Some n', p, e')"
    and "n_state n \<noteq> PBNS_NETWORK_BACKOFF" and "n_state n' = PBNS_NETWORK_BACKOFF"
  shows "(\<exists>delay. 250 * 2 ^ min 5 (unat (failure_count n)) \<le> delay \<and> delay \<le> 8000 \<and>
      unat (retry_deadline_ms n') = min (unat now + delay) (2 ^ 64 - 1)) \<and>
    unat (failure_count n') = min (unat (failure_count n) + 1) (2 ^ 32 - 1)"
proof -
  have "\<exists>p e'. network_step_connected n ops now e = (status, n', p, e')"
    using assms by (auto simp: pbns_network_step_def Let_def split: if_splits prod.splits)
  then show ?thesis using network_step_into_backoff [of n ops now e status n'] assms(2,3) unfolding backoff_scheduled_def by metis
qed

theorem network_backoff_schedule_witness:
  "\<exists>n' p e'. pbns_network_step (Some (network_zero\<lparr>n_state := PBNS_NETWORK_TCP_CONNECTING, connection_active := True\<rparr>))
      (Some example_ops) 100 True (Some False) 0 = (PBNS_ERR_TRANSPORT, Some n', p, e') \<and>
    (\<exists>delay. 250 \<le> delay \<and> delay \<le> 8000 \<and> unat (retry_deadline_ms n') = min (100 + delay) (2 ^ 64 - 1))"
proof -
  let ?n = "network_zero\<lparr>n_state := PBNS_NETWORK_TCP_CONNECTING, connection_active := True\<rparr>"
  obtain n' p e' where step: "pbns_network_step (Some ?n) (Some example_ops) 100 True (Some False) 0 = (PBNS_ERR_TRANSPORT, Some n', p, e')"
      "n_state n' = PBNS_NETWORK_BACKOFF"
    by (simp add: pbns_network_step_def ops_are_valid_def example_ops_def network_zero_def network_step_connected_def
        poll_connecting_stage_def schedule_backoff_def close_active_connection_def Let_def)
  from network_backoff_schedule [OF step(1) _ step(2)] step(1) show ?thesis by (auto simp: network_zero_def)
qed

end
