(* ===== verification/Boot_Config.thy ===== *)
theory Boot_Config
  imports Crc32c
begin

text \<open>
  The persistent boot records, src/src/core/boot_config.c: the boot configuration (normal boot option
  and recovery device path) and the boot failure record, each sealed with a CRC-32C over the whole
  record with the CRC field cleared.  The path view of an encoded configuration may lie in the output
  buffer and the path storage of a decoded one in its input, so both copies go through \<open>copy_to\<close>.
  The decoders are shown to accept exactly the encoders' images.
\<close>

section \<open>Records\<close>

record pbns_boot_config =
  normal_boot_option :: u16
  recovery_device_path :: pbns_view

record pbns_boot_failure =
  fl_stage :: byte
  fl_platform_status :: u64

definition PBNS_BOOT_CONFIG_HEADER_SIZE :: nat where "PBNS_BOOT_CONFIG_HEADER_SIZE = 16"
definition PBNS_BOOT_CONFIG_PATH_CAP :: nat where "PBNS_BOOT_CONFIG_PATH_CAP = 4096"
definition PBNS_BOOT_CONFIG_ENCODED_CAP :: nat where
  "PBNS_BOOT_CONFIG_ENCODED_CAP = PBNS_BOOT_CONFIG_HEADER_SIZE + PBNS_BOOT_CONFIG_PATH_CAP"
definition PBNS_BOOT_FAILURE_ENCODED_SIZE :: nat where "PBNS_BOOT_FAILURE_ENCODED_SIZE = 24"
definition PBNS_BOOT_CONFIG_VERSION :: byte where "PBNS_BOOT_CONFIG_VERSION = 1"
definition PBNS_BOOT_CONFIG_CRC_OFFSET :: nat where "PBNS_BOOT_CONFIG_CRC_OFFSET = 12"

definition boot_config_magic :: bytes where "boot_config_magic = [0x50, 0x42, 0x43, 0x31]"
definition boot_failure_magic :: bytes where "boot_failure_magic = [0x50, 0x42, 0x46, 0x31]"

lemmas boot_constants = PBNS_BOOT_CONFIG_HEADER_SIZE_def PBNS_BOOT_CONFIG_PATH_CAP_def PBNS_BOOT_CONFIG_ENCODED_CAP_def
  PBNS_BOOT_FAILURE_ENCODED_SIZE_def PBNS_BOOT_CONFIG_VERSION_def PBNS_BOOT_CONFIG_CRC_OFFSET_def

section \<open>Operations\<close>

text \<open>The CRC is taken with its own field cleared; the field is restored afterwards.\<close>

definition encoded_crc :: "nat \<Rightarrow> bytes \<Rightarrow> nat \<Rightarrow> u32" where
  "encoded_crc p mem encoded_size =
     pbns_crc32c \<lparr>v_ptr = p, v_bytes = take encoded_size (store_at mem PBNS_BOOT_CONFIG_CRC_OFFSET [0, 0, 0, 0])\<rparr>"

definition pbns_boot_config_encode ::
    "pbns_boot_config ptr \<Rightarrow> pbns_buffer \<Rightarrow> nat ptr \<Rightarrow> pbns_status \<times> bytes \<times> nat ptr" where
  "pbns_boot_config_encode config output written =
     (if written = None then (PBNS_ERR_ARGUMENT, b_mem output, None)
      else if config = None \<or> b_ptr output = 0 \<or> b_len output \<noteq> 0 \<or>
              v_ptr (recovery_device_path (the config)) = 0 \<or> v_len (recovery_device_path (the config)) = 0
           then (PBNS_ERR_ARGUMENT, b_mem output, Some 0)
      else if v_len (recovery_device_path (the config)) > PBNS_BOOT_CONFIG_PATH_CAP
           then (PBNS_ERR_LIMIT, b_mem output, Some 0)
      else
        let path = recovery_device_path (the config);
            encoded_size = PBNS_BOOT_CONFIG_HEADER_SIZE + v_len path in
        if b_cap output < encoded_size then (PBNS_ERR_LIMIT, b_mem output, Some 0)
        else
          let mem = store_at (b_mem output) 0 (replicate encoded_size 0);
              mem = store_at mem 0 boot_config_magic;
              mem = mem[4 := PBNS_BOOT_CONFIG_VERSION];
              mem = store_at mem 6 (write_u16_be (normal_boot_option (the config)));
              mem = store_at mem 8 (write_u32_be (of_nat (v_len path)));
              mem = copy_to (b_ptr output) mem PBNS_BOOT_CONFIG_HEADER_SIZE path;
              crc = encoded_crc (b_ptr output) mem encoded_size;
              mem = store_at mem PBNS_BOOT_CONFIG_CRC_OFFSET (write_u32_be crc)
          in (PBNS_OK, mem, Some encoded_size))"

text \<open>
  \<open>config\<close> is written on every path past the argument check.  The boot option is read after the path
  has been copied, so it is read back from the input as the copy left it.  The address of the local
  scratch array is any non-null one.
\<close>

definition zero_boot_config :: pbns_boot_config where
  "zero_boot_config = \<lparr>normal_boot_option = 0, recovery_device_path = null_view\<rparr>"

definition pbns_boot_config_decode ::
    "pbns_view \<Rightarrow> pbns_buffer \<Rightarrow> pbns_boot_config ptr \<Rightarrow> pbns_status \<times> pbns_boot_config ptr \<times> bytes" where
  "pbns_boot_config_decode encoded path_storage config =
     (if config = None \<or> v_ptr encoded = 0 \<or> b_ptr path_storage = 0 \<or> b_len path_storage \<noteq> 0
      then (PBNS_ERR_ARGUMENT, config, b_mem path_storage)
      else
        let fail = (\<lambda>st. (st, Some zero_boot_config, b_mem path_storage)); bs = v_bytes encoded in
        if v_len encoded < PBNS_BOOT_CONFIG_HEADER_SIZE \<or> v_len encoded > PBNS_BOOT_CONFIG_ENCODED_CAP
        then fail PBNS_ERR_FORMAT
        else if take 4 bs \<noteq> boot_config_magic then fail PBNS_ERR_FORMAT
        else if bs ! 4 \<noteq> PBNS_BOOT_CONFIG_VERSION then fail PBNS_ERR_VERSION
        else if bs ! 5 \<noteq> 0 then fail PBNS_ERR_FORMAT
        else
          let path_size = unat (read_u32_be (drop 8 bs)) in
          if path_size = 0 \<or> path_size > PBNS_BOOT_CONFIG_PATH_CAP \<or>
             path_size \<noteq> v_len encoded - PBNS_BOOT_CONFIG_HEADER_SIZE
          then fail PBNS_ERR_FORMAT
          else if b_cap path_storage < path_size then fail PBNS_ERR_LIMIT
          else
            let scratch = bs @ replicate (PBNS_BOOT_CONFIG_ENCODED_CAP - length bs) 0;
                expected_crc = read_u32_be (drop PBNS_BOOT_CONFIG_CRC_OFFSET bs) in
            if encoded_crc 1 scratch (v_len encoded) \<noteq> expected_crc then fail PBNS_ERR_CRC
            else
              let source = \<lparr>v_ptr = v_ptr encoded + PBNS_BOOT_CONFIG_HEADER_SIZE,
                            v_bytes = drop PBNS_BOOT_CONFIG_HEADER_SIZE bs\<rparr>;
                  mem = copy_to (b_ptr path_storage) (b_mem path_storage) 0 source;
                  opt = read_u16_be (map (byte_at (b_ptr path_storage) mem encoded) [6, 7])
              in (PBNS_OK,
                  Some \<lparr>normal_boot_option = opt,
                        recovery_device_path = \<lparr>v_ptr = b_ptr path_storage, v_bytes = take path_size mem\<rparr>\<rparr>,
                  mem))"

definition pbns_boot_failure_encode ::
    "pbns_boot_failure ptr \<Rightarrow> pbns_buffer \<Rightarrow> nat ptr \<Rightarrow> pbns_status \<times> bytes \<times> nat ptr" where
  "pbns_boot_failure_encode failure output written =
     (if written = None then (PBNS_ERR_ARGUMENT, b_mem output, None)
      else if failure = None \<or> fl_stage (the failure) = 0 \<or> b_ptr output = 0 \<or> b_len output \<noteq> 0
           then (PBNS_ERR_ARGUMENT, b_mem output, Some 0)
      else if b_cap output < PBNS_BOOT_FAILURE_ENCODED_SIZE then (PBNS_ERR_LIMIT, b_mem output, Some 0)
      else
        let mem = store_at (b_mem output) 0 (replicate PBNS_BOOT_FAILURE_ENCODED_SIZE 0);
            mem = store_at mem 0 boot_failure_magic;
            mem = mem[4 := PBNS_BOOT_CONFIG_VERSION];
            mem = mem[5 := fl_stage (the failure)];
            mem = store_at mem 16 (write_u64_be (fl_platform_status (the failure)));
            crc = encoded_crc (b_ptr output) mem PBNS_BOOT_FAILURE_ENCODED_SIZE;
            mem = store_at mem PBNS_BOOT_CONFIG_CRC_OFFSET (write_u32_be crc)
        in (PBNS_OK, mem, Some PBNS_BOOT_FAILURE_ENCODED_SIZE))"

definition zero_boot_failure :: pbns_boot_failure where
  "zero_boot_failure = \<lparr>fl_stage = 0, fl_platform_status = 0\<rparr>"

definition pbns_boot_failure_decode ::
    "pbns_view \<Rightarrow> pbns_boot_failure ptr \<Rightarrow> pbns_status \<times> pbns_boot_failure ptr" where
  "pbns_boot_failure_decode encoded failure =
     (if failure = None \<or> v_ptr encoded = 0 then (PBNS_ERR_ARGUMENT, failure)
      else
        let fail = (\<lambda>st. (st, Some zero_boot_failure)); bs = v_bytes encoded in
        if v_len encoded \<noteq> PBNS_BOOT_FAILURE_ENCODED_SIZE \<or> take 4 bs \<noteq> boot_failure_magic
        then fail PBNS_ERR_FORMAT
        else if bs ! 4 \<noteq> PBNS_BOOT_CONFIG_VERSION then fail PBNS_ERR_VERSION
        else if bs ! 5 = 0 then fail PBNS_ERR_FORMAT
        else if list_ex (\<lambda>i. bs ! i \<noteq> 0) [6..<PBNS_BOOT_CONFIG_CRC_OFFSET] then fail PBNS_ERR_FORMAT
        else
          let expected_crc = read_u32_be (drop PBNS_BOOT_CONFIG_CRC_OFFSET bs) in
          if encoded_crc 1 bs (v_len encoded) \<noteq> expected_crc then fail PBNS_ERR_CRC
          else (PBNS_OK, Some \<lparr>fl_stage = bs ! 5, fl_platform_status = read_u64_be (drop 16 bs)\<rparr>))"

section \<open>The canonical records\<close>

definition config_header :: "u16 \<Rightarrow> nat \<Rightarrow> u32 \<Rightarrow> bytes" where
  "config_header opt n crc =
     boot_config_magic @ [1, 0] @ write_u16_be opt @ write_u32_be (of_nat n) @ write_u32_be crc"

definition config_wire :: "u16 \<Rightarrow> bytes \<Rightarrow> bytes" where
  "config_wire opt path =
     config_header opt (length path) (crc32c (config_header opt (length path) 0 @ path)) @ path"

definition failure_body :: "byte \<Rightarrow> u64 \<Rightarrow> u32 \<Rightarrow> bytes" where
  "failure_body st ps crc = boot_failure_magic @ [1, st] @ replicate 6 0 @ write_u32_be crc @ write_u64_be ps"

definition failure_wire :: "byte \<Rightarrow> u64 \<Rightarrow> bytes" where
  "failure_wire st ps = failure_body st ps (crc32c (failure_body st ps 0))"

lemma length_config_header [simp]: "length (config_header opt n crc) = 16"
  by (simp add: config_header_def boot_config_magic_def)

lemma length_failure_body [simp]: "length (failure_body st ps crc) = 24"
  by (simp add: failure_body_def boot_failure_magic_def)

lemma six_zeros: "replicate 6 (0 :: byte) = [0, 0, 0, 0, 0, 0]"
  by (simp add: eval_nat_numeral)

lemma encoded_crc_cleared:
  "p \<noteq> 0 \<Longrightarrow> take n (store_at mem 12 [0, 0, 0, 0]) = bs \<Longrightarrow> encoded_crc p mem n = crc32c bs"
  using crc32c_any_ptr [of p bs] by (simp add: encoded_crc_def PBNS_BOOT_CONFIG_CRC_OFFSET_def)

lemma sixteen_zeros: "replicate (16 + n) (0 :: byte) = [0,0,0,0,0,0,0,0,0,0,0,0,0,0,0,0] @ replicate n 0"
  by (simp add: replicate_add eval_nat_numeral)

lemma header_stores:
  assumes "16 + n \<le> length mem"
  shows "store_at (store_at ((store_at (store_at mem 0 (replicate (16 + n) 0)) 0 boot_config_magic)[4 := 1]) 6
      (write_u16_be opt)) 8 (write_u32_be (of_nat n)) = config_header opt n 0 @ replicate n 0 @ drop (16 + n) mem"
  by (simp add: sixteen_zeros store_at_def config_header_def boot_config_magic_def write_u16_be_def write_u32_be_def,
      simp add: eval_nat_numeral)

lemma header_crc_store:
  "store_at (config_header opt n c @ rest) 12 (write_u32_be crc) = config_header opt n crc @ rest"
  by (simp add: store_at_def config_header_def boot_config_magic_def write_u16_be_def write_u32_be_def)

lemma twentyfour_zeros: "replicate 24 (0 :: byte) = [0,0,0,0,0,0,0,0,0,0,0,0,0,0,0,0,0,0,0,0,0,0,0,0]"
  by (simp add: eval_nat_numeral)

lemma failure_stores:
  "store_at ((store_at (store_at mem 0 (replicate 24 0)) 0 boot_failure_magic)[4 := 1, 5 := st]) 16
      (write_u64_be ps) = failure_body st ps 0 @ drop 24 mem"
  by (simp add: twentyfour_zeros store_at_def failure_body_def boot_failure_magic_def write_u64_be_unfold write_u32_be_def six_zeros,
      simp add: eval_nat_numeral)

lemma failure_crc_store:
  "store_at (failure_body st ps c @ rest) 12 (write_u32_be crc) = failure_body st ps crc @ rest"
  by (simp add: store_at_def failure_body_def boot_failure_magic_def write_u64_be_unfold write_u32_be_def six_zeros)

lemma write_u32_be_zero: "write_u32_be 0 = [0, 0, 0, 0]"
  by (simp add: write_u32_be_def)

lemma encoded_crc_header:
  "p \<noteq> 0 \<Longrightarrow> encoded_crc p (config_header opt n crc @ path @ rest) (16 + length path) =
     crc32c (config_header opt n 0 @ path)"
  by (rule encoded_crc_cleared, assumption) (simp only: write_u32_be_zero [symmetric] header_crc_store, simp)

lemma encoded_crc_failure:
  "p \<noteq> 0 \<Longrightarrow> encoded_crc p (failure_body st ps crc @ rest) 24 = crc32c (failure_body st ps 0)"
  by (rule encoded_crc_cleared, assumption) (simp only: write_u32_be_zero [symmetric] failure_crc_store, simp)

text \<open>A record of sixteen or more bytes read field by field, as the decoders read it.\<close>

lemma header_fields:
  assumes "16 \<le> length bs"
  shows "bs = take 4 bs @ [bs ! 4, bs ! 5] @ take 2 (drop 6 bs) @ take 4 (drop 8 bs) @ take 4 (drop 12 bs) @ drop 16 bs"
proof -
  have "drop 4 bs = [bs ! 4, bs ! 5] @ drop 6 bs" using assms Cons_nth_drop_Suc [of 4 bs] Cons_nth_drop_Suc [of 5 bs] by simp
  moreover have "drop 6 bs = take 2 (drop 6 bs) @ take 4 (drop 8 bs) @ take 4 (drop 12 bs) @ drop 16 bs"
    using take_drop_rest [of 2 6 bs] take_drop_rest [of 4 8 bs] take_drop_rest [of 4 12 bs] by simp
  ultimately show ?thesis by (metis append_take_drop_id)
qed

section \<open>What the encoders write\<close>

definition config_valid_for :: "pbns_boot_config \<Rightarrow> pbns_buffer \<Rightarrow> bool" where
  "config_valid_for c out \<longleftrightarrow>
     b_ptr out \<noteq> 0 \<and> b_len out = 0 \<and> v_ptr (recovery_device_path c) \<noteq> 0 \<and>
     0 < v_len (recovery_device_path c) \<and> v_len (recovery_device_path c) \<le> 4096 \<and>
     16 + v_len (recovery_device_path c) \<le> b_cap out"

lemma boot_config_encode_wire:
  assumes "config_valid_for c out"
    and "\<not> ranges_overlap (v_ptr (recovery_device_path c)) (v_len (recovery_device_path c)) (b_ptr out) (b_cap out)"
  shows "pbns_boot_config_encode (Some c) out (Some w) =
    (PBNS_OK, config_wire (normal_boot_option c) (v_bytes (recovery_device_path c)) @
              drop (16 + v_len (recovery_device_path c)) (b_mem out), Some (16 + v_len (recovery_device_path c)))"
proof -
  define path opt where "path = v_bytes (recovery_device_path c)" and "opt = normal_boot_option c"
  define mem where "mem = config_header opt (length path) 0 @ replicate (length path) 0 @ drop (16 + length path) (b_mem out)"
  have copy: "copy_to (b_ptr out) mem 16 (recovery_device_path c) =
      config_header opt (length path) 0 @ path @ drop (16 + length path) (b_mem out)"
    using assms by (subst copy_to_apart) (simp_all add: mem_def path_def config_valid_for_def store_at_def)
  have stores: "16 + length path \<le> length (b_mem out)" using assms(1) by (simp add: config_valid_for_def path_def)
  show ?thesis
    using assms(1) encoded_crc_header [of "b_ptr out" opt "length path" 0 path]
    by (simp add: pbns_boot_config_encode_def config_valid_for_def boot_constants Let_def header_stores [OF stores]
        path_def [symmetric] opt_def [symmetric] mem_def [symmetric] copy header_crc_store config_wire_def)
qed

lemma boot_failure_encode_wire:
  assumes "fl_stage f \<noteq> 0" and "b_ptr out \<noteq> 0" and "b_len out = 0" and "24 \<le> b_cap out"
  shows "pbns_boot_failure_encode (Some f) out (Some w) =
    (PBNS_OK, failure_wire (fl_stage f) (fl_platform_status f) @ drop 24 (b_mem out), Some 24)"
  using assms encoded_crc_failure [of "b_ptr out"]
  by (simp add: pbns_boot_failure_encode_def boot_constants Let_def failure_stores failure_crc_store failure_wire_def)

section \<open>What the decoders accept\<close>

definition config_accepts :: "bytes \<Rightarrow> bool" where
  "config_accepts bs \<longleftrightarrow> 16 \<le> length bs \<and> length bs \<le> 4112 \<and> take 4 bs = boot_config_magic \<and> bs ! 4 = 1 \<and> bs ! 5 = 0 \<and>
     unat (read_u32_be (drop 8 bs)) = length bs - 16 \<and> 16 < length bs \<and>
     encoded_crc 1 bs (length bs) = read_u32_be (drop 12 bs)"

lemma config_accepts_iff:
  "config_accepts bs \<longleftrightarrow>
     bs = config_wire (read_u16_be (drop 6 bs)) (drop 16 bs) \<and> 16 < length bs \<and> length bs \<le> 4112"
  (is "?l \<longleftrightarrow> ?r")
proof
  assume a: ?l
  define opt path crc where "opt = read_u16_be (drop 6 bs)" and "path = drop 16 bs" and "crc = read_u32_be (drop 12 bs)"
  have len: "16 < length bs" and "unat (read_u32_be (drop 8 bs)) = length path"
    using a by (simp_all add: config_accepts_def path_def)
  then have n: "read_u32_be (drop 8 bs) = of_nat (length path)" by (metis of_nat_unat ucast_id)
  have bs: "bs = config_header opt (length path) crc @ path"
    using header_fields [of bs] a len field_u16 [of 6 bs] field_u32 [of 8 bs] field_u32 [of 12 bs]
    by (simp add: config_accepts_def config_header_def opt_def crc_def path_def n)
  have "crc32c (config_header opt (length path) 0 @ path) = encoded_crc 1 bs (length bs)"
    by (subst (1 2) bs) (use encoded_crc_header [of 1 opt "length path" crc path "[]"] in simp)
  moreover have "crc = encoded_crc 1 bs (length bs)" using a by (simp add: config_accepts_def crc_def)
  ultimately have "crc = crc32c (config_header opt (length path) 0 @ path)" by (blast intro: trans sym)
  then have "bs = config_wire opt path" using bs unfolding config_wire_def by (rule subst)
  then show ?r using a unfolding config_accepts_def opt_def path_def by blast
next
  assume r: ?r
  define opt path crc where "opt = read_u16_be (drop 6 bs)" and "path = drop 16 bs"
    and "crc = crc32c (config_header opt (length path) 0 @ path)"
  have bs: "bs = config_header opt (length path) crc @ path" using r by (simp add: config_wire_def opt_def path_def crc_def)
  have len: "length path = length bs - 16" "length path \<le> 4096" using conjunct2 [OF r] by (auto simp: path_def)
  have seal: "encoded_crc 1 bs (length bs) = crc"
    by (subst (1 2) bs) (use encoded_crc_header [of 1 opt "length path" crc path "[]"] in \<open>simp add: crc_def\<close>)
  have "take 4 bs = boot_config_magic" "bs ! 4 = 1" "bs ! 5 = 0" "read_u32_be (drop 8 bs) = of_nat (length path)" "read_u32_be (drop 12 bs) = crc"
    by (subst bs, simp add: config_header_def boot_config_magic_def nth_append)+
  moreover have "unat (of_nat (length path) :: u32) = length bs - 16" using len by (simp add: unat_of_nat_small)
  ultimately show ?l using conjunct2 [OF r] seal by (simp add: config_accepts_def)
qed

lemma config_wire_fields:
  "read_u16_be (drop 6 (config_wire opt path)) = opt" "drop 16 (config_wire opt path) = path"
  "length (config_wire opt path) = 16 + length path"
  by (simp_all add: config_wire_def) (simp_all add: config_header_def boot_config_magic_def)

lemma config_accepts_wire: "0 < length path \<Longrightarrow> length path \<le> 4096 \<Longrightarrow> config_accepts (config_wire opt path)"
  by (simp add: config_accepts_iff config_wire_fields del: length_greater_0_conv)

lemma failure_accepts_iff:
  assumes "length bs = 24"
  shows "take 4 bs = boot_failure_magic \<and> bs ! 4 = 1 \<and> \<not> list_ex (\<lambda>i. bs ! i \<noteq> 0) [6..<12] \<and>
       encoded_crc 1 bs 24 = read_u32_be (drop 12 bs) \<longleftrightarrow>
     bs = failure_wire (bs ! 5) (read_u64_be (drop 16 bs))" (is "?l \<longleftrightarrow> ?r")
proof
  assume a: ?l
  define st ps crc where "st = bs ! 5" and "ps = read_u64_be (drop 16 bs)" and "crc = read_u32_be (drop 12 bs)"
  have "\<forall>i\<in>set [6..<12]. bs ! i = 0" using a unfolding list_ex_iff by blast
  then have "bs ! (6 + i) = 0" if "i < 6" for i using that by (simp only: set_upt) simp
  then have zeros: "take 2 (drop 6 bs) @ take 4 (drop 8 bs) = replicate 6 0"
    using assms by (intro nth_equalityI) (auto simp: nth_append)
  have bs: "bs = failure_body st ps crc"
    using header_fields [of bs] a assms field_u32 [of 12 bs] field_u64 [of 16 bs] zeros
    by (simp add: failure_body_def st_def ps_def crc_def append_assoc [symmetric] del: append_assoc)
  have "crc32c (failure_body st ps 0) = encoded_crc 1 bs 24"
    by (subst bs) (use encoded_crc_failure [of 1 st ps crc "[]"] in simp)
  moreover have "crc = encoded_crc 1 bs 24" using a by (simp add: crc_def)
  ultimately have "crc = crc32c (failure_body st ps 0)" by (blast intro: trans sym)
  then have "bs = failure_wire st ps" using bs unfolding failure_wire_def by (rule subst)
  then show ?r unfolding st_def ps_def .
next
  assume r: ?r
  define st ps crc where "st = bs ! 5" and "ps = read_u64_be (drop 16 bs)" and "crc = crc32c (failure_body st ps 0)"
  have bs: "bs = failure_body st ps crc" using r by (simp add: failure_wire_def st_def ps_def crc_def)
  have seal: "encoded_crc 1 bs 24 = crc"
    by (subst bs) (use encoded_crc_failure [of 1 st ps crc "[]"] in \<open>simp add: crc_def\<close>)
  have "read_u32_be (drop 12 bs) = crc" "take 4 bs = boot_failure_magic" "bs ! 4 = 1" "\<not> list_ex (\<lambda>i. bs ! i \<noteq> 0) [6..<12]"
    by (simp_all add: bs failure_body_def boot_failure_magic_def nth_append)
  then show ?l using seal by blast
qed

lemma encoded_crc_padded: "16 \<le> length bs \<Longrightarrow> encoded_crc p (bs @ rest) (length bs) = encoded_crc p bs (length bs)"
proof -
  assume "16 \<le> length bs"
  then have "store_at (bs @ rest) 12 [0, 0, 0, 0] = store_at bs 12 [0, 0, 0, 0] @ rest" "length (store_at bs 12 [0, 0, 0, 0]) = length bs"
    by (simp_all add: store_at_def)
  then show ?thesis by (simp add: encoded_crc_def boot_constants)
qed

lemma boot_config_decode_result:
  assumes "v_ptr encoded \<noteq> 0" "b_ptr out \<noteq> 0" "b_len out = 0"
    and "\<not> ranges_overlap (v_ptr encoded) (v_len encoded) (b_ptr out) (b_cap out)"
    and "config_accepts (v_bytes encoded)" "v_len encoded - 16 \<le> b_cap out"
  shows "pbns_boot_config_decode encoded out (Some c) =
     (PBNS_OK, Some \<lparr>normal_boot_option = read_u16_be (drop 6 (v_bytes encoded)),
        recovery_device_path = \<lparr>v_ptr = b_ptr out, v_bytes = drop 16 (v_bytes encoded)\<rparr>\<rparr>,
      drop 16 (v_bytes encoded) @ drop (v_len encoded - 16) (b_mem out))"
proof -
  let ?bs = "v_bytes encoded"
  let ?src = "\<lparr>v_ptr = v_ptr encoded + 16, v_bytes = drop 16 ?bs\<rparr>"
  define mem where "mem = drop 16 ?bs @ drop (v_len encoded - 16) (b_mem out)"
  have len: "16 < length ?bs" "length ?bs \<le> 4112" using assms(5) by (simp_all add: config_accepts_def)
  have "\<not> ranges_overlap (v_ptr ?src) (v_len ?src) (b_ptr out) (length (b_mem out))"
    using assms(4) len by (auto simp: ranges_overlap_def split: if_splits)
  then have copy: "copy_to (b_ptr out) (b_mem out) 0 ?src = mem"
    using assms(6) by (subst copy_to_apart) (simp_all add: mem_def store_at_def)
  have "length mem = b_cap out" using assms(6) len by (simp add: mem_def)
  then have "byte_at (b_ptr out) mem encoded i = ?bs ! i" if "i < 16" for i
    using that assms(4) len by (intro byte_at_apart) simp_all
  then have opt: "read_u16_be [byte_at (b_ptr out) mem encoded 6, byte_at (b_ptr out) mem encoded 7] = read_u16_be (drop 6 ?bs)"
    using len by (simp add: read_u16_be_def)
  show ?thesis
    using assms len unfolding config_accepts_def
    by (simp add: pbns_boot_config_decode_def Let_def boot_constants copy opt encoded_crc_padded, simp add: mem_def)
qed

lemma boot_config_decode_refused:
  assumes "v_ptr encoded \<noteq> 0" "b_ptr out \<noteq> 0" "b_len out = 0"
    and "\<not> (config_accepts (v_bytes encoded) \<and> v_len encoded - 16 \<le> b_cap out)"
  shows "\<exists>st. pbns_boot_config_decode encoded out (Some c) = (st, Some zero_boot_config, b_mem out) \<and> st \<noteq> PBNS_OK"
  using assms unfolding config_accepts_def
  by (auto simp: pbns_boot_config_decode_def Let_def boot_constants encoded_crc_padded)

section \<open>Correctness\<close>

text \<open>C22: decoding a boot configuration accepts exactly the records the encoder writes.  For an input apart
  from the path storage the decoder returns \<open>PBNS_OK\<close> if and only if the input is the canonical record
  of some option and some path of 1 to 4096 bytes that the storage can hold; it then returns that
  option and that path, and otherwise the zero configuration with the storage as it was.
\<close>

theorem boot_config_decode_exact:
  assumes "v_ptr encoded \<noteq> 0" "b_ptr out \<noteq> 0" "b_len out = 0"
    and "\<not> ranges_overlap (v_ptr encoded) (v_len encoded) (b_ptr out) (b_cap out)"
  shows "\<exists>st c' mem. pbns_boot_config_decode encoded out (Some c) = (st, Some c', mem) \<and>
    (st = PBNS_OK \<longleftrightarrow> (\<exists>opt path. v_bytes encoded = config_wire opt path \<and> 0 < length path \<and> length path \<le> 4096 \<and>
       length path \<le> b_cap out)) \<and>
    (st = PBNS_OK \<longrightarrow> v_bytes encoded = config_wire (normal_boot_option c') (v_bytes (recovery_device_path c')) \<and>
       v_ptr (recovery_device_path c') = b_ptr out \<and>
       take (v_len (recovery_device_path c')) mem = v_bytes (recovery_device_path c')) \<and>
    (st \<noteq> PBNS_OK \<longrightarrow> c' = zero_boot_config \<and> mem = b_mem out)"
proof -
  let ?bs = "v_bytes encoded"
  have canonical: "config_accepts ?bs \<and> v_len encoded - 16 \<le> b_cap out \<longleftrightarrow>
      (\<exists>opt path. ?bs = config_wire opt path \<and> 0 < length path \<and> length path \<le> 4096 \<and> length path \<le> b_cap out)"
    (is "?a \<longleftrightarrow> (\<exists>opt path. ?p opt path)")
  proof
    assume ?a
    then have "?p (read_u16_be (drop 6 ?bs)) (drop 16 ?bs)" by (auto simp: config_accepts_iff)
    then show "\<exists>opt path. ?p opt path" by blast
  next
    assume "\<exists>opt path. ?p opt path"
    then obtain opt path where p: "?p opt path" by blast
    then show ?a using config_accepts_wire [of path opt] by (simp add: config_wire_fields del: length_greater_0_conv)
  qed
  show ?thesis
  proof (cases ?a)
    case True
    then have "v_bytes encoded = config_wire (read_u16_be (drop 6 ?bs)) (drop 16 ?bs)" by (simp add: config_accepts_iff)
    then show ?thesis using boot_config_decode_result [OF assms] True canonical by simp
  next
    case False
    then show ?thesis using boot_config_decode_refused [OF assms(1-3) False, of c] canonical by auto
  qed
qed

text \<open>C23: what the configuration encoder writes, the decoder reads back.\<close>

theorem boot_config_roundtrip:
  assumes "config_valid_for c out"
    and "\<not> ranges_overlap (v_ptr (recovery_device_path c)) (v_len (recovery_device_path c)) (b_ptr out) (b_cap out)"
    and "b_ptr store \<noteq> 0" "b_len store = 0" "v_len (recovery_device_path c) \<le> b_cap store"
    and "\<not> ranges_overlap (b_ptr out) (b_cap out) (b_ptr store) (b_cap store)"
  shows "\<exists>mem n. pbns_boot_config_encode (Some c) out (Some w) = (PBNS_OK, mem, Some n) \<and> length mem = b_cap out \<and>
    drop n mem = drop n (b_mem out) \<and>
    (\<exists>kept. pbns_boot_config_decode \<lparr>v_ptr = b_ptr out, v_bytes = take n mem\<rparr> store (Some c0) =
      (PBNS_OK, Some (c\<lparr>recovery_device_path := (recovery_device_path c)\<lparr>v_ptr := b_ptr store\<rparr>\<rparr>),
       v_bytes (recovery_device_path c) @ kept))"
proof -
  let ?path = "v_bytes (recovery_device_path c)"
  let ?wire = "config_wire (normal_boot_option c) ?path"
  let ?v = "\<lparr>v_ptr = b_ptr out, v_bytes = ?wire\<rparr>"
  note wire = config_wire_fields(1,2) [of "normal_boot_option c" ?path] and len = config_wire_fields(3) [of "normal_boot_option c" ?path]
  have apart: "\<not> ranges_overlap (v_ptr ?v) (v_len ?v) (b_ptr store) (b_cap store)"
    using assms(1,6) len by (auto simp: ranges_overlap_def config_valid_for_def split: if_splits)
  have acc: "config_accepts (v_bytes ?v)"
    using assms(1) by (simp add: config_accepts_wire config_valid_for_def del: length_greater_0_conv)
  have "pbns_boot_config_decode ?v store (Some c0) =
      (PBNS_OK, Some (c\<lparr>recovery_device_path := (recovery_device_path c)\<lparr>v_ptr := b_ptr store\<rparr>\<rparr>),
       ?path @ drop (length ?path) (b_mem store))"
    using boot_config_decode_result [OF _ assms(3,4) apart acc] assms(1,5)
    by (simp add: wire len config_valid_for_def)
  then show ?thesis
    using boot_config_encode_wire [OF assms(1,2), of w] assms(1) len by (simp add: config_valid_for_def)
qed

text \<open>C27: the boot failure record.  The decoder returns a failure for a view exactly when the failure has a
  stage and the view holds the 24 bytes the encoder writes for it.
\<close>

theorem boot_failure_roundtrip:
  assumes "v_ptr encoded \<noteq> 0" and "b_ptr out \<noteq> 0" "b_len out = 0" "24 \<le> b_cap out"
  shows "pbns_boot_failure_decode encoded (Some f0) = (PBNS_OK, Some f) \<longleftrightarrow>
    (\<exists>mem. pbns_boot_failure_encode (Some f) out (Some w) = (PBNS_OK, mem, Some 24) \<and> v_bytes encoded = take 24 mem)"
proof -
  let ?bs = "v_bytes encoded"
  have enc: "(\<exists>mem. pbns_boot_failure_encode (Some f) out (Some w) = (PBNS_OK, mem, Some 24) \<and> ?bs = take 24 mem) \<longleftrightarrow>
      fl_stage f \<noteq> 0 \<and> ?bs = failure_wire (fl_stage f) (fl_platform_status f)"
    using boot_failure_encode_wire [OF _ assms(2-4), of f w]
    by (cases "fl_stage f = 0") (auto simp: pbns_boot_failure_encode_def failure_wire_def)
  have fields: "failure_wire st ps ! 5 = st" "read_u64_be (drop 16 (failure_wire st ps)) = ps" "length (failure_wire st ps) = 24" for st ps
    by (simp_all add: failure_wire_def) (simp_all add: failure_body_def boot_failure_magic_def)
  show ?thesis
  proof (cases "length ?bs = 24")
    case True
    define wire where "wire = failure_wire (?bs ! 5) (read_u64_be (drop 16 ?bs))"
    have f: "f = \<lparr>fl_stage = st, fl_platform_status = ps\<rparr> \<longleftrightarrow> fl_stage f = st \<and> fl_platform_status f = ps" for st ps
      by (cases f) auto
    have "pbns_boot_failure_decode encoded (Some f0) = (PBNS_OK, Some f) \<longleftrightarrow>
        ?bs = wire \<and> ?bs ! 5 \<noteq> 0 \<and> fl_stage f = ?bs ! 5 \<and> fl_platform_status f = read_u64_be (drop 16 ?bs)"
      unfolding wire_def failure_accepts_iff [OF True, symmetric] using assms(1) True f
      by (auto simp: pbns_boot_failure_decode_def Let_def boot_constants)
    also have "\<dots> \<longleftrightarrow> fl_stage f \<noteq> 0 \<and> ?bs = failure_wire (fl_stage f) (fl_platform_status f)"
      unfolding wire_def using fields by metis
    finally show ?thesis by (simp only: enc)
  next
    case False
    then have "?bs \<noteq> failure_wire (fl_stage f) (fl_platform_status f)" using fields(3) by metis
    then show ?thesis
      using assms(1) False by (simp add: enc pbns_boot_failure_decode_def boot_constants Let_def)
  qed
qed

section \<open>Witnesses\<close>

definition example_boot_config :: pbns_boot_config where
  "example_boot_config = \<lparr>normal_boot_option = 7, recovery_device_path = \<lparr>v_ptr = 100, v_bytes = [4, 5]\<rparr>\<rparr>"

definition example_record :: pbns_buffer where
  "example_record = \<lparr>b_ptr = 200, b_len = 0, b_mem = replicate 32 0\<rparr>"

definition example_path_store :: pbns_buffer where
  "example_path_store = \<lparr>b_ptr = 300, b_len = 0, b_mem = replicate 4 0\<rparr>"

lemmas boot_examples = example_boot_config_def example_record_def example_path_store_def

theorem boot_config_decode_exact_witness:
  "fst (pbns_boot_config_decode \<lparr>v_ptr = 200, v_bytes = config_wire 7 [4, 5]\<rparr> example_path_store (Some zero_boot_config)) = PBNS_OK"
proof -
  let ?v = "\<lparr>v_ptr = 200, v_bytes = config_wire 7 [4, 5]\<rparr>"
  have "\<exists>opt path. v_bytes ?v = config_wire opt path \<and> 0 < length path \<and> length path \<le> 4096 \<and> length path \<le> b_cap example_path_store"
    by (intro exI [of _ 7] exI [of _ "[4, 5]"]) (simp add: boot_examples)
  moreover have "\<not> ranges_overlap (v_ptr ?v) (v_len ?v) (b_ptr example_path_store) (b_cap example_path_store)"
    by (simp add: boot_examples ranges_overlap_def UINTPTR_MAX_def config_wire_def)
  ultimately show ?thesis
    using boot_config_decode_exact [of ?v example_path_store zero_boot_config] by (auto simp: example_path_store_def)
qed

theorem boot_config_roundtrip_witness:
  "\<exists>mem n. pbns_boot_config_encode (Some example_boot_config) example_record (Some 0) = (PBNS_OK, mem, Some n) \<and>
     fst (pbns_boot_config_decode \<lparr>v_ptr = 200, v_bytes = take n mem\<rparr> example_path_store (Some zero_boot_config)) = PBNS_OK"
  using boot_config_roundtrip [of example_boot_config example_record example_path_store 0 zero_boot_config]
  by (auto simp: boot_examples config_valid_for_def ranges_overlap_def UINTPTR_MAX_def)

theorem boot_failure_roundtrip_witness:
  "\<exists>mem. pbns_boot_failure_encode (Some \<lparr>fl_stage = 3, fl_platform_status = 14\<rparr>) example_record (Some 0) = (PBNS_OK, mem, Some 24) \<and>
     pbns_boot_failure_decode \<lparr>v_ptr = 200, v_bytes = take 24 mem\<rparr> (Some zero_boot_failure) =
       (PBNS_OK, Some \<lparr>fl_stage = 3, fl_platform_status = 14\<rparr>)"
proof -
  let ?f = "\<lparr>fl_stage = 3, fl_platform_status = 14\<rparr>"
  obtain mem where "pbns_boot_failure_encode (Some ?f) example_record (Some 0) = (PBNS_OK, mem, Some 24)"
    using boot_failure_encode_wire [of ?f example_record 0] by (simp add: example_record_def)
  then show ?thesis
    using boot_failure_roundtrip [of "\<lparr>v_ptr = 200, v_bytes = take 24 mem\<rparr>" example_record zero_boot_failure ?f 0]
    by (auto simp: example_record_def)
qed

end
