(* ===== verification/Launcher.thy ===== *)
theory Launcher
  imports Pbns_Prelude
begin

text \<open>
  The boot policy, src/src/core/launcher.c: try the normal target, record its failure, then try the
  recovery target.  The platform callbacks are functions on an environment \<open>'e\<close>; an out-parameter is
  passed in with the value the caller gave it and returned with the value the callback left in it.
  Image handles are addresses, 0 being NULL.  A run is shown to consist of at most one attempt per
  target, with every image that was loaded and did not take over unloaded exactly once.
\<close>

section \<open>Types\<close>

datatype pbns_launcher_target = PBNS_LAUNCHER_TARGET_NORMAL | PBNS_LAUNCHER_TARGET_RECOVERY

datatype pbns_launcher_stage =
    PBNS_LAUNCHER_STAGE_NONE
  | PBNS_LAUNCHER_STAGE_READ_CONFIG
  | PBNS_LAUNCHER_STAGE_VALIDATE_CONFIG
  | PBNS_LAUNCHER_STAGE_LOAD_NORMAL
  | PBNS_LAUNCHER_STAGE_START_NORMAL
  | PBNS_LAUNCHER_STAGE_LOAD_RECOVERY
  | PBNS_LAUNCHER_STAGE_START_RECOVERY

datatype pbns_launcher_outcome =
    PBNS_LAUNCHER_OUTCOME_FAILED
  | PBNS_LAUNCHER_OUTCOME_NORMAL_TRANSFERRED
  | PBNS_LAUNCHER_OUTCOME_RECOVERY_TRANSFERRED

record pbns_launcher_config =
  lc_normal_boot_option :: u16
  lc_recovery_device_path :: pbns_view
  lc_self_reference :: bool

record pbns_launcher_result =
  lr_outcome :: pbns_launcher_outcome
  lr_stage :: pbns_launcher_stage
  lr_original_stage :: pbns_launcher_stage
  lr_original_platform_status :: u64
  lr_recovery_platform_status :: u64

record 'e pbns_launcher_ops =
  op_read_config :: "('e \<Rightarrow> pbns_launcher_config \<Rightarrow> u64 \<Rightarrow> pbns_status \<times> pbns_launcher_config \<times> u64 \<times> 'e) option"
  op_load :: "('e \<Rightarrow> pbns_launcher_target \<Rightarrow> pbns_launcher_config \<Rightarrow> nat \<Rightarrow> u64 \<Rightarrow> pbns_status \<times> nat \<times> u64 \<times> 'e) option"
  op_start :: "('e \<Rightarrow> pbns_launcher_target \<Rightarrow> nat \<Rightarrow> bool \<Rightarrow> u64 \<Rightarrow> pbns_status \<times> bool \<times> u64 \<times> 'e) option"
  op_record_failure :: "('e \<Rightarrow> pbns_launcher_stage \<Rightarrow> u64 \<Rightarrow> 'e) option"
  op_unload :: "('e \<Rightarrow> pbns_launcher_target \<Rightarrow> nat \<Rightarrow> 'e) option"

definition PBNS_LAUNCHER_MAX_DEVICE_PATH_SIZE :: nat where "PBNS_LAUNCHER_MAX_DEVICE_PATH_SIZE = 4096"

definition zero_launcher_config :: pbns_launcher_config where
  "zero_launcher_config = \<lparr>lc_normal_boot_option = 0, lc_recovery_device_path = null_view, lc_self_reference = False\<rparr>"

section \<open>Operations\<close>

definition config_valid :: "pbns_launcher_config \<Rightarrow> bool" where
  "config_valid config \<longleftrightarrow>
     \<not> (lc_self_reference config \<or> v_ptr (lc_recovery_device_path config) = 0 \<or>
        v_len (lc_recovery_device_path config) = 0 \<or>
        v_len (lc_recovery_device_path config) > PBNS_LAUNCHER_MAX_DEVICE_PATH_SIZE)"

definition ops_valid :: "'e pbns_launcher_ops ptr \<Rightarrow> bool" where
  "ops_valid ops \<longleftrightarrow> (case ops of None \<Rightarrow> False | Some ops \<Rightarrow>
     op_read_config ops \<noteq> None \<and> op_load ops \<noteq> None \<and> op_start ops \<noteq> None \<and>
     op_record_failure ops \<noteq> None \<and> op_unload ops \<noteq> None)"

text \<open>
  The body of \<open>pbns_launcher_run\<close> in two parts.  \<open>launcher_normal\<close> is the attempt on the normal target
  (result stage, status, platform status; the status is \<open>PBNS_OK\<close> only if control was transferred) and
  \<open>launcher_recovery\<close> everything from the recorded failure on.
\<close>

definition launcher_normal ::
    "'e pbns_launcher_ops \<Rightarrow> pbns_launcher_config \<Rightarrow> u64 \<Rightarrow> 'e \<Rightarrow> pbns_status \<times> pbns_launcher_stage \<times> u64 \<times> 'e" where
  "launcher_normal ops config unexpected_return_status e =
     (case the (op_load ops) e PBNS_LAUNCHER_TARGET_NORMAL config 0 0 of
        (status, img, platform_status, e) \<Rightarrow>
        let (status, platform_status) =
              (if status = PBNS_OK \<and> img = 0 then (PBNS_ERR_STATE, unexpected_return_status)
               else (status, platform_status));
            e = (if status \<noteq> PBNS_OK \<and> img \<noteq> 0 then the (op_unload ops) e PBNS_LAUNCHER_TARGET_NORMAL img else e)
        in if status \<noteq> PBNS_OK then (status, PBNS_LAUNCHER_STAGE_LOAD_NORMAL, platform_status, e)
           else case the (op_start ops) e PBNS_LAUNCHER_TARGET_NORMAL img True 0 of
             (status, returned, platform_status, e) \<Rightarrow>
             if status = PBNS_OK \<and> \<not> returned then (PBNS_OK, PBNS_LAUNCHER_STAGE_NONE, platform_status, e)
             else
               let e = the (op_unload ops) e PBNS_LAUNCHER_TARGET_NORMAL img in
               if status = PBNS_OK
               then (PBNS_ERR_STATE, PBNS_LAUNCHER_STAGE_START_NORMAL, unexpected_return_status, e)
               else (status, PBNS_LAUNCHER_STAGE_START_NORMAL, platform_status, e))"

definition launcher_recovery ::
    "'e pbns_launcher_ops \<Rightarrow> pbns_launcher_config \<Rightarrow> u64 \<Rightarrow> pbns_status \<Rightarrow> pbns_launcher_result \<Rightarrow> 'e \<Rightarrow>
     pbns_status \<times> pbns_launcher_result \<times> 'e" where
  "launcher_recovery ops config unexpected_return_status original_status result e =
     (let result = result\<lparr>lr_stage := PBNS_LAUNCHER_STAGE_LOAD_RECOVERY\<rparr> in
      case the (op_load ops) e PBNS_LAUNCHER_TARGET_RECOVERY config 0 0 of
        (status, img, platform_status, e) \<Rightarrow>
        let (status, platform_status) =
              (if status = PBNS_OK \<and> img = 0 then (PBNS_ERR_STATE, unexpected_return_status)
               else (status, platform_status));
            e = (if status \<noteq> PBNS_OK \<and> img \<noteq> 0 then the (op_unload ops) e PBNS_LAUNCHER_TARGET_RECOVERY img else e)
        in if status \<noteq> PBNS_OK
           then (original_status, result\<lparr>lr_recovery_platform_status := platform_status\<rparr>, e)
           else
             let result = result\<lparr>lr_stage := PBNS_LAUNCHER_STAGE_START_RECOVERY\<rparr> in
             case the (op_start ops) e PBNS_LAUNCHER_TARGET_RECOVERY img True 0 of
               (status, returned, platform_status, e) \<Rightarrow>
               if status = PBNS_OK \<and> \<not> returned
               then (PBNS_OK, result\<lparr>lr_outcome := PBNS_LAUNCHER_OUTCOME_RECOVERY_TRANSFERRED,
                                     lr_stage := PBNS_LAUNCHER_STAGE_NONE\<rparr>, e)
               else
                 let e = the (op_unload ops) e PBNS_LAUNCHER_TARGET_RECOVERY img;
                     platform_status = (if status = PBNS_OK then unexpected_return_status else platform_status)
                 in (original_status, result\<lparr>lr_recovery_platform_status := platform_status\<rparr>, e))"

definition initial_result :: pbns_launcher_result where
  "initial_result = \<lparr>lr_outcome = PBNS_LAUNCHER_OUTCOME_FAILED, lr_stage = PBNS_LAUNCHER_STAGE_READ_CONFIG,
     lr_original_stage = PBNS_LAUNCHER_STAGE_NONE, lr_original_platform_status = 0, lr_recovery_platform_status = 0\<rparr>"

definition pbns_launcher_run ::
    "'e pbns_launcher_ops ptr \<Rightarrow> nat \<Rightarrow> u64 \<Rightarrow> pbns_launcher_result ptr \<Rightarrow> 'e \<Rightarrow>
     pbns_status \<times> pbns_launcher_result ptr \<times> 'e" where
  "pbns_launcher_run ops context_ptr unexpected_return_status result e =
     (if \<not> ops_valid ops \<or> context_ptr = 0 \<or> result = None then (PBNS_ERR_ARGUMENT, result, e)
      else
        case the (op_read_config (the ops)) e zero_launcher_config 0 of
          (status, config, platform_status, e) \<Rightarrow>
          if status \<noteq> PBNS_OK
          then (status, Some (initial_result\<lparr>lr_original_stage := PBNS_LAUNCHER_STAGE_READ_CONFIG,
                                             lr_original_platform_status := platform_status\<rparr>), e)
          else if \<not> config_valid config
          then (if lc_self_reference config then PBNS_ERR_STATE else PBNS_ERR_FORMAT,
                Some (initial_result\<lparr>lr_stage := PBNS_LAUNCHER_STAGE_VALIDATE_CONFIG,
                                      lr_original_stage := PBNS_LAUNCHER_STAGE_VALIDATE_CONFIG\<rparr>), e)
          else
            case launcher_normal (the ops) config unexpected_return_status e of
              (status, stage, platform_status, e) \<Rightarrow>
              let result = initial_result\<lparr>lr_stage := stage\<rparr> in
              if status = PBNS_OK
              then (PBNS_OK, Some (result\<lparr>lr_outcome := PBNS_LAUNCHER_OUTCOME_NORMAL_TRANSFERRED\<rparr>), e)
              else
                let result = result\<lparr>lr_original_stage := stage, lr_original_platform_status := platform_status\<rparr>;
                    e = the (op_record_failure (the ops)) e stage platform_status
                in case launcher_recovery (the ops) config unexpected_return_status status result e of
                     (status, result, e) \<Rightarrow> (status, Some result, e))"

section \<open>Traces\<close>

text \<open>
  The ghost log of a run: \<open>logged_ops\<close> makes the same calls and appends an event for each of them.
  \<open>attempt t ok st stage evs\<close> says what the events of one attempt on a target look like, when it took
  over (\<open>ok\<close>) and otherwise with which status and at which stage it failed.
\<close>

datatype launcher_event =
    Ev_load pbns_launcher_target nat pbns_status
  | Ev_start pbns_launcher_target nat pbns_status bool
  | Ev_unload pbns_launcher_target nat
  | Ev_record pbns_launcher_stage u64

definition logged_ops :: "'e pbns_launcher_ops \<Rightarrow> ('e \<times> launcher_event list) pbns_launcher_ops" where
  "logged_ops ops = \<lparr>
     op_read_config = map_option (\<lambda>f (e, log) c ps. case f e c ps of (st, c, ps, e) \<Rightarrow> (st, c, ps, e, log)) (op_read_config ops),
     op_load = map_option (\<lambda>f (e, log) t c i ps. case f e t c i ps of
       (st, i, ps, e) \<Rightarrow> (st, i, ps, e, log @ [Ev_load t i st])) (op_load ops),
     op_start = map_option (\<lambda>f (e, log) t i r ps. case f e t i r ps of
       (st, r, ps, e) \<Rightarrow> (st, r, ps, e, log @ [Ev_start t i st r])) (op_start ops),
     op_record_failure = map_option (\<lambda>f (e, log) s ps. (f e s ps, log @ [Ev_record s ps])) (op_record_failure ops),
     op_unload = map_option (\<lambda>f (e, log) t i. (f e t i, log @ [Ev_unload t i])) (op_unload ops)\<rparr>"

fun load_stage :: "pbns_launcher_target \<Rightarrow> pbns_launcher_stage" where
  "load_stage PBNS_LAUNCHER_TARGET_NORMAL = PBNS_LAUNCHER_STAGE_LOAD_NORMAL"
| "load_stage PBNS_LAUNCHER_TARGET_RECOVERY = PBNS_LAUNCHER_STAGE_LOAD_RECOVERY"

fun start_stage :: "pbns_launcher_target \<Rightarrow> pbns_launcher_stage" where
  "start_stage PBNS_LAUNCHER_TARGET_NORMAL = PBNS_LAUNCHER_STAGE_START_NORMAL"
| "start_stage PBNS_LAUNCHER_TARGET_RECOVERY = PBNS_LAUNCHER_STAGE_START_RECOVERY"

inductive attempt :: "pbns_launcher_target \<Rightarrow> bool \<Rightarrow> pbns_status \<Rightarrow> pbns_launcher_stage \<Rightarrow> launcher_event list \<Rightarrow> bool" where
  transferred: "i \<noteq> 0 \<Longrightarrow> attempt t True PBNS_OK PBNS_LAUNCHER_STAGE_NONE [Ev_load t i PBNS_OK, Ev_start t i PBNS_OK False]"
| no_image: "attempt t False PBNS_ERR_STATE (load_stage t) [Ev_load t 0 PBNS_OK]"
| not_loaded: "st \<noteq> PBNS_OK \<Longrightarrow> attempt t False st (load_stage t) [Ev_load t 0 st]"
| load_failed: "i \<noteq> 0 \<Longrightarrow> st \<noteq> PBNS_OK \<Longrightarrow> attempt t False st (load_stage t) [Ev_load t i st, Ev_unload t i]"
| start_failed: "i \<noteq> 0 \<Longrightarrow> st \<noteq> PBNS_OK \<Longrightarrow>
    attempt t False st (start_stage t) [Ev_load t i PBNS_OK, Ev_start t i st r, Ev_unload t i]"
| start_returned: "i \<noteq> 0 \<Longrightarrow>
    attempt t False PBNS_ERR_STATE (start_stage t) [Ev_load t i PBNS_OK, Ev_start t i PBNS_OK True, Ev_unload t i]"

text \<open>
  A whole run: nothing is tried without a valid configuration; the recovery target is tried only after
  a failed attempt on the normal one whose stage and platform status were recorded; the run succeeds
  exactly if one of the attempts took over, and otherwise reports the failure of the normal target.
\<close>

inductive launcher_trace :: "launcher_event list \<Rightarrow> pbns_status \<Rightarrow> pbns_launcher_result \<Rightarrow> bool" where
  no_config: "st \<noteq> PBNS_OK \<Longrightarrow> lr_outcome r = PBNS_LAUNCHER_OUTCOME_FAILED \<Longrightarrow> lr_original_stage r = lr_stage r \<Longrightarrow>
    lr_stage r = PBNS_LAUNCHER_STAGE_READ_CONFIG \<or> lr_stage r = PBNS_LAUNCHER_STAGE_VALIDATE_CONFIG \<Longrightarrow> launcher_trace [] st r"
| normal_taken: "attempt PBNS_LAUNCHER_TARGET_NORMAL True PBNS_OK (lr_stage r) evs \<Longrightarrow>
    lr_outcome r = PBNS_LAUNCHER_OUTCOME_NORMAL_TRANSFERRED \<Longrightarrow> launcher_trace evs PBNS_OK r"
| recovery_taken: "attempt PBNS_LAUNCHER_TARGET_NORMAL False st (lr_original_stage r) ns \<Longrightarrow>
    attempt PBNS_LAUNCHER_TARGET_RECOVERY True PBNS_OK (lr_stage r) rs \<Longrightarrow>
    lr_outcome r = PBNS_LAUNCHER_OUTCOME_RECOVERY_TRANSFERRED \<Longrightarrow>
    launcher_trace (ns @ [Ev_record (lr_original_stage r) (lr_original_platform_status r)] @ rs) PBNS_OK r"
| both_failed: "attempt PBNS_LAUNCHER_TARGET_NORMAL False st (lr_original_stage r) ns \<Longrightarrow>
    attempt PBNS_LAUNCHER_TARGET_RECOVERY False st' (lr_stage r) rs \<Longrightarrow>
    lr_outcome r = PBNS_LAUNCHER_OUTCOME_FAILED \<Longrightarrow>
    launcher_trace (ns @ [Ev_record (lr_original_stage r) (lr_original_platform_status r)] @ rs) st r"

section \<open>Correctness\<close>

lemma attempt_failed_status: "attempt t False st stage evs \<Longrightarrow> st \<noteq> PBNS_OK"
  by (auto elim: attempt.cases)

lemmas normal_attempt = attempt.intros [where t = PBNS_LAUNCHER_TARGET_NORMAL, simplified]
lemmas recovery_attempt = attempt.intros [where t = PBNS_LAUNCHER_TARGET_RECOVERY, simplified]

lemma logged_calls:
  assumes "ops_valid (Some ops)"
  shows "the (op_load ops) e t c i ps = (st, i', ps', e') \<Longrightarrow>
      the (op_load (logged_ops ops)) (e, log) t c i ps = (st, i', ps', e', log @ [Ev_load t i' st])"
    and "the (op_start ops) e t i r ps = (st, r', ps', e') \<Longrightarrow>
      the (op_start (logged_ops ops)) (e, log) t i r ps = (st, r', ps', e', log @ [Ev_start t i st r'])"
    and "the (op_unload (logged_ops ops)) (e, log) t i = (the (op_unload ops) e t i, log @ [Ev_unload t i])"
  using assms by (auto simp: ops_valid_def logged_ops_def)

lemma launcher_run_total:
  assumes "ops_valid (Some ops)" and "context_ptr \<noteq> 0"
  shows "\<exists>st r e'. pbns_launcher_run (Some ops) context_ptr u (Some r0) e = (st, Some r, e')"
  using assms by (auto simp: pbns_launcher_run_def Let_def split: prod.splits)

lemma launcher_normal_logged:
  assumes "ops_valid (Some ops)" and run: "launcher_normal ops config u e = (st, stage, ps, e')"
  shows "\<exists>evs. launcher_normal (logged_ops ops) config u (e, log) = (st, stage, ps, e', log @ evs) \<and>
    attempt PBNS_LAUNCHER_TARGET_NORMAL (st = PBNS_OK) st stage evs"
proof -
  obtain lst i lps e1 where l: "the (op_load ops) e PBNS_LAUNCHER_TARGET_NORMAL config 0 0 = (lst, i, lps, e1)" by (metis prod_cases4)
  obtain sst r sps e2 where s: "the (op_start ops) e1 PBNS_LAUNCHER_TARGET_NORMAL i True 0 = (sst, r, sps, e2)" by (metis prod_cases4)
  note calls = l logged_calls(1) [OF assms(1) l] s logged_calls(2) [OF assms(1) s] logged_calls(3) [OF assms(1)]
  consider "lst = PBNS_OK" "i = 0" | "lst \<noteq> PBNS_OK" "i = 0" | "lst \<noteq> PBNS_OK" "i \<noteq> 0"
    | "lst = PBNS_OK" "i \<noteq> 0" "sst \<noteq> PBNS_OK" | "lst = PBNS_OK" "i \<noteq> 0" "sst = PBNS_OK" "r"
    | "lst = PBNS_OK" "i \<noteq> 0" "sst = PBNS_OK" "\<not> r"
    by blast
  then show ?thesis using run by cases (auto simp: launcher_normal_def calls Let_def intro: normal_attempt)
qed

lemma launcher_recovery_logged:
  assumes "ops_valid (Some ops)" and run: "launcher_recovery ops config u ost r0 e = (st, r, e')" and "ost \<noteq> PBNS_OK"
  shows "\<exists>evs st'. launcher_recovery (logged_ops ops) config u ost r0 (e, log) = (st, r, e', log @ evs) \<and>
    attempt PBNS_LAUNCHER_TARGET_RECOVERY (st = PBNS_OK) st' (lr_stage r) evs \<and> (st \<noteq> PBNS_OK \<longrightarrow> st = ost) \<and>
    lr_outcome r = (if st = PBNS_OK then PBNS_LAUNCHER_OUTCOME_RECOVERY_TRANSFERRED else lr_outcome r0) \<and>
    lr_original_stage r = lr_original_stage r0 \<and> lr_original_platform_status r = lr_original_platform_status r0"
proof -
  obtain lst i lps e1 where l: "the (op_load ops) e PBNS_LAUNCHER_TARGET_RECOVERY config 0 0 = (lst, i, lps, e1)" by (metis prod_cases4)
  obtain sst ret sps e2 where s: "the (op_start ops) e1 PBNS_LAUNCHER_TARGET_RECOVERY i True 0 = (sst, ret, sps, e2)" by (metis prod_cases4)
  note calls = l logged_calls(1) [OF assms(1) l] s logged_calls(2) [OF assms(1) s] logged_calls(3) [OF assms(1)]
  consider "lst = PBNS_OK" "i = 0" | "lst \<noteq> PBNS_OK" "i = 0" | "lst \<noteq> PBNS_OK" "i \<noteq> 0"
    | "lst = PBNS_OK" "i \<noteq> 0" "sst \<noteq> PBNS_OK" | "lst = PBNS_OK" "i \<noteq> 0" "sst = PBNS_OK" "ret"
    | "lst = PBNS_OK" "i \<noteq> 0" "sst = PBNS_OK" "\<not> ret"
    by blast
  then show ?thesis using run assms(3) 
    by cases (auto simp: launcher_recovery_def calls Let_def, (blast intro: recovery_attempt)+)
qed

text \<open>C8: every run of the launcher leaves a trace as described by \<open>launcher_trace\<close>: the recovery target is
  never tried before the failure of the normal one has been recorded, every image
  that was handed out and did not take over is unloaded exactly once, and success is reported exactly
  for a target that took over.
\<close>

theorem launcher_run_trace:
  assumes "ops_valid (Some ops)" and "context_ptr \<noteq> 0"
  shows "\<exists>st r e' evs. pbns_launcher_run (Some ops) context_ptr u (Some r0) e = (st, Some r, e') \<and>
    pbns_launcher_run (Some (logged_ops ops)) context_ptr u (Some r0) (e, log) = (st, Some r, e', log @ evs) \<and>
    launcher_trace evs st r"
proof -
  have ops': "ops_valid (Some (logged_ops ops))" using assms(1) by (auto simp: ops_valid_def logged_ops_def)
  obtain rst config rps e1 where rc: "the (op_read_config ops) e zero_launcher_config 0 = (rst, config, rps, e1)"
    by (metis prod_cases4)
  then have rc': "the (op_read_config (logged_ops ops)) (e, log) zero_launcher_config 0 = (rst, config, rps, e1, log)"
    using assms(1) by (auto simp: ops_valid_def logged_ops_def)
  show ?thesis
  proof (cases "rst = PBNS_OK \<and> config_valid config")
    case False
    then show ?thesis using assms ops'
      by (auto simp: pbns_launcher_run_def rc rc' initial_result_def intro!: no_config)
  next
    case True
    obtain st stage ps e2 where n: "launcher_normal ops config u e1 = (st, stage, ps, e2)" by (metis prod_cases4)
    obtain ns where n': "launcher_normal (logged_ops ops) config u (e1, log) = (st, stage, ps, e2, log @ ns)"
      and a: "attempt PBNS_LAUNCHER_TARGET_NORMAL (st = PBNS_OK) st stage ns"
      using launcher_normal_logged [OF assms(1) n] by blast
    show ?thesis
    proof (cases "st = PBNS_OK")
      case st: True
      then show ?thesis using assms ops' True a
        by (auto simp: pbns_launcher_run_def rc rc' n n' initial_result_def intro!: normal_taken)
    next
      case st: False
      define e3 where "e3 = the (op_record_failure ops) e2 stage ps"
      define r1 where "r1 = initial_result\<lparr>lr_stage := stage, lr_original_stage := stage, lr_original_platform_status := ps\<rparr>"
      have rec: "the (op_record_failure (logged_ops ops)) (e2, log @ ns) stage ps = (e3, log @ ns @ [Ev_record stage ps])"
        using assms(1) by (auto simp: ops_valid_def logged_ops_def e3_def)
      obtain st3 r e4 where r: "launcher_recovery ops config u st r1 e3 = (st3, r, e4)" by (metis prod_cases3)
      obtain rs st' where r': "launcher_recovery (logged_ops ops) config u st r1 (e3, log @ ns @ [Ev_record stage ps]) =
            (st3, r, e4, (log @ ns @ [Ev_record stage ps]) @ rs)"
        and ra: "attempt PBNS_LAUNCHER_TARGET_RECOVERY (st3 = PBNS_OK) st' (lr_stage r) rs" "st3 \<noteq> PBNS_OK \<longrightarrow> st3 = st"
        and rr: "lr_outcome r = (if st3 = PBNS_OK then PBNS_LAUNCHER_OUTCOME_RECOVERY_TRANSFERRED else lr_outcome r1)"
          "lr_original_stage r = lr_original_stage r1" "lr_original_platform_status r = lr_original_platform_status r1"
        using launcher_recovery_logged [OF assms(1) r st, of "log @ ns @ [Ev_record stage ps]"] by blast
      have orig: "lr_original_stage r = stage" "lr_original_platform_status r = ps" "lr_outcome r1 = PBNS_LAUNCHER_OUTCOME_FAILED"
        using rr by (simp_all add: r1_def initial_result_def)
      have "launcher_trace (ns @ [Ev_record stage ps] @ rs) st3 r"
      proof (cases "st3 = PBNS_OK")
        case True
        then have "st' = PBNS_OK" using ra(1) by (auto elim: attempt.cases)
        then show ?thesis using recovery_taken [of st r ns rs] True a st ra(1) rr(1) orig by simp
      next
        case False
        then show ?thesis using both_failed [of st r ns st' rs] a st ra rr(1) orig by simp
      qed
      then show ?thesis using assms ops' True st
        by (simp add: pbns_launcher_run_def rc rc' n n' rec e3_def [symmetric] r1_def [symmetric] r r' Let_def)
    qed
  qed
qed

section \<open>Platforms\<close>

text \<open>
  What the launcher may rely on in a platform whose images never take over: \<open>bad\<close> holds of the platform
  status of every failure, \<open>idle\<close> of the environment before the normal target is loaded, and \<open>inv\<close> is
  kept by every callback.
\<close>

locale launcher_platform =
  fixes ops :: "'e pbns_launcher_ops" and bad :: "u64 \<Rightarrow> bool" and idle :: "'e \<Rightarrow> bool" and inv :: "'e \<Rightarrow> bool"
  assumes ops_given: "ops_valid (Some ops)"
    and idle_inv: "idle e \<Longrightarrow> inv e"
    and read_config_law: "the (op_read_config ops) e c ps = (st, c', ps', e') \<Longrightarrow> idle e \<Longrightarrow> idle e' \<and> (st \<noteq> PBNS_OK \<longrightarrow> bad ps')"
    and load_normal_law: "the (op_load ops) e PBNS_LAUNCHER_TARGET_NORMAL c 0 0 = (st, i, ps, e') \<Longrightarrow> idle e \<Longrightarrow>
      inv e' \<and> (st \<noteq> PBNS_OK \<longrightarrow> bad ps)"
    and load_recovery_law: "the (op_load ops) e PBNS_LAUNCHER_TARGET_RECOVERY c 0 0 = (st, i, ps, e') \<Longrightarrow> inv e \<Longrightarrow> inv e'"
    and start_law: "the (op_start ops) e t i True 0 = (st, r, ps, e') \<Longrightarrow> i \<noteq> 0 \<Longrightarrow> inv e \<Longrightarrow>
      inv e' \<and> r \<and> (st \<noteq> PBNS_OK \<longrightarrow> bad ps)"
    and record_failure_law: "inv e \<Longrightarrow> inv (the (op_record_failure ops) e s ps)"
    and unload_law: "inv e \<Longrightarrow> inv (the (op_unload ops) e t i)"
begin

lemma normal_run:
  assumes "launcher_normal ops config u e = (st, stage, ps, e')" and "idle e" and "bad u"
  shows "inv e' \<and> st \<noteq> PBNS_OK \<and> bad ps"
proof -
  obtain lst i lps e1 where l: "the (op_load ops) e PBNS_LAUNCHER_TARGET_NORMAL config 0 0 = (lst, i, lps, e1)" by (metis prod_cases4)
  obtain sst r sps e2 where s: "the (op_start ops) e1 PBNS_LAUNCHER_TARGET_NORMAL i True 0 = (sst, r, sps, e2)" by (metis prod_cases4)
  note laws = load_normal_law [OF l assms(2)] start_law [OF s]
  show ?thesis using assms(1,3) laws by (auto simp: launcher_normal_def l s Let_def unload_law split: if_splits)
qed

lemma recovery_run:
  assumes "launcher_recovery ops config u ost r0 e = (st, r, e')" and "inv e" and "ost \<noteq> PBNS_OK"
  shows "inv e' \<and> st \<noteq> PBNS_OK \<and> lr_original_platform_status r = lr_original_platform_status r0"
proof -
  obtain lst i lps e1 where l: "the (op_load ops) e PBNS_LAUNCHER_TARGET_RECOVERY config 0 0 = (lst, i, lps, e1)" by (metis prod_cases4)
  obtain sst ret sps e2 where s: "the (op_start ops) e1 PBNS_LAUNCHER_TARGET_RECOVERY i True 0 = (sst, ret, sps, e2)" by (metis prod_cases4)
  note laws = load_recovery_law [OF l assms(2)] start_law [OF s]
  show ?thesis using assms(1,3) laws by (auto simp: launcher_recovery_def l s Let_def unload_law split: if_splits)
qed

lemma run_reports:
  assumes run: "pbns_launcher_run (Some ops) context_ptr u (Some r0) e = (st, Some r, e')" and "context_ptr \<noteq> 0"
    and "idle e" and "bad u"
  shows "inv e' \<and> st \<noteq> PBNS_OK \<and> (lr_original_platform_status r = 0 \<or> bad (lr_original_platform_status r))"
proof -
  obtain rst config rps e1 where rc: "the (op_read_config ops) e zero_launcher_config 0 = (rst, config, rps, e1)" by (metis prod_cases4)
  obtain nst stage ps e2 where n: "launcher_normal ops config u e1 = (nst, stage, ps, e2)" by (metis prod_cases4)
  let ?r1 = "initial_result\<lparr>lr_stage := stage, lr_original_stage := stage, lr_original_platform_status := ps\<rparr>"
  let ?e3 = "the (op_record_failure ops) e2 stage ps"
  obtain st3 r3 e4 where v: "launcher_recovery ops config u nst ?r1 ?e3 = (st3, r3, e4)" by (metis prod_cases3)
  note read_law = read_config_law [OF rc assms(3)]
  note normal = normal_run [OF n conjunct1 [OF read_law] assms(4)]
  note recov = recovery_run [OF v]
  have init: "lr_original_platform_status initial_result = 0" by (simp add: initial_result_def)
  show ?thesis using run assms(2) ops_given read_law normal recov
    by (auto simp: pbns_launcher_run_def rc n v Let_def init idle_inv record_failure_law split: if_splits)
qed

end

section \<open>Witness\<close>

definition example_launcher_ops :: "nat pbns_launcher_ops" where
  "example_launcher_ops = \<lparr>
     op_read_config = Some (\<lambda>e c ps. (PBNS_OK, c\<lparr>lc_recovery_device_path := \<lparr>v_ptr = 64, v_bytes = [4, 5]\<rparr>\<rparr>, ps, e)),
     op_load = Some (\<lambda>e t c i ps. if t = PBNS_LAUNCHER_TARGET_NORMAL then (PBNS_ERR_IO, 9, 14, e) else (PBNS_OK, 8, 0, e)),
     op_start = Some (\<lambda>e t i r ps. (PBNS_OK, False, 0, e)),
     op_record_failure = Some (\<lambda>e s ps. Suc e),
     op_unload = Some (\<lambda>e t i. e)\<rparr>"

theorem launcher_run_trace_witness:
  "\<exists>st r e' evs. pbns_launcher_run (Some example_launcher_ops) 1 21 (Some initial_result) 0 = (st, Some r, e') \<and>
     launcher_trace evs st r \<and> lr_outcome r = PBNS_LAUNCHER_OUTCOME_RECOVERY_TRANSFERRED \<and> e' = 1"
proof -
  have "ops_valid (Some example_launcher_ops)" by (simp add: ops_valid_def example_launcher_ops_def)
  moreover have "pbns_launcher_run (Some example_launcher_ops) 1 21 (Some initial_result) 0 =
      (PBNS_OK, Some \<lparr>lr_outcome = PBNS_LAUNCHER_OUTCOME_RECOVERY_TRANSFERRED, lr_stage = PBNS_LAUNCHER_STAGE_NONE,
         lr_original_stage = PBNS_LAUNCHER_STAGE_LOAD_NORMAL, lr_original_platform_status = 14, lr_recovery_platform_status = 0\<rparr>, 1)"
    by (simp add: pbns_launcher_run_def example_launcher_ops_def ops_valid_def config_valid_def zero_launcher_config_def null_view_def
        initial_result_def launcher_normal_def launcher_recovery_def PBNS_LAUNCHER_MAX_DEVICE_PATH_SIZE_def)
  ultimately show ?thesis
    using launcher_run_trace [of example_launcher_ops 1 21 initial_result 0 "[]"] by auto
qed

end
