(* ===== verification/Uefi_Launcher.thy ===== *)
theory Uefi_Launcher
  imports Boot_Config Launcher
begin

text \<open>
  The UEFI launcher: src/uefi/Library/PbnsBootConfigLib/PbnsBootConfigLib.c and
  src/uefi/Applications/PBNSLauncher/PBNSLauncher.c.  The firmware's boot and runtime services and the
  EDK II library functions are the fields of a record \<open>'e efi\<close> over the firmware state \<open>'e\<close>.  The
  launcher's callbacks act on the pair of that state and the application's context, and are passed to
  the portable \<open>pbns_launcher_run\<close>.  Console output is left out.
\<close>

section \<open>Firmware\<close>

type_synonym efi_status = u64

definition EFI_STATUS_ERROR_BIT :: efi_status where "EFI_STATUS_ERROR_BIT = push_bit 63 1"
definition EFI_SUCCESS :: efi_status where "EFI_SUCCESS = 0"
definition EFI_INVALID_PARAMETER :: efi_status where "EFI_INVALID_PARAMETER = EFI_STATUS_ERROR_BIT OR 2"
definition EFI_UNSUPPORTED :: efi_status where "EFI_UNSUPPORTED = EFI_STATUS_ERROR_BIT OR 3"
definition EFI_BAD_BUFFER_SIZE :: efi_status where "EFI_BAD_BUFFER_SIZE = EFI_STATUS_ERROR_BIT OR 4"
definition EFI_BUFFER_TOO_SMALL :: efi_status where "EFI_BUFFER_TOO_SMALL = EFI_STATUS_ERROR_BIT OR 5"
definition EFI_OUT_OF_RESOURCES :: efi_status where "EFI_OUT_OF_RESOURCES = EFI_STATUS_ERROR_BIT OR 9"
definition EFI_NOT_FOUND :: efi_status where "EFI_NOT_FOUND = EFI_STATUS_ERROR_BIT OR 14"
definition EFI_ACCESS_DENIED :: efi_status where "EFI_ACCESS_DENIED = EFI_STATUS_ERROR_BIT OR 15"
definition EFI_ABORTED :: efi_status where "EFI_ABORTED = EFI_STATUS_ERROR_BIT OR 21"
definition EFI_SECURITY_VIOLATION :: efi_status where "EFI_SECURITY_VIOLATION = EFI_STATUS_ERROR_BIT OR 26"
definition EFI_CRC_ERROR :: efi_status where "EFI_CRC_ERROR = EFI_STATUS_ERROR_BIT OR 27"
definition EFI_COMPROMISED_DATA :: efi_status where "EFI_COMPROMISED_DATA = EFI_STATUS_ERROR_BIT OR 33"

definition EFI_ERROR :: "efi_status \<Rightarrow> bool" where "EFI_ERROR st \<longleftrightarrow> st AND EFI_STATUS_ERROR_BIT \<noteq> 0"

lemmas efi_status_defs = EFI_STATUS_ERROR_BIT_def EFI_SUCCESS_def EFI_INVALID_PARAMETER_def EFI_UNSUPPORTED_def
  EFI_BAD_BUFFER_SIZE_def EFI_BUFFER_TOO_SMALL_def EFI_OUT_OF_RESOURCES_def EFI_NOT_FOUND_def EFI_ACCESS_DENIED_def
  EFI_ABORTED_def EFI_SECURITY_VIOLATION_def EFI_CRC_ERROR_def EFI_COMPROMISED_DATA_def

datatype efi_guid = gPbnsBootConfigGuid | gEfiGlobalVariableGuid

definition EFI_VARIABLE_NON_VOLATILE :: u32 where "EFI_VARIABLE_NON_VOLATILE = 1"
definition EFI_VARIABLE_BOOTSERVICE_ACCESS :: u32 where "EFI_VARIABLE_BOOTSERVICE_ACCESS = 2"
definition EFI_VARIABLE_RUNTIME_ACCESS :: u32 where "EFI_VARIABLE_RUNTIME_ACCESS = 4"

definition PBNS_BOOT_CONFIG_VARIABLE_NAME :: string where "PBNS_BOOT_CONFIG_VARIABLE_NAME = ''PbnsBootConfigV1''"
definition PBNS_BOOT_FAILURE_VARIABLE_NAME :: string where "PBNS_BOOT_FAILURE_VARIABLE_NAME = ''PbnsBootFailureV1''"

text \<open>
  \<open>GetVariable\<close> takes the size of the caller's buffer and returns the status, the attributes, the
  variable's size and the bytes written to the buffer.  A device path is the memory from its pointer
  on.  \<open>SPrintBoot\<close> is the text \<open>UnicodeSPrint\<close> produces for \<open>Boot%04x\<close> and \<open>local_ptr\<close> the address of
  the local record buffer of the boot configuration functions.
\<close>

record 'e efi =
  GetVariable :: "'e \<Rightarrow> string \<Rightarrow> efi_guid \<Rightarrow> nat \<Rightarrow> efi_status \<times> u32 \<times> nat \<times> bytes \<times> 'e"
  SetVariable :: "'e \<Rightarrow> string \<Rightarrow> efi_guid \<Rightarrow> u32 \<Rightarrow> bytes \<Rightarrow> efi_status \<times> 'e"
  LoadImage :: "'e \<Rightarrow> nat \<Rightarrow> bytes \<Rightarrow> efi_status \<times> nat \<times> 'e"
  StartImage :: "'e \<Rightarrow> nat \<Rightarrow> efi_status \<times> 'e"
  UnloadImage :: "'e \<Rightarrow> nat \<Rightarrow> efi_status \<times> 'e"
  HandleProtocol :: "'e \<Rightarrow> nat \<Rightarrow> efi_status \<times> nat \<times> 'e"
  SetLoadOptions :: "'e \<Rightarrow> nat \<Rightarrow> bytes \<Rightarrow> 'e"
  AllocatePool :: "'e \<Rightarrow> nat \<Rightarrow> bytes ptr \<times> 'e"
  FreePool :: "'e \<Rightarrow> 'e"
  IsDevicePathValid :: "bytes \<Rightarrow> nat \<Rightarrow> bool"
  GetDevicePathSize :: "bytes \<Rightarrow> nat"
  SPrintBoot :: "u16 \<Rightarrow> string"
  local_ptr :: nat

text \<open>
  \<open>sized n mem\<close> is a memory of \<open>n\<close> bytes that starts with \<open>mem\<close>.  It gives a view the length its
  caller states; the bytes past the array are never read, as the length is checked first.
\<close>

definition sized :: "nat \<Rightarrow> bytes \<Rightarrow> bytes" where
  "sized n mem = take n (mem @ replicate (n - length mem) 0)"

section \<open>The boot configuration library\<close>

definition PbnsStatusToEfi :: "pbns_status \<Rightarrow> efi_status" where
  "PbnsStatusToEfi st =
     (if st = PBNS_ERR_ARGUMENT then EFI_INVALID_PARAMETER
      else if st = PBNS_ERR_LIMIT then EFI_BAD_BUFFER_SIZE
      else if st = PBNS_ERR_CRC then EFI_CRC_ERROR
      else EFI_COMPROMISED_DATA)"

definition PbnsBootConfigRead ::
    "'e efi ptr \<Rightarrow> pbns_launcher_config ptr \<Rightarrow> pbns_buffer \<Rightarrow> 'e \<Rightarrow>
     efi_status \<times> pbns_launcher_config ptr \<times> bytes \<times> 'e" where
  "PbnsBootConfigRead RuntimeServices Config PathStorage e =
     (if RuntimeServices = None \<or> Config = None \<or> b_ptr PathStorage = 0 \<or> b_cap PathStorage < PBNS_BOOT_CONFIG_PATH_CAP
      then (EFI_INVALID_PARAMETER, Config, b_mem PathStorage, e)
      else
        let F = the RuntimeServices in
        case GetVariable F e PBNS_BOOT_CONFIG_VARIABLE_NAME gPbnsBootConfigGuid PBNS_BOOT_CONFIG_ENCODED_CAP of
          (Status, Attributes, EncodedSize, data, e) \<Rightarrow>
          if EFI_ERROR Status then (Status, Some zero_launcher_config, b_mem PathStorage, e)
          else if Attributes \<noteq> EFI_VARIABLE_NON_VOLATILE OR EFI_VARIABLE_BOOTSERVICE_ACCESS
          then (EFI_COMPROMISED_DATA, Some zero_launcher_config, b_mem PathStorage, e)
          else
            let Encoded = filled (replicate PBNS_BOOT_CONFIG_ENCODED_CAP 0) data in
            case pbns_boot_config_decode \<lparr>v_ptr = local_ptr F, v_bytes = sized EncodedSize Encoded\<rparr>
                   (PathStorage\<lparr>b_len := 0\<rparr>) (Some zero_boot_config) of
              (DecodeStatus, PortableConfig, mem) \<Rightarrow>
              if DecodeStatus \<noteq> PBNS_OK then (PbnsStatusToEfi DecodeStatus, Some zero_launcher_config, mem, e)
              else
                let path = recovery_device_path (the PortableConfig) in
                if \<not> IsDevicePathValid F mem (v_len path) \<or> GetDevicePathSize F mem \<noteq> v_len path
                then (EFI_COMPROMISED_DATA, Some zero_launcher_config, mem, e)
                else
                  let config = \<lparr>lc_normal_boot_option = normal_boot_option (the PortableConfig),
                                lc_recovery_device_path = path, lc_self_reference = False\<rparr> in
                  case GetVariable F e ''BootCurrent'' gEfiGlobalVariableGuid 2 of
                    (Status, _, BootCurrentSize, data, e) \<Rightarrow>
                    if \<not> EFI_ERROR Status \<and> BootCurrentSize = 2
                    then let b = filled [0, 0] data;
                             BootCurrent = (ucast (b ! 0) OR push_bit 8 (ucast (b ! 1)) :: u16)
                         in (EFI_SUCCESS, Some (config\<lparr>lc_self_reference := BootCurrent = lc_normal_boot_option config\<rparr>), mem, e)
                    else if Status \<noteq> EFI_NOT_FOUND then (EFI_COMPROMISED_DATA, Some config, mem, e)
                    else (EFI_SUCCESS, Some config, mem, e))"

text \<open>\<open>RecoveryDevicePath\<close> is the address and the memory of the path; its address is 0 for NULL.\<close>

definition PbnsBootConfigWrite :: "'e efi ptr \<Rightarrow> u16 \<Rightarrow> pbns_view \<Rightarrow> 'e \<Rightarrow> efi_status \<times> 'e" where
  "PbnsBootConfigWrite RuntimeServices NormalBootOption RecoveryDevicePath e =
     (if RuntimeServices = None \<or> v_ptr RecoveryDevicePath = 0 \<or>
         \<not> IsDevicePathValid (the RuntimeServices) (v_bytes RecoveryDevicePath) PBNS_BOOT_CONFIG_PATH_CAP
      then (EFI_INVALID_PARAMETER, e)
      else
        let F = the RuntimeServices; PathSize = GetDevicePathSize F (v_bytes RecoveryDevicePath) in
        if PathSize = 0 \<or> PathSize > PBNS_BOOT_CONFIG_PATH_CAP then (EFI_BAD_BUFFER_SIZE, e)
        else
          let Config = \<lparr>normal_boot_option = NormalBootOption,
                        recovery_device_path = \<lparr>v_ptr = v_ptr RecoveryDevicePath,
                                                v_bytes = sized PathSize (v_bytes RecoveryDevicePath)\<rparr>\<rparr>;
              Encoded = \<lparr>b_ptr = local_ptr F, b_len = 0, b_mem = replicate PBNS_BOOT_CONFIG_ENCODED_CAP 0\<rparr>
          in case pbns_boot_config_encode (Some Config) Encoded (Some 0) of
               (st, mem, Written) \<Rightarrow>
               if st \<noteq> PBNS_OK then (PbnsStatusToEfi st, e)
               else SetVariable F e PBNS_BOOT_CONFIG_VARIABLE_NAME gPbnsBootConfigGuid
                      (EFI_VARIABLE_NON_VOLATILE OR EFI_VARIABLE_BOOTSERVICE_ACCESS) (take (the Written) mem))"

fun stage_code :: "pbns_launcher_stage \<Rightarrow> nat" where
  "stage_code PBNS_LAUNCHER_STAGE_NONE = 0"
| "stage_code PBNS_LAUNCHER_STAGE_READ_CONFIG = 1"
| "stage_code PBNS_LAUNCHER_STAGE_VALIDATE_CONFIG = 2"
| "stage_code PBNS_LAUNCHER_STAGE_LOAD_NORMAL = 3"
| "stage_code PBNS_LAUNCHER_STAGE_START_NORMAL = 4"
| "stage_code PBNS_LAUNCHER_STAGE_LOAD_RECOVERY = 5"
| "stage_code PBNS_LAUNCHER_STAGE_START_RECOVERY = 6"

definition PbnsBootConfigRecordFailure :: "'e efi ptr \<Rightarrow> pbns_launcher_stage \<Rightarrow> efi_status \<Rightarrow> 'e \<Rightarrow> efi_status \<times> 'e" where
  "PbnsBootConfigRecordFailure RuntimeServices Stage FailureStatus e =
     (if RuntimeServices = None \<or> stage_code Stage < stage_code PBNS_LAUNCHER_STAGE_LOAD_NORMAL \<or>
         stage_code Stage > stage_code PBNS_LAUNCHER_STAGE_START_NORMAL
      then (EFI_INVALID_PARAMETER, e)
      else
        let F = the RuntimeServices;
            Failure = \<lparr>fl_stage = of_nat (stage_code Stage), fl_platform_status = FailureStatus\<rparr>;
            Encoded = \<lparr>b_ptr = local_ptr F, b_len = 0, b_mem = replicate PBNS_BOOT_FAILURE_ENCODED_SIZE 0\<rparr>
        in case pbns_boot_failure_encode (Some Failure) Encoded (Some 0) of
             (st, mem, Written) \<Rightarrow>
             if st \<noteq> PBNS_OK then (PbnsStatusToEfi st, e)
             else SetVariable F e PBNS_BOOT_FAILURE_VARIABLE_NAME gPbnsBootConfigGuid
                    EFI_VARIABLE_BOOTSERVICE_ACCESS (take (the Written) mem))"

section \<open>The application\<close>

record launcher_context =
  lx_ImageHandle :: nat
  lx_NormalOption :: "bytes ptr"
  lx_NormalOptionSize :: nat
  lx_Config :: pbns_launcher_config
  lx_RecoveryPath :: pbns_buffer

definition PBNS_LAUNCHER_BOOT_OPTION_CAP :: nat where "PBNS_LAUNCHER_BOOT_OPTION_CAP = 65536"

definition StatusToPbns :: "efi_status \<Rightarrow> pbns_status" where
  "StatusToPbns st =
     (if st = EFI_OUT_OF_RESOURCES then PBNS_ERR_RESOURCE
      else if st = EFI_NOT_FOUND then PBNS_ERR_IO
      else if st = EFI_SECURITY_VIOLATION \<or> st = EFI_ACCESS_DENIED then PBNS_ERR_AUTHENTICATION
      else if st = EFI_UNSUPPORTED then PBNS_ERR_UNSUPPORTED
      else if st = EFI_COMPROMISED_DATA \<or> st = EFI_CRC_ERROR \<or> st = EFI_BAD_BUFFER_SIZE then PBNS_ERR_FORMAT
      else if st = EFI_INVALID_PARAMETER then PBNS_ERR_ARGUMENT
      else PBNS_ERR_IO)"

definition LauncherReadConfig ::
    "'e efi \<Rightarrow> 'e \<times> launcher_context \<Rightarrow> pbns_launcher_config \<Rightarrow> u64 \<Rightarrow>
     pbns_status \<times> pbns_launcher_config \<times> u64 \<times> 'e \<times> launcher_context" where
  "LauncherReadConfig F = (\<lambda>(e, lx) config platform_status.
     case PbnsBootConfigRead (Some F) (Some (lx_Config lx)) (lx_RecoveryPath lx) e of
       (Status, c, mem, e) \<Rightarrow>
       let lx = lx\<lparr>lx_Config := the c, lx_RecoveryPath := (lx_RecoveryPath lx)\<lparr>b_mem := mem\<rparr>\<rparr> in
       if EFI_ERROR Status then (StatusToPbns Status, config, Status, e, lx)
       else (PBNS_OK, lx_Config lx, Status, e, lx))"

definition ReadNormalBootOption :: "'e efi \<Rightarrow> 'e \<times> launcher_context \<Rightarrow> efi_status \<times> 'e \<times> launcher_context" where
  "ReadNormalBootOption F = (\<lambda>(e, lx).
     let VariableName = take 8 (SPrintBoot F (lc_normal_boot_option (lx_Config lx))) in
     if length VariableName \<noteq> 8 then (EFI_COMPROMISED_DATA, e, lx)
     else
       case GetVariable F e VariableName gEfiGlobalVariableGuid 0 of
         (Status, _, VariableSize, _, e) \<Rightarrow>
         if Status \<noteq> EFI_BUFFER_TOO_SMALL then (Status, e, lx)
         else if VariableSize < 8 \<or> VariableSize > PBNS_LAUNCHER_BOOT_OPTION_CAP then (EFI_BAD_BUFFER_SIZE, e, lx)
         else
           case AllocatePool F e VariableSize of
             (None, e) \<Rightarrow> (EFI_OUT_OF_RESOURCES, e, lx\<lparr>lx_NormalOption := None\<rparr>)
           | (Some pool, e) \<Rightarrow>
             let lx = lx\<lparr>lx_NormalOption := Some (sized VariableSize pool), lx_NormalOptionSize := VariableSize\<rparr>;
                 freed = lx\<lparr>lx_NormalOption := None, lx_NormalOptionSize := 0\<rparr>
             in case GetVariable F e VariableName gEfiGlobalVariableGuid VariableSize of
                  (Status, VariableAttributes, VariableSize, data, e) \<Rightarrow>
                  if EFI_ERROR Status then (Status, FreePool F e, freed)
                  else if VariableSize \<noteq> lx_NormalOptionSize lx \<or>
                          VariableAttributes \<noteq> EFI_VARIABLE_NON_VOLATILE OR EFI_VARIABLE_BOOTSERVICE_ACCESS OR EFI_VARIABLE_RUNTIME_ACCESS
                  then (EFI_COMPROMISED_DATA, FreePool F e, freed)
                  else (EFI_SUCCESS, e, lx\<lparr>lx_NormalOption := Some (filled (the (lx_NormalOption lx)) data)\<rparr>))"

text \<open>The scan for the end of the description: a null CHAR16 at an even distance from the start.\<close>

function description_end :: "bytes \<Rightarrow> nat \<Rightarrow> nat \<Rightarrow> nat" where
  "description_end Encoded EncodedSize i =
     (if i + 2 \<le> EncodedSize \<and> \<not> (Encoded ! i = 0 \<and> Encoded ! (i + 1) = 0)
      then description_end Encoded EncodedSize (i + 2) else i)"
  by auto
termination by (relation "measure (\<lambda>(bs, n, i). n - i)") auto

declare description_end.simps [simp del]

definition ParseNormalBootOption :: "'e efi \<Rightarrow> launcher_context \<Rightarrow> efi_status + bytes \<times> bytes" where
  "ParseNormalBootOption F lx =
     (if lx_NormalOption lx = None then Inl EFI_INVALID_PARAMETER
      else
        let Encoded = the (lx_NormalOption lx);
            EncodedSize = lx_NormalOptionSize lx;
            FilePathSize = unat (ucast (Encoded ! 4) OR push_bit 8 (ucast (Encoded ! 5)) :: u16);
            DescriptionOffset = description_end Encoded EncodedSize 6
        in if DescriptionOffset + 2 > EncodedSize then Inl EFI_COMPROMISED_DATA
           else
             let PathOffset = DescriptionOffset + 2 in
             if FilePathSize = 0 \<or> PathOffset > EncodedSize \<or> FilePathSize > EncodedSize - PathOffset
             then Inl EFI_COMPROMISED_DATA
             else
               let DevicePath = drop PathOffset Encoded in
               if \<not> IsDevicePathValid F DevicePath FilePathSize \<or> GetDevicePathSize F DevicePath \<noteq> FilePathSize
               then Inl EFI_COMPROMISED_DATA
               else
                 let PathOffset = PathOffset + FilePathSize in
                 if EncodedSize - PathOffset > 0xffffffff then Inl EFI_BAD_BUFFER_SIZE
                 else Inr (DevicePath, drop PathOffset Encoded))"

definition ReleaseNormalOption :: "'e efi \<Rightarrow> 'e \<times> launcher_context \<Rightarrow> 'e \<times> launcher_context" where
  "ReleaseNormalOption F = (\<lambda>(e, lx).
     if lx_NormalOption lx \<noteq> None then (FreePool F e, lx\<lparr>lx_NormalOption := None, lx_NormalOptionSize := 0\<rparr>) else (e, lx))"

definition LauncherLoad ::
    "'e efi \<Rightarrow> 'e \<times> launcher_context \<Rightarrow> pbns_launcher_target \<Rightarrow> pbns_launcher_config \<Rightarrow> nat \<Rightarrow> u64 \<Rightarrow>
     pbns_status \<times> nat \<times> u64 \<times> 'e \<times> launcher_context" where
  "LauncherLoad F = (\<lambda>s Target config img platform_status.
     let (found, s) =
           (case Target of
              PBNS_LAUNCHER_TARGET_NORMAL \<Rightarrow>
                (case ReadNormalBootOption F s of (Status, e, lx) \<Rightarrow>
                   (if EFI_ERROR Status then Inl Status else ParseNormalBootOption F lx, e, lx))
            | PBNS_LAUNCHER_TARGET_RECOVERY \<Rightarrow> (Inr (b_mem (lx_RecoveryPath (snd s)), []), s))
     in case found of
          Inl Status \<Rightarrow> (case ReleaseNormalOption F s of s \<Rightarrow> (StatusToPbns Status, 0, Status, s))
        | Inr (DevicePath, OptionalData) \<Rightarrow>
          (case LoadImage F (fst s) (lx_ImageHandle (snd s)) DevicePath of
             (Status, img, e) \<Rightarrow>
             if EFI_ERROR Status
             then (case ReleaseNormalOption F (e, snd s) of s \<Rightarrow> (StatusToPbns Status, img, Status, s))
             else if Target = PBNS_LAUNCHER_TARGET_NORMAL
             then (case HandleProtocol F e img of
                     (Status, LoadedImage, e) \<Rightarrow>
                     if EFI_ERROR Status \<or> LoadedImage = 0
                     then let e = snd (UnloadImage F e img);
                              Status = (if EFI_ERROR Status then Status else EFI_COMPROMISED_DATA)
                          in case ReleaseNormalOption F (e, snd s) of s \<Rightarrow> (StatusToPbns Status, 0, Status, s)
                     else (PBNS_OK, img, EFI_SUCCESS, SetLoadOptions F e LoadedImage OptionalData, snd s))
             else (PBNS_OK, img, EFI_SUCCESS, e, snd s)))"

definition LauncherStart ::
    "'e efi \<Rightarrow> 'e \<times> launcher_context \<Rightarrow> pbns_launcher_target \<Rightarrow> nat \<Rightarrow> bool \<Rightarrow> u64 \<Rightarrow>
     pbns_status \<times> bool \<times> u64 \<times> 'e \<times> launcher_context" where
  "LauncherStart F = (\<lambda>(e, lx) Target img returned platform_status.
     if img = 0 then (PBNS_ERR_ARGUMENT, returned, platform_status, e, lx)
     else case StartImage F e img of
       (Status, e) \<Rightarrow> (if EFI_ERROR Status then StatusToPbns Status else PBNS_OK, True, Status, e, lx))"

definition LauncherRecordFailure :: "'e efi \<Rightarrow> 'e \<times> launcher_context \<Rightarrow> pbns_launcher_stage \<Rightarrow> u64 \<Rightarrow> 'e \<times> launcher_context" where
  "LauncherRecordFailure F = (\<lambda>(e, lx) Stage platform_status.
     (snd (PbnsBootConfigRecordFailure (Some F) Stage platform_status e), lx))"

definition LauncherUnload :: "'e efi \<Rightarrow> 'e \<times> launcher_context \<Rightarrow> pbns_launcher_target \<Rightarrow> nat \<Rightarrow> 'e \<times> launcher_context" where
  "LauncherUnload F = (\<lambda>(e, lx) Target img.
     let e = (if img \<noteq> 0 then snd (UnloadImage F e img) else e) in
     if Target = PBNS_LAUNCHER_TARGET_NORMAL then ReleaseNormalOption F (e, lx) else (e, lx))"

definition mLauncherOps :: "'e efi \<Rightarrow> ('e \<times> launcher_context) pbns_launcher_ops" where
  "mLauncherOps F = \<lparr>op_read_config = Some (LauncherReadConfig F), op_load = Some (LauncherLoad F),
     op_start = Some (LauncherStart F), op_record_failure = Some (LauncherRecordFailure F),
     op_unload = Some (LauncherUnload F)\<rparr>"

text \<open>\<open>context_ptr\<close> and \<open>path_ptr\<close> are the addresses of the local context and of the path array in it.\<close>

definition UefiMain :: "nat \<Rightarrow> nat \<Rightarrow> nat \<Rightarrow> 'e efi ptr \<Rightarrow> 'e \<Rightarrow> efi_status \<times> 'e \<times> launcher_context ptr" where
  "UefiMain context_ptr path_ptr ImageHandle SystemTable e =
     (case SystemTable of
        None \<Rightarrow> (EFI_INVALID_PARAMETER, e, None)
      | Some F \<Rightarrow>
        let lx = \<lparr>lx_ImageHandle = ImageHandle, lx_NormalOption = None, lx_NormalOptionSize = 0,
                  lx_Config = zero_launcher_config,
                  lx_RecoveryPath = \<lparr>b_ptr = path_ptr, b_len = 0, b_mem = replicate PBNS_BOOT_CONFIG_PATH_CAP 0\<rparr>\<rparr>
        in case pbns_launcher_run (Some (mLauncherOps F)) context_ptr EFI_ABORTED
                  (Some (initial_result\<lparr>lr_stage := PBNS_LAUNCHER_STAGE_NONE\<rparr>)) (e, lx) of
             (Status, Result, s) \<Rightarrow>
             case ReleaseNormalOption F s of (e, lx) \<Rightarrow>
             if Status = PBNS_OK \<or> lr_original_platform_status (the Result) = 0 then (EFI_ABORTED, e, Some lx)
             else (lr_original_platform_status (the Result), e, Some lx))"

section \<open>Status values\<close>

lemma efi_errors [simp]:
  "EFI_ERROR EFI_INVALID_PARAMETER" "EFI_ERROR EFI_UNSUPPORTED" "EFI_ERROR EFI_BAD_BUFFER_SIZE" "EFI_ERROR EFI_BUFFER_TOO_SMALL"
  "EFI_ERROR EFI_OUT_OF_RESOURCES" "EFI_ERROR EFI_NOT_FOUND" "EFI_ERROR EFI_ABORTED" "EFI_ERROR EFI_CRC_ERROR"
  "EFI_ERROR EFI_COMPROMISED_DATA" "EFI_ERROR EFI_ACCESS_DENIED" "EFI_ERROR EFI_SECURITY_VIOLATION" "\<not> EFI_ERROR EFI_SUCCESS"
  by (simp_all add: EFI_ERROR_def efi_status_defs)

lemma StatusToPbns_error [simp]: "StatusToPbns st \<noteq> PBNS_OK"
  by (simp add: StatusToPbns_def)

lemma PbnsStatusToEfi_error [simp]: "EFI_ERROR (PbnsStatusToEfi st)"
  by (simp add: PbnsStatusToEfi_def)

lemma ParseNormalBootOption_error: "ParseNormalBootOption F lx = Inl st \<Longrightarrow> EFI_ERROR st"
  by (auto simp: ParseNormalBootOption_def Let_def split: if_splits)

section \<open>Pool memory\<close>

text \<open>
  \<open>pool_accounting F pools\<close>: the pool services count the caller's allocations, \<open>pools\<close>, up and down,
  and no other service changes that number.
\<close>

definition pool_accounting :: "'e efi \<Rightarrow> ('e \<Rightarrow> int) \<Rightarrow> bool" where
  "pool_accounting F pools \<longleftrightarrow>
     (\<forall>e name g cap st a n bs e'. GetVariable F e name g cap = (st, a, n, bs, e') \<longrightarrow> pools e' = pools e) \<and>
     (\<forall>e name g a bs. pools (snd (SetVariable F e name g a bs)) = pools e) \<and>
     (\<forall>e h p st i e'. LoadImage F e h p = (st, i, e') \<longrightarrow> pools e' = pools e) \<and>
     (\<forall>e i st e'. StartImage F e i = (st, e') \<longrightarrow> pools e' = pools e) \<and>
     (\<forall>e i. pools (snd (UnloadImage F e i)) = pools e) \<and>
     (\<forall>e i st p e'. HandleProtocol F e i = (st, p, e') \<longrightarrow> pools e' = pools e) \<and>
     (\<forall>e p bs. pools (SetLoadOptions F e p bs) = pools e) \<and>
     (\<forall>e n mem e'. AllocatePool F e n = (mem, e') \<longrightarrow> pools e' = (if mem = None then pools e else pools e + 1)) \<and>
     (\<forall>e. pools (FreePool F e) = pools e - 1)"

text \<open>The balance the application keeps: it owns one pool exactly while it holds a boot option.\<close>

definition option_pools :: "launcher_context \<Rightarrow> int" where
  "option_pools lx = (if lx_NormalOption lx = None then 0 else 1)"

definition balanced :: "('e \<Rightarrow> int) \<Rightarrow> int \<Rightarrow> 'e \<times> launcher_context \<Rightarrow> bool" where
  "balanced pools n = (\<lambda>(e, lx). pools e = n + option_pools lx)"

definition idle_context :: "('e \<Rightarrow> int) \<Rightarrow> int \<Rightarrow> 'e \<times> launcher_context \<Rightarrow> bool" where
  "idle_context pools n = (\<lambda>(e, lx). pools e = n \<and> lx_NormalOption lx = None)"

lemma pool_rules:
  assumes "pool_accounting F pools"
  shows "GetVariable F e name g cap = (st, a, n, bs, e') \<Longrightarrow> pools e' = pools e"
    and "pools (snd (SetVariable F e name g a bs)) = pools e"
    and "LoadImage F e h p = (st, i, e') \<Longrightarrow> pools e' = pools e"
    and "StartImage F e i = (st, e') \<Longrightarrow> pools e' = pools e"
    and "pools (snd (UnloadImage F e i)) = pools e"
    and "HandleProtocol F e i = (st, j, e') \<Longrightarrow> pools e' = pools e"
    and "pools (SetLoadOptions F e j bs) = pools e"
    and "AllocatePool F e n = (None, e') \<Longrightarrow> pools e' = pools e"
    and "AllocatePool F e n = (Some mem, e') \<Longrightarrow> pools e' = pools e + 1"
    and "pools (FreePool F e) = pools e - 1"
  using assms unfolding pool_accounting_def by (blast | metis option.distinct(1))+

lemma release_balanced:
  assumes "pool_accounting F pools" and "balanced pools n s" and "ReleaseNormalOption F s = (e', lx')"
  shows "pools e' = n" "lx_NormalOption lx' = None"
  using assms pool_rules(10) [OF assms(1)]
  by (auto simp: ReleaseNormalOption_def balanced_def option_pools_def split: if_splits prod.splits)

lemma release_keeps:
  assumes "pool_accounting F pools" and "balanced pools n s"
  shows "balanced pools n (ReleaseNormalOption F s)"
proof -
  obtain e' lx' where r: "ReleaseNormalOption F s = (e', lx')" by fastforce
  show ?thesis using release_balanced [OF assms r] by (simp add: r balanced_def option_pools_def)
qed

lemma read_config_balanced:
  assumes "LauncherReadConfig F s c ps = (st, c', ps', s')" and "pool_accounting F pools" and "idle_context pools n s"
  shows "idle_context pools n s' \<and> (st \<noteq> PBNS_OK \<longrightarrow> EFI_ERROR ps')"
proof -
  obtain e lx where s: "s = (e, lx)" by fastforce
  obtain est c1 mem e1 where r: "PbnsBootConfigRead (Some F) (Some (lx_Config lx)) (lx_RecoveryPath lx) e = (est, c1, mem, e1)"
    by (metis prod_cases4)
  have "pools e1 = pools e"
    using r by (auto simp: PbnsBootConfigRead_def Let_def dest!: pool_rules(1) [OF assms(2)] split: if_splits prod.splits)
  then show ?thesis using assms(1,3) by (auto simp: LauncherReadConfig_def s r idle_context_def Let_def split: if_splits)
qed

lemma read_option_balanced:
  assumes "ReadNormalBootOption F s = (st, s')" and "pool_accounting F pools" and "idle_context pools n s"
  shows "balanced pools n s'"
  using assms(1,3) pool_rules(10) [OF assms(2)]
  by (auto simp: ReadNormalBootOption_def idle_context_def balanced_def option_pools_def Let_def
      dest!: pool_rules(1,8,9) [OF assms(2)] split: if_splits prod.splits option.splits)

lemma balanced_step: "balanced pools n (e, lx) \<Longrightarrow> pools e' = pools e \<Longrightarrow> balanced pools n (e', lx)"
  by (simp add: balanced_def)

lemma load_normal_balanced:
  assumes "LauncherLoad F s PBNS_LAUNCHER_TARGET_NORMAL c 0 0 = (st, i, ps, s')" and acc: "pool_accounting F pools"
    and "idle_context pools n s"
  shows "balanced pools n s' \<and> (st \<noteq> PBNS_OK \<longrightarrow> EFI_ERROR ps)"
proof -
  obtain rst e1 lx where r: "ReadNormalBootOption F s = (rst, e1, lx)" by (metis prod_cases3)
  have b: "balanced pools n (e1, lx)" using read_option_balanced [OF r acc assms(3)] .
  consider (read) "EFI_ERROR rst" | (parse) pst where "\<not> EFI_ERROR rst" "ParseNormalBootOption F lx = Inl pst"
    | (found) p opt where "\<not> EFI_ERROR rst" "ParseNormalBootOption F lx = Inr (p, opt)"
    by (cases "ParseNormalBootOption F lx") auto
  then show ?thesis
  proof cases
    case found
    obtain lst img e2 where l: "LoadImage F e1 (lx_ImageHandle lx) p = (lst, img, e2)" by (metis prod_cases3)
    obtain hst li e3 where h: "HandleProtocol F e2 img = (hst, li, e3)" by (metis prod_cases3)
    have "pools e2 = pools e1" "pools e3 = pools e1" using pool_rules(3) [OF acc l] pool_rules(6) [OF acc h] by simp_all
    then have "balanced pools n (e2, lx)" "balanced pools n (snd (UnloadImage F e3 img), lx)"
      "balanced pools n (SetLoadOptions F e3 li opt, lx)"
      using b by (auto intro!: balanced_step [OF b] simp: pool_rules(5,7) [OF acc])
    then show ?thesis using assms(1) found release_keeps [OF acc]
      by (auto simp: LauncherLoad_def r l h Let_def split: if_splits)
  qed (use assms(1) release_keeps [OF acc b] in \<open>auto simp: LauncherLoad_def r Let_def dest: ParseNormalBootOption_error\<close>)
qed

lemma load_recovery_balanced:
  assumes "LauncherLoad F s PBNS_LAUNCHER_TARGET_RECOVERY c 0 0 = (st, i, ps, s')" and acc: "pool_accounting F pools"
    and b: "balanced pools n s"
  shows "balanced pools n s'"
proof -
  obtain e lx where s: "s = (e, lx)" by fastforce
  obtain lst img e2 where l: "LoadImage F e (lx_ImageHandle lx) (b_mem (lx_RecoveryPath lx)) = (lst, img, e2)" by (metis prod_cases3)
  have "balanced pools n (e2, lx)" using b pool_rules(3) [OF acc l] by (auto simp: s intro: balanced_step)
  then show ?thesis using assms(1) release_keeps [OF acc] by (auto simp: LauncherLoad_def s l Let_def split: if_splits)
qed

lemma start_balanced:
  assumes "LauncherStart F s t i True 0 = (st, r, ps, s')" and acc: "pool_accounting F pools" and "balanced pools n s" and "i \<noteq> 0"
  shows "balanced pools n s' \<and> r \<and> (st \<noteq> PBNS_OK \<longrightarrow> EFI_ERROR ps)"
  using assms(1,3,4) by (auto simp: LauncherStart_def balanced_def dest!: pool_rules(4) [OF acc] split: prod.splits if_splits)

lemma record_failure_balanced:
  assumes acc: "pool_accounting F pools" and "balanced pools n s"
  shows "balanced pools n (LauncherRecordFailure F s stage ps)"
proof -
  have "pools (snd (PbnsBootConfigRecordFailure (Some F) stage ps e)) = pools e" for e
    by (auto simp: PbnsBootConfigRecordFailure_def Let_def pool_rules(2) [OF acc] split: prod.splits)
  then show ?thesis using assms(2) by (auto simp: LauncherRecordFailure_def balanced_def split: prod.splits)
qed

lemma unload_balanced:
  assumes acc: "pool_accounting F pools" and "balanced pools n s"
  shows "balanced pools n (LauncherUnload F s t i)"
proof -
  obtain e lx where s: "s = (e, lx)" by fastforce
  have "balanced pools n (if i \<noteq> 0 then snd (UnloadImage F e i) else e, lx)"
    using assms(2) by (auto simp: s balanced_def pool_rules(5) [OF acc])
  then show ?thesis using release_keeps [OF acc] by (auto simp: LauncherUnload_def s Let_def)
qed

lemma uefi_ops_valid: "ops_valid (Some (mLauncherOps F))"
  by (simp add: ops_valid_def mLauncherOps_def)

lemma launcher_errors:
  shows "LauncherReadConfig F s c ps = (st, c', ps', s') \<Longrightarrow> st \<noteq> PBNS_OK \<Longrightarrow> EFI_ERROR ps'"
    and "LauncherLoad F s PBNS_LAUNCHER_TARGET_NORMAL c 0 0 = (st, i, ps', s') \<Longrightarrow> st \<noteq> PBNS_OK \<Longrightarrow> EFI_ERROR ps'"
    and "LauncherStart F s t j True 0 = (st, r, ps', s') \<Longrightarrow> j \<noteq> 0 \<Longrightarrow> r \<and> (st \<noteq> PBNS_OK \<longrightarrow> EFI_ERROR ps')"
  by (auto simp: LauncherReadConfig_def LauncherLoad_def LauncherStart_def Let_def
      dest: ParseNormalBootOption_error split: prod.splits sum.splits if_splits)

lemma idle_balanced: "idle_context pools n s \<Longrightarrow> balanced pools n s"
  by (auto simp: idle_context_def balanced_def option_pools_def)

interpretation uefi_ops: launcher_platform "mLauncherOps F" EFI_ERROR
    "\<lambda>s. pool_accounting F pools \<longrightarrow> idle_context pools n s" "\<lambda>s. pool_accounting F pools \<longrightarrow> balanced pools n s" for F pools n
proof unfold_locales
  show "ops_valid (Some (mLauncherOps F))" by (rule uefi_ops_valid)
qed (auto simp: mLauncherOps_def
    dest: launcher_errors read_config_balanced load_normal_balanced load_recovery_balanced start_balanced
    intro: idle_balanced record_failure_balanced unload_balanced)

text \<open>C9: the launcher application returns to the firmware only with an error status, with every pool it
  allocated freed again, whatever the firmware services return.
\<close>

theorem uefi_main_returns_error:
  assumes "pool_accounting F pools" and "context_ptr \<noteq> 0"
  shows "\<exists>st e' lx. UefiMain context_ptr path_ptr h (Some F) e = (st, e', Some lx) \<and> EFI_ERROR st \<and>
    pools e' = pools e \<and> lx_NormalOption lx = None"
proof -
  define lx where "lx = \<lparr>lx_ImageHandle = h, lx_NormalOption = None, lx_NormalOptionSize = 0, lx_Config = zero_launcher_config,
    lx_RecoveryPath = \<lparr>b_ptr = path_ptr, b_len = 0, b_mem = replicate PBNS_BOOT_CONFIG_PATH_CAP 0\<rparr>\<rparr>"
  let ?r0 = "initial_result\<lparr>lr_stage := PBNS_LAUNCHER_STAGE_NONE\<rparr>"
  obtain st r s where run: "pbns_launcher_run (Some (mLauncherOps F)) context_ptr EFI_ABORTED (Some ?r0) (e, lx) = (st, Some r, s)"
    using launcher_run_total [OF uefi_ops_valid assms(2)] by blast
  have "idle_context pools (pools e) (e, lx)" by (simp add: idle_context_def lx_def)
  then have fin: "balanced pools (pools e) s" "st \<noteq> PBNS_OK"
      "lr_original_platform_status r = 0 \<or> EFI_ERROR (lr_original_platform_status r)"
    using uefi_ops.run_reports [OF run assms(2), where pools = pools and n = "pools e"] assms(1) by simp_all
  obtain e' lx' where rel: "ReleaseNormalOption F s = (e', lx')" by fastforce
  show ?thesis
    using release_balanced [OF assms(1) fin(1) rel] fin
    by (auto simp: UefiMain_def lx_def [symmetric] run rel Let_def)
qed

section \<open>Boot options\<close>

text \<open>
  The layout of an \<open>EFI_LOAD_OPTION\<close>: attributes, the size of the path (little endian), a description
  of CHAR16 units up to the first null unit, the path and the optional data.
\<close>

definition load_option :: "bytes \<Rightarrow> bytes \<Rightarrow> bytes \<Rightarrow> bytes \<Rightarrow> bytes \<Rightarrow> bool" where
  "load_option bs attr desc path opt \<longleftrightarrow>
     bs = attr @ rev (write_u16_be (of_nat (length path))) @ desc @ [0, 0] @ path @ opt \<and> length attr = 4 \<and>
     0 < length path \<and> length path < 65536 \<and> even (length desc) \<and>
     (\<forall>k. 2 * k < length desc \<longrightarrow> \<not> (desc ! (2 * k) = 0 \<and> desc ! (2 * k + 1) = 0))"

lemma description_end_spec:
  "let j = description_end bs n i in i \<le> j \<and> even (j - i) \<and> (i \<le> n \<longrightarrow> j \<le> n) \<and>
     (\<forall>k. i + 2 * k < j \<longrightarrow> \<not> (bs ! (i + 2 * k) = 0 \<and> bs ! (i + 2 * k + 1) = 0)) \<and>
     (j + 2 \<le> n \<longrightarrow> bs ! j = 0 \<and> bs ! (j + 1) = 0)"
proof (induction bs n i rule: description_end.induct)
  case (1 bs n i)
  show ?case
  proof (cases "i + 2 \<le> n \<and> \<not> (bs ! i = 0 \<and> bs ! (i + 1) = 0)")
    case True
    define j where "j = description_end bs n (i + 2)"
    have ih: "i + 2 \<le> j" "even (j - (i + 2))" "j \<le> n" "j + 2 \<le> n \<longrightarrow> bs ! j = 0 \<and> bs ! (j + 1) = 0"
      "\<And>k. i + 2 + 2 * k < j \<Longrightarrow> \<not> (bs ! (i + 2 + 2 * k) = 0 \<and> bs ! (i + 2 + 2 * k + 1) = 0)"
      using "1.IH" [OF True] True by (auto simp: j_def Let_def)
    have "\<not> (bs ! (i + 2 * k) = 0 \<and> bs ! (i + 2 * k + 1) = 0)" if "i + 2 * k < j" for k
      using that ih(5) [of "k - 1"] True by (cases k) auto
    moreover have "j - i = j - (i + 2) + 2" using ih(1) by simp
    moreover have "description_end bs n i = j" using True by (simp add: description_end.simps [of bs n i] j_def)
    ultimately show ?thesis using ih(1-4) by (simp add: Let_def)
  next
    case False
    then have "description_end bs n i = i" by (subst description_end.simps) (simp only: if_False)
    then show ?thesis using False by (simp add: Let_def)
  qed
qed

lemma description_end_eq:
  assumes "\<And>k. k < m \<Longrightarrow> \<not> (bs ! (i + 2 * k) = 0 \<and> bs ! (i + 2 * k + 1) = 0)" and "i + 2 * m + 2 \<le> n"
    and "bs ! (i + 2 * m) = 0" "bs ! (i + 2 * m + 1) = 0"
  shows "description_end bs n i = i + 2 * m"
  using assms
proof (induction m arbitrary: i)
  case 0
  then show ?case by (subst description_end.simps) simp
next
  case (Suc m)
  have "description_end bs n i = description_end bs n (i + 2)"
    using Suc.prems(1) [of 0] Suc.prems(2) by (subst description_end.simps) simp
  also have "\<dots> = i + 2 + 2 * m"
  proof (rule Suc.IH)
    fix k assume "k < m"
    then show "\<not> (bs ! (i + 2 + 2 * k) = 0 \<and> bs ! (i + 2 + 2 * k + 1) = 0)" using Suc.prems(1) [of "Suc k"] by simp
  qed (use Suc.prems in auto)
  finally show ?case by simp
qed

lemma le_size: "unat (ucast b OR push_bit 8 (ucast c) :: u16) = unat (read_u16_be [c, b])"
  by (simp add: read_u16_be_def or.commute)

text \<open>C11: parsing a boot option.  For an option of at least eight bytes the parser succeeds exactly when the
  bytes are a load option whose path the firmware accepts at exactly its stated size, and it then
  returns the memory from the path on and the optional data, all within the option.
\<close>

theorem boot_option_parse_exact:
  assumes "lx_NormalOption lx = Some bs" and "lx_NormalOptionSize lx = length bs" and "8 \<le> length bs" "length bs \<le> 65536"
  shows "ParseNormalBootOption F lx = Inr (p, opt) \<longleftrightarrow>
    (\<exists>attr desc path. load_option bs attr desc path opt \<and> p = path @ opt \<and>
       IsDevicePathValid F p (length path) \<and> GetDevicePathSize F p = length path)" (is "?l \<longleftrightarrow> ?r")
proof
  assume l: ?l
  define j n where "j = description_end bs (length bs) 6" and "n = unat (read_u16_be [bs ! 5, bs ! 4])"
  have b: "j + 2 \<le> length bs" "0 < n" "n \<le> length bs - (j + 2)" and p: "p = drop (j + 2) bs"
    and v: "IsDevicePathValid F p n" "GetDevicePathSize F p = n" and o: "opt = drop (j + 2 + n) bs"
    using l unfolding ParseNormalBootOption_def Let_def le_size assms(1,2) option.sel j_def [symmetric] n_def [symmetric]
    by (simp_all split: if_splits)
  have j: "6 \<le> j" "even (j - 6)" "\<And>k. 6 + 2 * k < j \<Longrightarrow> \<not> (bs ! (6 + 2 * k) = 0 \<and> bs ! (6 + 2 * k + 1) = 0)"
    "bs ! j = 0" "bs ! (j + 1) = 0"
    using description_end_spec [of bs "length bs" 6] b(1) by (auto simp: Let_def j_def)
  let ?attr = "take 4 bs" and ?desc = "take (j - 6) (drop 6 bs)" and ?path = "take n (drop (j + 2) bs)"
  have len: "length ?path = n" "length ?desc = j - 6" using b j by simp_all
  have "read_u16_be [bs ! 5, bs ! 4] = of_nat n" by (simp add: n_def)
  then have size: "rev (write_u16_be (of_nat n)) = [bs ! 4, bs ! 5]"
    using write_read_u16_be [of "[bs ! 5, bs ! 4]"] by simp
  have "bs = ?attr @ [bs ! 4, bs ! 5] @ drop 6 bs"
    using assms(3) Cons_nth_drop_Suc [of 4 bs] Cons_nth_drop_Suc [of 5 bs] by simp
  moreover have "drop 6 bs = ?desc @ drop j bs" using take_drop_rest [of "j - 6" 6 bs] j(1) by simp
  moreover have "drop j bs = [0, 0] @ drop (j + 2) bs"
    using b j Cons_nth_drop_Suc [of j bs] Cons_nth_drop_Suc [of "Suc j" bs] by simp
  moreover have "drop (j + 2) bs = ?path @ opt" using take_drop_rest [of n "j + 2" bs] o by simp
  ultimately have "bs = ?attr @ rev (write_u16_be (of_nat (length ?path))) @ ?desc @ [0, 0] @ ?path @ opt" "p = ?path @ opt"
    unfolding len(1) size p by metis+
  moreover have "n < 65536" using unat_lt [of "read_u16_be [bs ! 5, bs ! 4]"] by (simp add: n_def)
  moreover have "\<forall>k. 2 * k < j - 6 \<longrightarrow> \<not> (?desc ! (2 * k) = 0 \<and> ?desc ! (2 * k + 1) = 0)"
  proof (intro allI impI)
    fix k assume that: "2 * k < j - 6"
    have "2 * k + 1 < j - 6" using that j(2) by presburger
    then show "\<not> (?desc ! (2 * k) = 0 \<and> ?desc ! (2 * k + 1) = 0)" using j(3) [of k] b(1) by (simp add: add.assoc)
  qed
  moreover have "length ?attr = 4" using assms(3) by simp
  ultimately have "load_option bs ?attr ?desc ?path opt" "p = ?path @ opt"
    unfolding load_option_def len using b(2) j(2) by blast+
  then show ?r using v len(1) by metis
next
  assume ?r
  then obtain attr desc path where lo: "load_option bs attr desc path opt" and p: "p = path @ opt"
    and v: "IsDevicePathValid F p (length path)" "GetDevicePathSize F p = length path" by blast
  obtain m where m: "length desc = 2 * m" using lo by (auto simp: load_option_def)
  have bs: "bs = attr @ rev (write_u16_be (of_nat (length path))) @ desc @ [0, 0] @ path @ opt" and len: "length attr = 4" "length path < 65536"
    using lo by (simp_all add: load_option_def)
  have tail: "drop 6 bs = desc @ [0, 0] @ path @ opt" using len by (simp add: bs)
  have at: "bs ! (6 + i) = (desc @ [0, 0] @ path @ opt) ! i" for i
    using nth_drop [of 6 bs i] tail assms(3) by simp
  have j: "description_end bs (length bs) 6 = 6 + 2 * m"
    using lo by (intro description_end_eq) (auto simp: at add.assoc nth_append m load_option_def bs)
  have "[bs ! 5, bs ! 4] = write_u16_be (of_nat (length path))"
    using len by (simp add: bs nth_append write_u16_be_def)
  then have size: "unat (read_u16_be [bs ! 5, bs ! 4]) = length path" using len by (simp add: unat_of_nat_small)
  define q where "q = 6 + 2 * m"
  have ne: "length path \<noteq> 0" using lo unfolding load_option_def by simp
  have d: "drop (q + 2) bs = p" "drop (q + 2 + length path) bs = opt" and le: "q + 2 + length path \<le> length bs"
    using m len by (simp_all add: q_def p bs)
  have "ParseNormalBootOption F lx = (if length bs - (q + 2 + length path) > 0xffffffff then Inl EFI_BAD_BUFFER_SIZE else Inr (p, opt))"
    using le ne v assms(1,2)
    by (simp only: ParseNormalBootOption_def Let_def le_size size j q_def [symmetric] d option.sel) auto
  then show ?l using assms(4) by simp
qed

section \<open>The configuration variable\<close>

text \<open>
  What is relied on of the firmware: a non-volatile variable with boot service access that was
  set is read back, \<open>BootCurrent\<close> is absent or a fixed little-endian 16-bit value (which
  \<open>cur\<close> gives), and the device path functions look only at the path itself.
\<close>

definition stores_variables :: "'e efi \<Rightarrow> bool" where
  "stores_variables F \<longleftrightarrow> (\<forall>e name g data st e' cap.
     SetVariable F e name g (EFI_VARIABLE_NON_VOLATILE OR EFI_VARIABLE_BOOTSERVICE_ACCESS) data = (st, e') \<and>
     \<not> EFI_ERROR st \<and> data \<noteq> [] \<and> length data \<le> cap \<longrightarrow>
     (\<exists>e''. GetVariable F e' name g cap =
        (EFI_SUCCESS, EFI_VARIABLE_NON_VOLATILE OR EFI_VARIABLE_BOOTSERVICE_ACCESS, length data, data, e'')))"

definition boot_current_is :: "'e efi \<Rightarrow> u16 option \<Rightarrow> bool" where
  "boot_current_is F cur \<longleftrightarrow> (\<forall>e st a n bs e'. GetVariable F e ''BootCurrent'' gEfiGlobalVariableGuid 2 = (st, a, n, bs, e') \<longrightarrow>
     (case cur of None \<Rightarrow> st = EFI_NOT_FOUND
      | Some c \<Rightarrow> \<not> EFI_ERROR st \<and> n = 2 \<and> bs = rev (write_u16_be c)))"

definition paths_delimited :: "'e efi \<Rightarrow> bool" where
  "paths_delimited F \<longleftrightarrow> (\<forall>m m' n k. IsDevicePathValid F m n \<and> GetDevicePathSize F m = k \<and> k \<le> n \<and> take k m = take k m' \<longrightarrow>
     IsDevicePathValid F m' k \<and> GetDevicePathSize F m' = k)"

lemma sized_filled: "length data \<le> length mem \<Longrightarrow> sized (length data) (filled mem data) = data"
  by (simp add: sized_def filled_def)

lemma ranges_apart_shrink:
  "\<not> ranges_overlap a m b n \<Longrightarrow> m' \<le> m \<Longrightarrow> \<not> ranges_overlap a m' b n"
  by (auto simp: ranges_overlap_def split: if_splits)

lemma boot_config_write_stores:
  assumes wr: "PbnsBootConfigWrite (Some F) opt path e = (st, e')" "\<not> EFI_ERROR st"
    and k: "k = GetDevicePathSize F (v_bytes path)" "k \<le> v_len path"
    and l: "local_ptr F \<noteq> 0" "\<not> ranges_overlap (v_ptr path) k (local_ptr F) 4112"
  shows "0 < k \<and> k \<le> 4096 \<and> IsDevicePathValid F (v_bytes path) 4096 \<and>
    SetVariable F e PBNS_BOOT_CONFIG_VARIABLE_NAME gPbnsBootConfigGuid 3 (config_wire opt (take k (v_bytes path))) = (st, e')"
proof -
  have ok: "v_ptr path \<noteq> 0" "IsDevicePathValid F (v_bytes path) 4096" "0 < k" "k \<le> 4096"
    using wr k(1) by (auto simp: PbnsBootConfigWrite_def Let_def boot_constants split: if_splits)
  let ?c = "\<lparr>normal_boot_option = opt, recovery_device_path = \<lparr>v_ptr = v_ptr path, v_bytes = take k (v_bytes path)\<rparr>\<rparr>"
  let ?out = "\<lparr>b_ptr = local_ptr F, b_len = 0, b_mem = replicate 4112 0\<rparr> :: pbns_buffer"
  have sized: "sized k (v_bytes path) = take k (v_bytes path)" using k(2) by (simp add: sized_def)
  have "pbns_boot_config_encode (Some ?c) ?out (Some 0) =
      (PBNS_OK, config_wire opt (take k (v_bytes path)) @ drop (16 + k) (replicate 4112 0), Some (16 + k))"
    using boot_config_encode_wire [of ?c ?out 0] ok l k(2) by (simp add: config_valid_for_def)
  moreover have "16 + k = length (config_wire opt (take k (v_bytes path)))" using k(2) by (simp add: config_wire_fields)
  ultimately show ?thesis
    using wr ok k(2)
    by (simp add: PbnsBootConfigWrite_def Let_def boot_constants k(1) [symmetric] sized
        EFI_VARIABLE_NON_VOLATILE_def EFI_VARIABLE_BOOTSERVICE_ACCESS_def)
qed

lemma u16_little_endian:
  "b = filled [0, 0] (rev (write_u16_be c)) \<Longrightarrow> (ucast (b ! 0) OR push_bit 8 (ucast (b ! Suc 0)) :: u16) = c"
  by (rule bit_word_eqI) (auto simp: write_u16_be_def filled_def bit_simps)

text \<open>C10: a boot configuration written by the application is read back by the launcher.  If the write
  succeeds, the next read succeeds and yields the boot option and the device path written.  The read
  marks the configuration as a reference to the launcher itself exactly when the option written is the
  one the firmware has booted (\<open>BootCurrent\<close>), and the launcher accepts it exactly when it is not.
\<close>

theorem boot_config_variable_roundtrip:
  assumes firmware: "stores_variables F" "boot_current_is F cur" "paths_delimited F"
    and wr: "PbnsBootConfigWrite (Some F) opt path e = (st, e')" "\<not> EFI_ERROR st"
    and k: "k = GetDevicePathSize F (v_bytes path)" "k \<le> v_len path"
    and l: "local_ptr F \<noteq> 0" "\<not> ranges_overlap (v_ptr path) k (local_ptr F) 4112"
    and store: "b_ptr store \<noteq> 0" "4096 \<le> b_cap store" "\<not> ranges_overlap (local_ptr F) 4112 (b_ptr store) (b_cap store)"
  shows "\<exists>c mem e''. PbnsBootConfigRead (Some F) (Some c0) store e' = (EFI_SUCCESS, Some c, mem, e'') \<and>
    lc_normal_boot_option c = opt \<and> v_bytes (lc_recovery_device_path c) = take k (v_bytes path) \<and>
    (lc_self_reference c \<longleftrightarrow> cur = Some opt) \<and> (config_valid c \<longleftrightarrow> cur \<noteq> Some opt)"
proof -
  define p where "p = take k (v_bytes path)"
  define wire where "wire = config_wire opt p"
  have ok: "0 < k" "k \<le> 4096" "IsDevicePathValid F (v_bytes path) 4096"
    and set: "SetVariable F e PBNS_BOOT_CONFIG_VARIABLE_NAME gPbnsBootConfigGuid 3 wire = (st, e')"
    using boot_config_write_stores [OF wr k l] by (simp_all add: wire_def p_def)
  have len: "length p = k" "length wire = 16 + k" using k(2) by (simp_all add: p_def wire_def config_wire_fields)
  obtain e1 where get: "GetVariable F e' PBNS_BOOT_CONFIG_VARIABLE_NAME gPbnsBootConfigGuid 4112 = (EFI_SUCCESS, 3, 16 + k, wire, e1)"
    using firmware(1) [unfolded stores_variables_def, rule_format,
        of e PBNS_BOOT_CONFIG_VARIABLE_NAME gPbnsBootConfigGuid wire st e' 4112] set wr(2) len ok(2)
    by (fastforce simp: EFI_VARIABLE_NON_VOLATILE_def EFI_VARIABLE_BOOTSERVICE_ACCESS_def)
  let ?mem = "p @ drop k (b_mem store)" and ?v = "\<lparr>v_ptr = local_ptr F, v_bytes = wire\<rparr>"
  have "pbns_boot_config_decode ?v (store\<lparr>b_len := 0\<rparr>) (Some zero_boot_config) =
      (PBNS_OK, Some \<lparr>normal_boot_option = opt, recovery_device_path = \<lparr>v_ptr = b_ptr store, v_bytes = p\<rparr>\<rparr>, ?mem)"
    using boot_config_decode_result [of ?v "store\<lparr>b_len := 0\<rparr>" zero_boot_config] l(1) store len ok
      ranges_apart_shrink [OF store(3), of "16 + k"] config_accepts_wire [of p opt]
    by (simp add: wire_def config_wire_fields del: length_greater_0_conv)
  moreover have "sized (16 + k) (filled (replicate 4112 0) wire) = wire" using sized_filled [of wire "replicate 4112 0"] len ok by simp
  moreover have "IsDevicePathValid F ?mem k \<and> GetDevicePathSize F ?mem = k"
    using firmware(3) ok k len unfolding paths_delimited_def p_def by (metis append_eq_conv_conj)
  moreover obtain st2 a n bs e2 where cur: "GetVariable F e1 ''BootCurrent'' gEfiGlobalVariableGuid 2 = (st2, a, n, bs, e2)"
    by (metis prod_cases5)
  moreover have "case cur of None \<Rightarrow> st2 = EFI_NOT_FOUND | Some c \<Rightarrow> \<not> EFI_ERROR st2 \<and> n = 2 \<and> bs = rev (write_u16_be c)"
    using firmware(2) cur unfolding boot_current_is_def by blast
  ultimately show ?thesis
    using store(1,2) len ok get
    by (auto simp: PbnsBootConfigRead_def Let_def boot_constants EFI_VARIABLE_NON_VOLATILE_def EFI_VARIABLE_BOOTSERVICE_ACCESS_def
        p_def [symmetric] config_valid_def PBNS_LAUNCHER_MAX_DEVICE_PATH_SIZE_def u16_little_endian
        split: option.splits)
qed

section \<open>Witnesses\<close>

text \<open>A firmware with a pool count, one variable and \<open>BootCurrent\<close> 9, whose device paths are two bytes long.\<close>

definition example_efi :: "(int \<times> (string \<times> u32 \<times> bytes) option) efi" where
  "example_efi = \<lparr>
     GetVariable = (\<lambda>(n, var) name g cap. if name = ''BootCurrent'' then (EFI_SUCCESS, 6, 2, [9, 0], n, var) else case var of
        Some (name', a, data) \<Rightarrow> if name' = name \<and> length data \<le> cap then (EFI_SUCCESS, a, length data, data, n, var)
                                else (EFI_NOT_FOUND, 0, 0, [], n, var)
      | None \<Rightarrow> (EFI_NOT_FOUND, 0, 0, [], n, var)),
     SetVariable = (\<lambda>(n, var) name g a data. if name = ''BootCurrent'' then (EFI_ACCESS_DENIED, n, var) else (EFI_SUCCESS, n, Some (name, a, data))),
     LoadImage = (\<lambda>e h p. (EFI_NOT_FOUND, 0, e)), StartImage = (\<lambda>e i. (EFI_SUCCESS, e)),
     UnloadImage = (\<lambda>e i. (EFI_SUCCESS, e)), HandleProtocol = (\<lambda>e i. (EFI_SUCCESS, 1, e)), SetLoadOptions = (\<lambda>e p bs. e),
     AllocatePool = (\<lambda>(n, var) size. (Some [], n + 1, var)), FreePool = (\<lambda>(n, var). (n - 1, var)),
     IsDevicePathValid = (\<lambda>m n. 2 \<le> n), GetDevicePathSize = (\<lambda>m. 2), SPrintBoot = (\<lambda>n. ''Boot0007''), local_ptr = 8192\<rparr>"

theorem uefi_main_returns_error_witness:
  "\<exists>st e' lx. UefiMain 64 128 1 (Some example_efi) (0, None) = (st, e', Some lx) \<and> EFI_ERROR st \<and> fst e' = 0"
proof -
  have "pool_accounting example_efi fst"
    by (auto simp: pool_accounting_def example_efi_def split: option.splits if_splits prod.splits)
  then show ?thesis using uefi_main_returns_error [of example_efi fst 64 128 1 "(0, None)"] by auto
qed

definition example_option :: launcher_context where
  "example_option = \<lparr>lx_ImageHandle = 1, lx_NormalOption = Some [1, 0, 0, 0, 2, 0, 65, 0, 0, 0, 4, 5, 9], lx_NormalOptionSize = 13,
     lx_Config = zero_launcher_config, lx_RecoveryPath = null_buffer\<rparr>"

theorem boot_option_parse_exact_witness:
  "ParseNormalBootOption example_efi example_option = Inr ([4, 5, 9], [9])"
proof -
  have "load_option [1, 0, 0, 0, 2, 0, 65, 0, 0, 0, 4, 5, 9] [1, 0, 0, 0] [65, 0] [4, 5] [9]"
    by (auto simp: load_option_def write_u16_be_def less_Suc_eq)
  then show ?thesis
    using boot_option_parse_exact [of example_option "[1, 0, 0, 0, 2, 0, 65, 0, 0, 0, 4, 5, 9]" example_efi "[4, 5, 9]" "[9]"]
    by (fastforce simp: example_option_def example_efi_def)
qed

theorem boot_config_variable_roundtrip_witness:
  "\<forall>opt. \<exists>c mem e''. PbnsBootConfigRead (Some example_efi) (Some zero_launcher_config) \<lparr>b_ptr = 16384, b_len = 0, b_mem = replicate 4096 0\<rparr>
     (snd (PbnsBootConfigWrite (Some example_efi) opt \<lparr>v_ptr = 64, v_bytes = [4, 5]\<rparr> (0, None))) = (EFI_SUCCESS, Some c, mem, e'') \<and>
     lc_normal_boot_option c = opt \<and> v_bytes (lc_recovery_device_path c) = [4, 5] \<and> (config_valid c \<longleftrightarrow> opt \<noteq> 9)"
proof
  fix opt :: u16
  let ?path = "\<lparr>v_ptr = 64, v_bytes = [4, 5]\<rparr>" and ?store = "\<lparr>b_ptr = 16384, b_len = 0, b_mem = replicate 4096 0\<rparr> :: pbns_buffer"
  have firmware: "stores_variables example_efi" "boot_current_is example_efi (Some 9)" "paths_delimited example_efi"
    by (auto simp: stores_variables_def boot_current_is_def paths_delimited_def example_efi_def write_u16_be_def
        efi_status_defs EFI_ERROR_def split: option.splits if_splits prod.splits)
  obtain st e' where wr: "PbnsBootConfigWrite (Some example_efi) opt ?path (0, None) = (st, e')" by (metis surj_pair)
  let ?c = "\<lparr>normal_boot_option = opt, recovery_device_path = ?path\<rparr>"
  let ?out = "\<lparr>b_ptr = 8192, b_len = 0, b_mem = replicate 4112 0\<rparr> :: pbns_buffer"
  have "fst (pbns_boot_config_encode (Some ?c) ?out (Some 0)) = PBNS_OK"
    using boot_config_encode_wire [of ?c ?out 0] by (simp add: config_valid_for_def ranges_overlap_def UINTPTR_MAX_def)
  then have "\<not> EFI_ERROR st"
    using wr by (auto simp: PbnsBootConfigWrite_def example_efi_def boot_constants sized_def PBNS_BOOT_CONFIG_VARIABLE_NAME_def split: prod.splits)
  from boot_config_variable_roundtrip [OF firmware wr this, of 2 ?store zero_launcher_config]
  obtain c mem e'' where "PbnsBootConfigRead (Some example_efi) (Some zero_launcher_config) ?store e' = (EFI_SUCCESS, Some c, mem, e'')"
      "lc_normal_boot_option c = opt" "v_bytes (lc_recovery_device_path c) = [4, 5]" "config_valid c \<longleftrightarrow> opt \<noteq> 9"
    by (auto simp: example_efi_def ranges_overlap_def UINTPTR_MAX_def)
  then show "\<exists>c mem e''. PbnsBootConfigRead (Some example_efi) (Some zero_launcher_config) ?store
      (snd (PbnsBootConfigWrite (Some example_efi) opt ?path (0, None))) = (EFI_SUCCESS, Some c, mem, e'') \<and>
      lc_normal_boot_option c = opt \<and> v_bytes (lc_recovery_device_path c) = [4, 5] \<and> (config_valid c \<longleftrightarrow> opt \<noteq> 9)"
    using wr by auto
qed

end
