(* ===== verification/Anti_Rollback.thy ===== *)
theory Anti_Rollback
  imports Crc32c
begin

text \<open>
  The anti-rollback counter, src/src/core/anti_rollback.c, the choice of its back end,
  src/src/core/recovery_assurance.c, and the rollback part of src/src/core/recovery_service_adapter.c.
  The TPM counter and the two NVRAM slots are callbacks on an environment \<open>'e\<close>; an out-parameter is
  passed in and returned.  The records are shown to be canonical, and the version held by the slots
  never to decrease, even over writes that fail half-way.
\<close>

section \<open>Types\<close>

datatype pbns_anti_rollback_assurance =
    PBNS_ANTI_ROLLBACK_ASSURANCE_INVALID
  | PBNS_ANTI_ROLLBACK_ASSURANCE_TPM
  | PBNS_ANTI_ROLLBACK_ASSURANCE_NVRAM_REDUCED

definition PBNS_ANTI_ROLLBACK_RECORD_SIZE :: nat where "PBNS_ANTI_ROLLBACK_RECORD_SIZE = 24"
definition PBNS_ANTI_ROLLBACK_AUTHORIZATION_MAX_SIZE :: nat where "PBNS_ANTI_ROLLBACK_AUTHORIZATION_MAX_SIZE = 4096"
definition PBNS_ANTI_ROLLBACK_NO_SLOT :: nat where "PBNS_ANTI_ROLLBACK_NO_SLOT = SIZE_MAX"

record 'e pbns_anti_rollback =
  ar_assurance :: pbns_anti_rollback_assurance
  tpm_read :: "('e \<Rightarrow> u64 \<Rightarrow> pbns_status \<times> u64 \<times> 'e) option"
  tpm_advance :: "('e \<Rightarrow> u64 \<Rightarrow> u64 \<Rightarrow> pbns_view \<Rightarrow> pbns_status \<times> 'e) option"
  slot_read :: "('e \<Rightarrow> nat \<Rightarrow> bytes \<Rightarrow> bool \<Rightarrow> pbns_status \<times> bytes \<times> bool \<times> 'e) option"
  slot_write :: "('e \<Rightarrow> nat \<Rightarrow> pbns_view \<Rightarrow> pbns_status \<times> 'e) option"

record pbns_anti_rollback_state =
  ar_version :: u64
  ar_generation :: u64
  ar_active_slot :: nat
  ar_state_assurance :: pbns_anti_rollback_assurance

definition zero_rollback_state :: pbns_anti_rollback_state where
  "zero_rollback_state = \<lparr>ar_version = 0, ar_generation = 0, ar_active_slot = 0,
     ar_state_assurance = PBNS_ANTI_ROLLBACK_ASSURANCE_INVALID\<rparr>"

definition zero_rollback :: "'e pbns_anti_rollback" where
  "zero_rollback = \<lparr>ar_assurance = PBNS_ANTI_ROLLBACK_ASSURANCE_INVALID, tpm_read = None, tpm_advance = None,
     slot_read = None, slot_write = None\<rparr>"

section \<open>Records\<close>

definition record_magic :: bytes where "record_magic = [0x50, 0x42, 0x52, 0x31]"

text \<open>The output array is a local of the caller, at some address other than NULL.\<close>

definition encode_record :: "u64 \<Rightarrow> u64 \<Rightarrow> bytes" where
  "encode_record generation version =
     (let out = replicate PBNS_ANTI_ROLLBACK_RECORD_SIZE 0;
          out = store_at out 0 record_magic;
          out = store_at out 4 (write_u64_be generation);
          out = store_at out 12 (write_u64_be version)
      in store_at out 20 (write_u32_be (pbns_crc32c \<lparr>v_ptr = 1, v_bytes = take 20 out\<rparr>)))"

definition decode_record :: "bytes \<Rightarrow> u64 \<Rightarrow> u64 \<Rightarrow> bool \<times> u64 \<times> u64" where
  "decode_record rec generation version =
     (if take 4 rec \<noteq> record_magic \<or> read_u32_be (drop 20 rec) \<noteq> pbns_crc32c \<lparr>v_ptr = 1, v_bytes = take 20 rec\<rparr>
      then (False, generation, version)
      else let generation = read_u64_be (drop 4 rec); version = read_u64_be (drop 12 rec)
           in (generation > 0 \<and> version > 0, generation, version))"

section \<open>Operations\<close>

definition pbns_anti_rollback_init_tpm ::
    "'e pbns_anti_rollback ptr \<Rightarrow> ('e \<Rightarrow> u64 \<Rightarrow> pbns_status \<times> u64 \<times> 'e) option \<Rightarrow>
     ('e \<Rightarrow> u64 \<Rightarrow> u64 \<Rightarrow> pbns_view \<Rightarrow> pbns_status \<times> 'e) option \<Rightarrow> pbns_status \<times> 'e pbns_anti_rollback ptr" where
  "pbns_anti_rollback_init_tpm controller rd advance =
     (let controller = map_option (\<lambda>_. zero_rollback) controller in
      if controller = None \<or> rd = None \<or> advance = None then (PBNS_ERR_ARGUMENT, controller)
      else (PBNS_OK, Some ((the controller)\<lparr>ar_assurance := PBNS_ANTI_ROLLBACK_ASSURANCE_TPM,
                             tpm_read := rd, tpm_advance := advance\<rparr>)))"

definition pbns_anti_rollback_init_nvram ::
    "'e pbns_anti_rollback ptr \<Rightarrow> ('e \<Rightarrow> nat \<Rightarrow> bytes \<Rightarrow> bool \<Rightarrow> pbns_status \<times> bytes \<times> bool \<times> 'e) option \<Rightarrow>
     ('e \<Rightarrow> nat \<Rightarrow> pbns_view \<Rightarrow> pbns_status \<times> 'e) option \<Rightarrow> pbns_status \<times> 'e pbns_anti_rollback ptr" where
  "pbns_anti_rollback_init_nvram controller rd wr =
     (let controller = map_option (\<lambda>_. zero_rollback) controller in
      if controller = None \<or> rd = None \<or> wr = None then (PBNS_ERR_ARGUMENT, controller)
      else (PBNS_OK, Some ((the controller)\<lparr>ar_assurance := PBNS_ANTI_ROLLBACK_ASSURANCE_NVRAM_REDUCED,
                             slot_read := rd, slot_write := wr\<rparr>)))"

definition controller_valid :: "'e pbns_anti_rollback ptr \<Rightarrow> bool" where
  "controller_valid controller \<longleftrightarrow> (case controller of None \<Rightarrow> False | Some c \<Rightarrow>
     (case ar_assurance c of
        PBNS_ANTI_ROLLBACK_ASSURANCE_TPM \<Rightarrow> tpm_read c \<noteq> None \<and> tpm_advance c \<noteq> None \<and> slot_read c = None \<and> slot_write c = None
      | PBNS_ANTI_ROLLBACK_ASSURANCE_NVRAM_REDUCED \<Rightarrow>
          slot_read c \<noteq> None \<and> slot_write c \<noteq> None \<and> tpm_read c = None \<and> tpm_advance c = None
      | PBNS_ANTI_ROLLBACK_ASSURANCE_INVALID \<Rightarrow> False))"

text \<open>
  \<open>read_slot\<close> is the body of the loop over the slots: a status on failure, or the validity, generation
  and version of the slot.  The arrays of the loop start as zeros.
\<close>

definition read_slot :: "'e pbns_anti_rollback \<Rightarrow> nat \<Rightarrow> 'e \<Rightarrow> (pbns_status + bool \<times> u64 \<times> u64) \<times> 'e" where
  "read_slot c slot e =
     (case the (slot_read c) e slot (replicate PBNS_ANTI_ROLLBACK_RECORD_SIZE 0) False of
        (status, rec, present, e) \<Rightarrow>
        if status \<noteq> PBNS_OK then (Inl status, e)
        else (Inr (if present then decode_record (filled (replicate PBNS_ANTI_ROLLBACK_RECORD_SIZE 0) rec) 0 0
                   else (False, 0, 0)), e))"

definition read_nvram ::
    "'e pbns_anti_rollback \<Rightarrow> pbns_anti_rollback_state \<Rightarrow> 'e \<Rightarrow> pbns_status \<times> pbns_anti_rollback_state \<times> 'e" where
  "read_nvram c state e =
     (case read_slot c 0 e of
        (Inl status, e) \<Rightarrow> (status, state, e)
      | (Inr (valid0, generation0, version0), e) \<Rightarrow>
        (case read_slot c 1 e of
           (Inl status, e) \<Rightarrow> (status, state, e)
         | (Inr (valid1, generation1, version1), e) \<Rightarrow>
           let state = state\<lparr>ar_state_assurance := PBNS_ANTI_ROLLBACK_ASSURANCE_NVRAM_REDUCED,
                             ar_active_slot := PBNS_ANTI_ROLLBACK_NO_SLOT\<rparr>
           in if \<not> valid0 \<and> \<not> valid1 then (PBNS_OK, state, e)
              else if valid0 \<and> valid1 \<and> generation0 = generation1 then (PBNS_ERR_AMBIGUOUS, state, e)
              else
                let selected = (if valid0 \<and> valid1 then (if generation1 > generation0 then 1 else 0)
                                else if valid0 then 0 else (1 :: nat))
                in (PBNS_OK, state\<lparr>ar_generation := (if selected = 0 then generation0 else generation1),
                                   ar_version := (if selected = 0 then version0 else version1),
                                   ar_active_slot := selected\<rparr>, e)))"

definition pbns_anti_rollback_read ::
    "'e pbns_anti_rollback ptr \<Rightarrow> pbns_anti_rollback_state ptr \<Rightarrow> 'e \<Rightarrow> pbns_status \<times> pbns_anti_rollback_state ptr \<times> 'e" where
  "pbns_anti_rollback_read controller state e =
     (let state = map_option (\<lambda>_. zero_rollback_state) state in
      if \<not> controller_valid controller \<or> state = None then (PBNS_ERR_ARGUMENT, state, e)
      else if ar_assurance (the controller) = PBNS_ANTI_ROLLBACK_ASSURANCE_TPM then
        (case the (tpm_read (the controller)) e 0 of
           (status, version, e) \<Rightarrow>
           if status \<noteq> PBNS_OK then (status, state, e)
           else (PBNS_OK, Some ((the state)\<lparr>ar_version := version, ar_active_slot := PBNS_ANTI_ROLLBACK_NO_SLOT,
                                  ar_state_assurance := PBNS_ANTI_ROLLBACK_ASSURANCE_TPM\<rparr>), e))
      else (case read_nvram (the controller) (the state) e of (status, state, e) \<Rightarrow> (status, Some state, e)))"

text \<open>The write half of an advance: the TPM command, or a record for the inactive slot.\<close>

definition advance_write ::
    "'e pbns_anti_rollback \<Rightarrow> u64 \<Rightarrow> pbns_view \<Rightarrow> pbns_anti_rollback_state \<Rightarrow> 'e \<Rightarrow> pbns_status \<times> 'e" where
  "advance_write c target_version authorization current e =
     (if ar_assurance c = PBNS_ANTI_ROLLBACK_ASSURANCE_TPM then
        (if v_len authorization = 0 then (PBNS_ERR_ARGUMENT, e)
         else the (tpm_advance c) e (ar_version current) target_version authorization)
      else if v_len authorization \<noteq> 0 then (PBNS_ERR_ARGUMENT, e)
      else if ar_generation current = - 1 then (PBNS_ERR_LIMIT, e)
      else
        let inactive = (if ar_active_slot current = PBNS_ANTI_ROLLBACK_NO_SLOT then 0 else ar_active_slot current XOR 1)
        in the (slot_write c) e inactive
             \<lparr>v_ptr = 1, v_bytes = encode_record (ar_generation current + 1) target_version\<rparr>)"

definition pbns_anti_rollback_advance ::
    "'e pbns_anti_rollback ptr \<Rightarrow> u64 \<Rightarrow> pbns_view \<Rightarrow> pbns_anti_rollback_state ptr \<Rightarrow> 'e \<Rightarrow>
     pbns_status \<times> pbns_anti_rollback_state ptr \<times> 'e" where
  "pbns_anti_rollback_advance controller target_version authorization state e =
     (let state = map_option (\<lambda>_. zero_rollback_state) state in
      if \<not> controller_valid controller \<or> \<not> view_is_valid authorization \<or> state = None \<or> target_version = 0 \<or>
         v_len authorization > PBNS_ANTI_ROLLBACK_AUTHORIZATION_MAX_SIZE
      then (PBNS_ERR_ARGUMENT, state, e)
      else
        case pbns_anti_rollback_read controller (Some zero_rollback_state) e of
          (status, current, e) \<Rightarrow>
          if status \<noteq> PBNS_OK then (status, state, e)
          else if target_version \<le> ar_version (the current) then (PBNS_ERR_REPLAY, state, e)
          else
            case advance_write (the controller) target_version authorization (the current) e of
              (status, e) \<Rightarrow>
              if status \<noteq> PBNS_OK then (status, state, e)
              else
                case pbns_anti_rollback_read controller (Some zero_rollback_state) e of
                  (status, verified, e) \<Rightarrow>
                  if status \<noteq> PBNS_OK then (status, state, e)
                  else if ar_version (the verified) \<noteq> target_version \<or>
                          (ar_assurance (the controller) = PBNS_ANTI_ROLLBACK_ASSURANCE_NVRAM_REDUCED \<and>
                           ar_generation (the verified) \<noteq> ar_generation (the current) + 1)
                  then (PBNS_ERR_STATE, state, e)
                  else (PBNS_OK, verified, e))"

section \<open>The service\<close>

datatype pbns_recovery_assurance_mode = PBNS_RECOVERY_ASSURANCE_T | PBNS_RECOVERY_ASSURANCE_S

record 'e pbns_recovery_assurance_ops =
  open_tpm_pair :: "('e \<Rightarrow> pbns_status \<times> 'e) option"
  open_software_nvram_pair :: "('e \<Rightarrow> pbns_status \<times> 'e) option"

definition pbns_recovery_assurance_select ::
    "pbns_recovery_assurance_mode \<Rightarrow> 'e pbns_recovery_assurance_ops ptr \<Rightarrow> 'e \<Rightarrow> pbns_status \<times> 'e" where
  "pbns_recovery_assurance_select mode ops e =
     (case ops of
        None \<Rightarrow> (PBNS_ERR_ARGUMENT, e)
      | Some ops \<Rightarrow>
        (case (case mode of PBNS_RECOVERY_ASSURANCE_T \<Rightarrow> open_tpm_pair ops | PBNS_RECOVERY_ASSURANCE_S \<Rightarrow> open_software_nvram_pair ops) of
           None \<Rightarrow> (PBNS_ERR_ARGUMENT, e)
         | Some f \<Rightarrow> f e))"


record 'e pbns_recovery_service_rollback =
  rb_mode :: pbns_recovery_assurance_mode
  rb_controller :: "'e pbns_anti_rollback ptr"
  rb_retained :: pbns_anti_rollback_state
  rb_retained_valid :: bool

definition controller_matches_mode :: "pbns_recovery_assurance_mode \<Rightarrow> 'e pbns_anti_rollback ptr \<Rightarrow> bool" where
  "controller_matches_mode mode controller \<longleftrightarrow> controller \<noteq> None \<and>
     (mode = PBNS_RECOVERY_ASSURANCE_T \<and> ar_assurance (the controller) = PBNS_ANTI_ROLLBACK_ASSURANCE_TPM \<or>
      mode = PBNS_RECOVERY_ASSURANCE_S \<and> ar_assurance (the controller) = PBNS_ANTI_ROLLBACK_ASSURANCE_NVRAM_REDUCED)"


definition pbns_recovery_service_rollback_read ::
    "'e pbns_recovery_service_rollback ptr \<Rightarrow> u64 ptr \<Rightarrow> 'e \<Rightarrow> pbns_status \<times> 'e pbns_recovery_service_rollback ptr \<times> u64 ptr \<times> 'e" where
  "pbns_recovery_service_rollback_read rollback version e =
     (if rollback = None \<or> version = None \<or> \<not> controller_matches_mode (rb_mode (the rollback)) (rb_controller (the rollback))
      then (PBNS_ERR_ARGUMENT, rollback, version, e)
      else
        let r = the rollback in
        case pbns_anti_rollback_read (rb_controller r) (Some zero_rollback_state) e of
          (status, state, e) \<Rightarrow>
          if status \<noteq> PBNS_OK then (status, Some (r\<lparr>rb_retained_valid := False\<rparr>), version, e)
          else (PBNS_OK, Some (r\<lparr>rb_retained := the state, rb_retained_valid := True\<rparr>), Some (ar_version (the state)), e))"


section \<open>The records are canonical\<close>

definition record_fields :: "u64 \<Rightarrow> u64 \<Rightarrow> bytes" where
  "record_fields g v = record_magic @ write_u64_be g @ write_u64_be v"

lemma length_record_fields [simp]: "length (record_fields g v) = 20"
  by (simp add: record_fields_def record_magic_def)

lemma encode_record_fields: "encode_record g v = record_fields g v @ write_u32_be (crc32c (record_fields g v))"
proof -
  define out where "out = store_at (store_at (store_at (replicate 24 0) 0 record_magic) 4 (write_u64_be g)) 12 (write_u64_be v)"
  have out: "out = record_fields g v @ replicate 4 0"
    by (simp add: out_def store_at_def record_fields_def record_magic_def)
  show ?thesis
    unfolding encode_record_def PBNS_ANTI_ROLLBACK_RECORD_SIZE_def Let_def out_def [symmetric] out
    by (simp add: store_at_def)
qed

lemma length_encode_record [simp]: "length (encode_record g v) = 24"
  by (simp add: encode_record_fields)

lemma decode_encode_record: "0 < g \<Longrightarrow> 0 < v \<Longrightarrow> decode_record (encode_record g v) a b = (True, g, v)"
proof -
  assume pos: "0 < g" "0 < v"
  define crc where "crc = crc32c (record_fields g v)"
  have enc: "encode_record g v = record_fields g v @ write_u32_be crc" by (simp add: encode_record_fields crc_def)
  have "take 4 (encode_record g v) = record_magic" "read_u64_be (drop 4 (encode_record g v)) = g" "read_u64_be (drop 12 (encode_record g v)) = v"
    by (simp_all add: enc record_fields_def record_magic_def)
  moreover have "take 20 (encode_record g v) = record_fields g v" "read_u32_be (drop 20 (encode_record g v)) = crc" by (simp_all add: enc)
  ultimately show ?thesis using pos by (simp add: decode_record_def crc_def)
qed

lemma decode_record_canonical:
  assumes "length rec = 24" and "decode_record rec a b = (True, g, v)"
  shows "rec = encode_record g v \<and> 0 < g \<and> 0 < v"
proof -
  have m: "take 4 rec = record_magic" and c: "read_u32_be (drop 20 rec) = crc32c (take 20 rec)"
    and g: "g = read_u64_be (drop 4 rec)" "v = read_u64_be (drop 12 rec)" "0 < g" "0 < v"
    using assms(2) by (auto simp: decode_record_def Let_def split: if_splits)
  have "take 8 (drop 4 rec) = write_u64_be g" "take 8 (drop 12 rec) = write_u64_be v" "drop 20 rec = write_u32_be (read_u32_be (drop 20 rec))"
    using field_u64 [of 4 rec] field_u64 [of 12 rec] field_u32 [of 20 rec] assms(1) g by simp_all
  moreover have "take 20 rec = take 4 rec @ take 8 (drop 4 rec) @ take 8 (drop 12 rec)"
    using take_drop_chain [of 4 12 rec] take_drop_chain [of 12 20 rec] by (simp flip: append_assoc)
  ultimately have f: "take 20 rec = record_fields g v" "drop 20 rec = write_u32_be (crc32c (take 20 rec))"
    using m c by (simp_all add: record_fields_def)
  have "rec = take 20 rec @ drop 20 rec" by simp
  then have "rec = encode_record g v" unfolding encode_record_fields f(2) unfolding f(1) .
  then show ?thesis using g by simp
qed

text \<open>C30: a 24-byte record decodes to a generation and a version exactly when it is the record the encoder
  writes for them and both are positive.
\<close>

theorem rollback_record_canonical:
  assumes "length rec = PBNS_ANTI_ROLLBACK_RECORD_SIZE"
  shows "decode_record rec a b = (True, g, v) \<longleftrightarrow> rec = encode_record g v \<and> 0 < g \<and> 0 < v"
  using assms decode_record_canonical [of rec a b g v] decode_encode_record [of g v a b]
  by (auto simp: PBNS_ANTI_ROLLBACK_RECORD_SIZE_def)

section \<open>The slots\<close>

text \<open>
  \<open>slot_store c slots\<close> is what the controller relies on in the NVRAM callbacks: a read returns the
  contents of the slot and changes nothing, a successful write replaces the slot, and a failed one
  leaves the old record, the new one, or contents that are no record; no write touches the other slot.
\<close>

definition slot_value :: "bytes option \<Rightarrow> (u64 \<times> u64) option" where
  "slot_value r = (case r of None \<Rightarrow> None | Some rec \<Rightarrow>
     (case decode_record rec 0 0 of (ok, g, v) \<Rightarrow> if ok then Some (g, v) else None))"

definition slot_store :: "'e pbns_anti_rollback \<Rightarrow> ('e \<Rightarrow> nat \<Rightarrow> bytes option) \<Rightarrow> bool" where
  "slot_store c slots \<longleftrightarrow>
     (\<forall>e s st rec present e'. the (slot_read c) e s (replicate 24 0) False = (st, rec, present, e') \<longrightarrow>
        slots e' = slots e \<and> (st = PBNS_OK \<longrightarrow> (if present then slots e s = Some (filled (replicate 24 0) rec) else slots e s = None))) \<and>
     (\<forall>e s v st e'. the (slot_write c) e s v = (st, e') \<and> length (v_bytes v) = 24 \<longrightarrow>
        (\<forall>t. t \<noteq> s \<longrightarrow> slots e' t = slots e t) \<and>
        (slots e' s = Some (v_bytes v) \<or> st \<noteq> PBNS_OK \<and> (slots e' s = slots e s \<or> slot_value (slots e' s) = None)))"

text \<open>The record that counts is the valid one with the higher generation.\<close>

fun newest :: "(u64 \<times> u64) option \<Rightarrow> (u64 \<times> u64) option \<Rightarrow> (u64 \<times> u64) option" where
  "newest None y = y"
| "newest x None = x"
| "newest (Some (g, v)) (Some (h, w)) = (if h > g then Some (h, w) else Some (g, v))"

definition stored :: "(nat \<Rightarrow> bytes option) \<Rightarrow> (u64 \<times> u64) option" where
  "stored s = newest (slot_value (s 0)) (slot_value (s 1))"

definition stored_version :: "(nat \<Rightarrow> bytes option) \<Rightarrow> u64" where
  "stored_version s = (case stored s of None \<Rightarrow> 0 | Some (g, v) \<Rightarrow> v)"

definition stored_generation :: "(nat \<Rightarrow> bytes option) \<Rightarrow> u64" where
  "stored_generation s = (case stored s of None \<Rightarrow> 0 | Some (g, v) \<Rightarrow> g)"

lemma read_slot_error: "read_slot c s e = (Inl st, e') \<Longrightarrow> st \<noteq> PBNS_OK"
  by (auto simp: read_slot_def split: prod.splits if_splits)

lemma read_slot_value:
  assumes "slot_store c slots" and "read_slot c s e = (res, e')"
  shows "slots e' = slots e" and "res = Inr (ok, g, v) \<Longrightarrow> slot_value (slots e s) = (if ok then Some (g, v) else None)"
proof -
  obtain st rec present e1 where r: "the (slot_read c) e s (replicate 24 0) False = (st, rec, present, e1)" by (metis prod_cases4)
  have "slots e1 = slots e" "st = PBNS_OK \<Longrightarrow> (if present then slots e s = Some (filled (replicate 24 0) rec) else slots e s = None)"
    using assms(1) r unfolding slot_store_def by blast+
  then show "slots e' = slots e" and "res = Inr (ok, g, v) \<Longrightarrow> slot_value (slots e s) = (if ok then Some (g, v) else None)"
    using assms(2) by (auto simp: read_slot_def r PBNS_ANTI_ROLLBACK_RECORD_SIZE_def slot_value_def split: if_splits)
qed

definition nvram_controller :: "'e pbns_anti_rollback \<Rightarrow> bool" where
  "nvram_controller c \<longleftrightarrow> controller_valid (Some c) \<and> ar_assurance c = PBNS_ANTI_ROLLBACK_ASSURANCE_NVRAM_REDUCED"

lemma read_nvram_stored:
  assumes store: "slot_store c slots" and read: "read_nvram c zero_rollback_state e = (st, state, e')"
  shows "slots e' = slots e"
    and "st = PBNS_OK \<Longrightarrow> ar_version state = stored_version (slots e) \<and> ar_generation state = stored_generation (slots e) \<and>
      (if stored (slots e) = None then ar_active_slot state = PBNS_ANTI_ROLLBACK_NO_SLOT
       else ar_active_slot state < 2 \<and> slot_value (slots e (ar_active_slot state)) = stored (slots e))"
proof -
  obtain res0 e0 where r0: "read_slot c 0 e = (res0, e0)" by fastforce
  obtain res1 e1 where r1: "read_slot c (Suc 0) e0 = (res1, e1)" by fastforce
  note s0 = read_slot_value [OF store r0] and s1 = read_slot_value [OF store r1]
  show "slots e' = slots e"
    using read s0(1) s1(1) by (auto simp: read_nvram_def r0 r1 Let_def split: sum.splits if_splits)
  show "ar_version state = stored_version (slots e) \<and> ar_generation state = stored_generation (slots e) \<and>
      (if stored (slots e) = None then ar_active_slot state = PBNS_ANTI_ROLLBACK_NO_SLOT
       else ar_active_slot state < 2 \<and> slot_value (slots e (ar_active_slot state)) = stored (slots e))"
    if ok: "st = PBNS_OK"
  proof -
    have "res0 \<noteq> Inl PBNS_OK" "res1 \<noteq> Inl PBNS_OK" using r0 r1 read_slot_error by metis+
    then obtain a g v b h w where "res0 = Inr (a, g, v)" "res1 = Inr (b, h, w)"
      using read ok by (auto simp: read_nvram_def r0 r1 split: sum.splits)
    then have "slot_value (slots e 0) = (if a then Some (g, v) else None)" "slot_value (slots e (Suc 0)) = (if b then Some (h, w) else None)"
      and "read_nvram c zero_rollback_state e = (PBNS_OK, state, e')"
      using s0 s1 read ok by simp_all
    then show ?thesis
      using \<open>res0 = _\<close> \<open>res1 = _\<close>
      by (auto simp: read_nvram_def r0 r1 Let_def stored_def stored_version_def stored_generation_def zero_rollback_state_def split: if_splits)
  qed
qed

lemma rollback_read_stored:
  assumes store: "slot_store c slots" and "nvram_controller c" and read: "pbns_anti_rollback_read (Some c) (Some s0) e = (st, state, e')"
  shows "slots e' = slots e"
    and "st = PBNS_OK \<Longrightarrow> \<exists>s. state = Some s \<and> ar_version s = stored_version (slots e) \<and> ar_generation s = stored_generation (slots e) \<and>
      (if stored (slots e) = None then ar_active_slot s = PBNS_ANTI_ROLLBACK_NO_SLOT
       else ar_active_slot s < 2 \<and> slot_value (slots e (ar_active_slot s)) = stored (slots e))"
proof -
  obtain s where n: "read_nvram c zero_rollback_state e = (st, s, e')" and "state = Some s"
    using assms(2) read by (auto simp: pbns_anti_rollback_read_def nvram_controller_def split: prod.splits)
  then show "slots e' = slots e"
    and "st = PBNS_OK \<Longrightarrow> \<exists>s. state = Some s \<and> ar_version s = stored_version (slots e) \<and> ar_generation s = stored_generation (slots e) \<and>
      (if stored (slots e) = None then ar_active_slot s = PBNS_ANTI_ROLLBACK_NO_SLOT
       else ar_active_slot s < 2 \<and> slot_value (slots e (ar_active_slot s)) = stored (slots e))"
    using read_nvram_stored [OF store n] by simp_all
qed

text \<open>Writing the next generation to the slot that does not count changes the stored record to the new one or not at all.\<close>

lemma newest_next:
  assumes "g \<noteq> - 1" and "old = None \<and> g = 0 \<or> old = Some (g, v)"
  shows "newest old (Some (g + 1, w)) = Some (g + 1, w)" "newest (Some (g + 1, w)) old = Some (g + 1, w)"
proof -
  have "g < g + 1" using not_max_word [OF assms(1)] unat_add_nowrap [of g 1] by (simp add: word_less_nat_alt)
  then show "newest old (Some (g + 1, w)) = Some (g + 1, w)" "newest (Some (g + 1, w)) old = Some (g + 1, w)"
    using assms(2) by auto
qed

lemma slot_write_stored:
  assumes store: "slot_store c slots" and wr: "the (slot_write c) e s \<lparr>v_ptr = p, v_bytes = encode_record (g + 1) target\<rparr> = (st, e')"
    and "target \<noteq> 0" "g \<noteq> - 1" "s < 2"
    and old: "slot_value (slots e (1 - s)) = stored (slots e)" "stored (slots e) = None \<and> g = 0 \<or> (\<exists>v. stored (slots e) = Some (g, v))"
  shows "stored (slots e') = Some (g + 1, target) \<or> st \<noteq> PBNS_OK \<and> stored_version (slots e') = stored_version (slots e)"
proof -
  have pos: "0 < g + 1" "0 < target"
    using assms(3) not_max_word [OF assms(4)] unat_add_nowrap [of g 1] by (simp_all add: word_less_nat_alt unat_gt_0)
  have "1 - s \<noteq> s" using assms(5) by presburger
  have other: "slots e' (1 - s) = slots e (1 - s)"
    and own: "slots e' s = Some (encode_record (g + 1) target) \<or> st \<noteq> PBNS_OK \<and> (slots e' s = slots e s \<or> slot_value (slots e' s) = None)"
    using conjunct2 [OF store [unfolded slot_store_def], rule_format, OF conjI, OF wr] \<open>1 - s \<noteq> s\<close> by simp_all
  have new: "slot_value (Some (encode_record (g + 1) target)) = Some (g + 1, target)"
    using decode_encode_record [OF pos] by (simp add: slot_value_def)
  consider "slots e' s = Some (encode_record (g + 1) target)" | "slots e' s = slots e s" "st \<noteq> PBNS_OK"
    | "slot_value (slots e' s) = None" "st \<noteq> PBNS_OK" using own by argo
  then show ?thesis
  proof cases
    case 1
    have "s = 0 \<or> s = 1" using assms(5) by linarith
    moreover have "newest (stored (slots e)) (Some (g + 1, target)) = Some (g + 1, target)"
      "newest (Some (g + 1, target)) (stored (slots e)) = Some (g + 1, target)"
      using newest_next [OF assms(4)] old(2) by blast+
    ultimately show ?thesis using 1 new other old(1) by (auto simp: stored_def [of "slots e'"])
  next
    case 2
    then have "slots e' t = slots e t" if "t < 2" for t using other that assms(5) by (cases "t = s") (auto simp: less_2_cases_iff)
    then have "stored (slots e') = stored (slots e)" by (simp add: stored_def)
    then show ?thesis using 2 by (simp add: stored_version_def)
  next
    case 3
    have "newest None x = x" "newest x None = x" for x by (cases x; simp)+
    then have "stored (slots e') = stored (slots e)"
      using 3 other old(1) assms(5) by (auto simp: stored_def [of "slots e'"] less_2_cases_iff)
    then show ?thesis using 3 by (simp add: stored_version_def)
  qed
qed

lemma newest_None: "newest x y = None \<Longrightarrow> x = None \<and> y = None"
  by (induction x y rule: newest.induct) (auto split: if_splits)

lemma active_slot_value:
  assumes "slot_value (slots e a) = stored (slots e)" "a < 2"
  shows "slot_value (slots e (1 - (a XOR 1))) = stored (slots e) \<and> a XOR 1 < 2"
  using assms by (auto simp: less_2_cases_iff)

lemma advance_write_stored:
  assumes store: "slot_store c slots" and nv: "nvram_controller c"
    and r: "pbns_anti_rollback_read (Some c) (Some zero_rollback_state) e = (PBNS_OK, cur, e1)"
    and w: "advance_write c target auth (the cur) e1 = (wst, e2)" and "target \<noteq> 0"
  shows "stored (slots e2) = Some (stored_generation (slots e) + 1, target) \<or>
    wst \<noteq> PBNS_OK \<and> stored_version (slots e2) = stored_version (slots e)"
proof -
  note r1 = rollback_read_stored [OF store nv r]
  obtain s where s: "cur = Some s" "ar_generation s = stored_generation (slots e1)"
    and act: "if stored (slots e1) = None then ar_active_slot s = PBNS_ANTI_ROLLBACK_NO_SLOT
      else ar_active_slot s < 2 \<and> slot_value (slots e1 (ar_active_slot s)) = stored (slots e1)"
    using r1 by auto
  define i where "i = (if ar_active_slot s = PBNS_ANTI_ROLLBACK_NO_SLOT then 0 else ar_active_slot s XOR 1)"
  consider "wst \<noteq> PBNS_OK" "e2 = e1" | "ar_generation s \<noteq> - 1"
      "the (slot_write c) e1 i \<lparr>v_ptr = 1, v_bytes = encode_record (ar_generation s + 1) target\<rparr> = (wst, e2)"
    using w nv by (auto simp: advance_write_def nvram_controller_def s(1) Let_def i_def split: if_splits)
  then show ?thesis
  proof cases
    case 2
    have i: "i < 2" "slot_value (slots e1 (1 - i)) = stored (slots e1)"
      using act active_slot_value [of slots e1 "ar_active_slot s"] newest_None [of "slot_value (slots e1 0)" "slot_value (slots e1 1)"]
      by (auto simp: i_def stored_def PBNS_ANTI_ROLLBACK_NO_SLOT_def SIZE_MAX_def split: if_splits)
    have "stored (slots e1) = None \<and> ar_generation s = 0 \<or> (\<exists>v. stored (slots e1) = Some (ar_generation s, v))"
      using s(2) by (auto simp: stored_generation_def split: option.splits)
    then show ?thesis
      using slot_write_stored [OF store 2(2) assms(5) 2(1) i(1,2)] s(2) r1(1) by simp
  qed (use r1(1) in simp)
qed

text \<open>One advance: the stored version is kept or becomes the target, and the latter if it succeeds.\<close>

lemma rollback_advance_stored:
  assumes store: "slot_store c slots" and nv: "nvram_controller c"
    and adv: "pbns_anti_rollback_advance (Some c) target auth state e = (st, state', e')"
  shows "stored_version (slots e') = stored_version (slots e) \<or>
      stored_version (slots e') = target \<and> stored_version (slots e) < target"
    and "st = PBNS_OK \<Longrightarrow> stored_version (slots e') = target \<and> stored_version (slots e) < target \<and>
      stored_generation (slots e') = stored_generation (slots e) + 1 \<and> (\<exists>s. state' = Some s \<and> ar_version s = target)"
proof -
  obtain rst cur e1 where r: "pbns_anti_rollback_read (Some c) (Some zero_rollback_state) e = (rst, cur, e1)" by (metis prod_cases3)
  obtain wst e2 where w: "advance_write c target auth (the cur) e1 = (wst, e2)" by fastforce
  obtain vst ver e3 where v: "pbns_anti_rollback_read (Some c) (Some zero_rollback_state) e2 = (vst, ver, e3)" by (metis prod_cases3)
  note r1 = rollback_read_stored [OF store nv r] and v1 = rollback_read_stored [OF store nv v]
  have same: "slots e1 = slots e" "slots e3 = slots e2" using r1(1) v1(1) by simp_all
  let ?done = "stored (slots e2) = Some (stored_generation (slots e) + 1, target)"
  have written: "?done \<or> wst \<noteq> PBNS_OK \<and> stored_version (slots e2) = stored_version (slots e)" if "rst = PBNS_OK" "target \<noteq> 0"
    using advance_write_stored [OF store nv _ w] r that by simp
  have greater: "stored_version (slots e) < target" if "rst = PBNS_OK" "\<not> target \<le> ar_version (the cur)"
    using r1(2) that by auto
  have stored: "stored_version (slots e2) = target" "stored_generation (slots e2) = stored_generation (slots e) + 1" if ?done
    using that by (simp_all add: stored_version_def stored_generation_def)
  note run = adv [unfolded pbns_anti_rollback_advance_def Let_def, simplified, unfolded r w v, simplified]
  show "stored_version (slots e') = stored_version (slots e) \<or>
      stored_version (slots e') = target \<and> stored_version (slots e) < target"
    using run written greater stored same r w v by (auto simp: r w v split: if_splits prod.splits)
  show "st = PBNS_OK \<Longrightarrow> stored_version (slots e') = target \<and> stored_version (slots e) < target \<and>
      stored_generation (slots e') = stored_generation (slots e) + 1 \<and> (\<exists>s. state' = Some s \<and> ar_version s = target)"
    using run written greater stored same v1(2) by (auto simp: r w v split: if_splits prod.splits)
qed

text \<open>Any sequence of calls on the controller, with the targets of the advances that succeeded.\<close>

inductive rollback_run :: "'e pbns_anti_rollback \<Rightarrow> 'e \<Rightarrow> u64 list \<Rightarrow> 'e \<Rightarrow> bool" for c e0 where
  start: "rollback_run c e0 [] e0"
| reads: "rollback_run c e0 vs e \<Longrightarrow> pbns_anti_rollback_read (Some c) state e = (st, state', e') \<Longrightarrow> rollback_run c e0 vs e'"
| advances: "rollback_run c e0 vs e \<Longrightarrow> pbns_anti_rollback_advance (Some c) target auth state e = (st, state', e') \<Longrightarrow>
    rollback_run c e0 (if st = PBNS_OK then vs @ [target] else vs) e'"

text \<open>C12: the version held by the NVRAM slots never decreases.  Over any sequence of reads and advances,
  successful or not, with slots that may be torn by a failed write, the versions of the successful
  advances increase strictly, each is greater than the version at the start, and the version stored at
  the end is at least the last of them.
\<close>

theorem rollback_version_monotone:
  assumes "slot_store c slots" and "nvram_controller c" and "rollback_run c e0 vs e"
  shows "stored_version (slots e0) \<le> stored_version (slots e) \<and> sorted_wrt (<) vs \<and>
    (\<forall>v\<in>set vs. stored_version (slots e0) < v \<and> v \<le> stored_version (slots e))"
  using assms(3)
proof induction
  case start
  then show ?case by simp
next
  case (reads vs e state st state' e')
  have "slots e' = slots e"
    using reads.hyps(2) rollback_read_stored(1) [OF assms(1,2)] by (cases state) (auto simp: pbns_anti_rollback_read_def)
  then show ?case using reads.IH by simp
next
  case (advances vs e target auth state st state' e')
  note step = rollback_advance_stored [OF assms(1,2) advances.hyps(2)]
  have le: "stored_version (slots e) \<le> stored_version (slots e')" using step(1) by auto
  show ?case
  proof (cases "st = PBNS_OK")
    case True
    then have "stored_version (slots e') = target" "stored_version (slots e) < target" using step(2) by simp_all
    then show ?thesis using advances.IH True by (auto simp: sorted_wrt_append intro: le_less_trans order.strict_implies_order)
  next
    case False
    then show ?thesis using advances.IH le by (auto intro: order.trans)
  qed
qed


section \<open>Witnesses\<close>

definition example_nvram :: "(nat \<Rightarrow> bytes option) pbns_anti_rollback" where
  "example_nvram = zero_rollback\<lparr>ar_assurance := PBNS_ANTI_ROLLBACK_ASSURANCE_NVRAM_REDUCED,
     slot_read := Some (\<lambda>e s rec present. (PBNS_OK, (case e s of None \<Rightarrow> rec | Some r \<Rightarrow> r), e s \<noteq> None, e)),
     slot_write := Some (\<lambda>e s v. (PBNS_OK, e(s \<mapsto> v_bytes v)))\<rparr>"

definition example_slots :: "(nat \<Rightarrow> bytes option) \<Rightarrow> nat \<Rightarrow> bytes option" where
  "example_slots e s = map_option (filled (replicate 24 0)) (e s)"

lemma example_nvram_laws: "slot_store example_nvram example_slots" "nvram_controller example_nvram"
  by (auto simp: slot_store_def example_nvram_def example_slots_def filled_fits nvram_controller_def controller_valid_def zero_rollback_def)

lemma example_advance:
  "pbns_anti_rollback_advance (Some example_nvram) 5 null_view (Some zero_rollback_state) Map.empty =
     (PBNS_OK, Some \<lparr>ar_version = 5, ar_generation = 1, ar_active_slot = 0,
        ar_state_assurance = PBNS_ANTI_ROLLBACK_ASSURANCE_NVRAM_REDUCED\<rparr>, [0 \<mapsto> encode_record 1 5])"
  using decode_encode_record [of 1 5]
  by (simp add: pbns_anti_rollback_advance_def pbns_anti_rollback_read_def read_nvram_def read_slot_def advance_write_def Let_def
      example_nvram_def zero_rollback_def controller_valid_def zero_rollback_state_def null_view_def view_is_valid_def filled_fits
      PBNS_ANTI_ROLLBACK_RECORD_SIZE_def PBNS_ANTI_ROLLBACK_AUTHORIZATION_MAX_SIZE_def PBNS_ANTI_ROLLBACK_NO_SLOT_def)

theorem rollback_record_canonical_witness:
  "decode_record (encode_record 1 5) 0 0 = (True, 1, 5)"
  using rollback_record_canonical [of "encode_record 1 5" 0 0 1 5] by (simp add: PBNS_ANTI_ROLLBACK_RECORD_SIZE_def)

theorem rollback_version_monotone_witness:
  "rollback_run example_nvram Map.empty [5] [0 \<mapsto> encode_record 1 5] \<and> stored_version (example_slots [0 \<mapsto> encode_record 1 5]) \<ge> 5"
proof -
  have run: "rollback_run example_nvram Map.empty [5] [0 \<mapsto> encode_record 1 5]"
    using advances [OF start example_advance] by simp
  show ?thesis using rollback_version_monotone [OF example_nvram_laws run] run by simp
qed



end
