(* ===== verification/Recovery_Stream.thy ===== *)
theory Recovery_Stream
  imports Frame
begin

text \<open>
  The receiver of a recovery image, src/src/core/recovery_stream.c: chunks of fixed size are written to
  the caller's pages and fed to a hash, whose digest is compared at the end.  The hash is a record of
  callbacks on an environment \<open>'e\<close>.  A completed stream is shown to hold exactly the concatenation of
  the accepted chunks, with the expected digest.
\<close>

section \<open>Types\<close>

definition PBNS_RECOVERY_MANIFEST_DIGEST_SIZE :: nat where "PBNS_RECOVERY_MANIFEST_DIGEST_SIZE = 32"
definition PBNS_RECOVERY_MANIFEST_CHUNK_SIZE :: nat where "PBNS_RECOVERY_MANIFEST_CHUNK_SIZE = 16384"
definition PBNS_RECOVERY_MANIFEST_IMAGE_MAX :: nat where "PBNS_RECOVERY_MANIFEST_IMAGE_MAX = 268435456"
definition PBNS_RECOVERY_ACK_WINDOW :: u32 where "PBNS_RECOVERY_ACK_WINDOW = 8"

lemmas recovery_constants = PBNS_RECOVERY_MANIFEST_DIGEST_SIZE_def PBNS_RECOVERY_MANIFEST_CHUNK_SIZE_def
  PBNS_RECOVERY_MANIFEST_IMAGE_MAX_def PBNS_RECOVERY_ACK_WINDOW_def

record 'e pbns_recovery_hash_ops =
  h_begin :: "('e \<Rightarrow> pbns_status \<times> 'e) option"
  h_update :: "('e \<Rightarrow> pbns_view \<Rightarrow> pbns_status \<times> 'e) option"
  h_finish :: "('e \<Rightarrow> bytes \<Rightarrow> pbns_status \<times> bytes \<times> 'e) option"
  h_clear :: "('e \<Rightarrow> 'e) option"

record pbns_recovery_ack =
  ack_required :: bool
  ack_next_sequence :: u32
  ack_window :: u32

text \<open>\<open>rs_pages\<close> is the address of the pages and \<open>rs_mem\<close> their contents, whose length is the image size.\<close>

record 'e pbns_recovery_stream =
  rs_request_id :: pbns_request_id
  rs_pages :: nat
  rs_mem :: bytes
  rs_offset :: nat
  rs_expected_digest :: bytes
  rs_next_sequence :: u32
  rs_records_since_ack :: u32
  rs_hash_ops :: "'e pbns_recovery_hash_ops ptr"
  rs_hash_active :: bool
  rs_initialized :: bool
  rs_complete :: bool
  rs_failed :: bool

abbreviation rs_image_size :: "'e pbns_recovery_stream \<Rightarrow> nat" where
  "rs_image_size s \<equiv> length (rs_mem s)"

definition zero_ack :: pbns_recovery_ack where
  "zero_ack = \<lparr>ack_required = False, ack_next_sequence = 0, ack_window = 0\<rparr>"

definition zero_recovery_stream :: "'e pbns_recovery_stream" where
  "zero_recovery_stream = \<lparr>rs_request_id = zero_request_id, rs_pages = 0, rs_mem = [], rs_offset = 0,
     rs_expected_digest = replicate PBNS_RECOVERY_MANIFEST_DIGEST_SIZE 0, rs_next_sequence = 0, rs_records_since_ack = 0,
     rs_hash_ops = None, rs_hash_active = False, rs_initialized = False, rs_complete = False, rs_failed = False\<rparr>"

section \<open>Operations\<close>

definition difference :: "bytes \<Rightarrow> bytes \<Rightarrow> nat \<Rightarrow> byte" where
  "difference left right n = foldl (\<lambda>d i. d OR (left ! i XOR right ! i)) 0 [0..<n]"

definition request_equal :: "pbns_request_id \<Rightarrow> pbns_request_id \<Rightarrow> bool" where
  "request_equal left right \<longleftrightarrow> difference left right PBNS_REQUEST_ID_SIZE = 0"

definition digest_equal :: "bytes \<Rightarrow> bytes \<Rightarrow> bool" where
  "digest_equal left right \<longleftrightarrow> difference left right PBNS_RECOVERY_MANIFEST_DIGEST_SIZE = 0"

definition digest_nonzero :: "bytes \<Rightarrow> bool" where
  "digest_nonzero digest \<longleftrightarrow> foldl (\<lambda>c i. c OR digest ! i) 0 [0..<PBNS_RECOVERY_MANIFEST_DIGEST_SIZE] \<noteq> 0"

definition recovery_fail :: "'e pbns_recovery_stream \<Rightarrow> 'e \<Rightarrow> 'e pbns_recovery_stream \<times> 'e" where
  "recovery_fail stream e =
     (let stream = stream\<lparr>rs_failed := True\<rparr> in
      if rs_hash_active stream \<and> rs_hash_ops stream \<noteq> None \<and> h_clear (the (rs_hash_ops stream)) \<noteq> None
      then (stream\<lparr>rs_hash_active := False\<rparr>, the (h_clear (the (rs_hash_ops stream))) e)
      else (stream, e))"

definition recovery_validate_frame :: "'e pbns_recovery_stream \<Rightarrow> pbns_frame \<Rightarrow> pbns_status" where
  "recovery_validate_frame stream frame =
     (if f_service frame \<noteq> PBNS_SERVICE_RECOVERY_ARTIFACT then PBNS_ERR_SERVICE
      else if \<not> request_equal (f_request_id frame) (rs_request_id stream) then PBNS_ERR_STATE
      else if f_flags frame \<noteq> 0 then PBNS_ERR_FORMAT
      else if f_sequence frame \<noteq> rs_next_sequence stream \<or> rs_next_sequence stream = - 1 then PBNS_ERR_SEQUENCE
      else PBNS_OK)"

definition pbns_recovery_stream_init ::
    "'e pbns_recovery_stream ptr \<Rightarrow> pbns_request_id \<Rightarrow> pbns_buffer \<Rightarrow> bytes ptr \<Rightarrow> 'e pbns_recovery_hash_ops ptr \<Rightarrow> 'e \<Rightarrow>
     pbns_status \<times> 'e pbns_recovery_stream ptr \<times> 'e" where
  "pbns_recovery_stream_init stream request_id exact_pages expected_digest hash_ops e =
     (let stream = map_option (\<lambda>_. zero_recovery_stream) stream in
      if stream = None \<or> b_ptr exact_pages = 0 \<or> b_len exact_pages \<noteq> 0 \<or> b_cap exact_pages = 0 \<or>
         b_cap exact_pages > PBNS_RECOVERY_MANIFEST_IMAGE_MAX \<or> expected_digest = None \<or>
         \<not> digest_nonzero (the expected_digest) \<or> hash_ops = None \<or> h_begin (the hash_ops) = None \<or>
         h_update (the hash_ops) = None \<or> h_finish (the hash_ops) = None \<or> h_clear (the hash_ops) = None
      then (PBNS_ERR_ARGUMENT, stream, e)
      else
        case the (h_begin (the hash_ops)) e of
          (status, e) \<Rightarrow>
          if status \<noteq> PBNS_OK then (status, stream, the (h_clear (the hash_ops)) e)
          else (PBNS_OK,
                Some ((the stream)\<lparr>rs_request_id := request_id, rs_pages := b_ptr exact_pages, rs_mem := b_mem exact_pages,
                        rs_expected_digest := the expected_digest, rs_hash_ops := hash_ops,
                        rs_hash_active := True, rs_initialized := True\<rparr>), e))"

definition pbns_recovery_stream_accept ::
    "'e pbns_recovery_stream ptr \<Rightarrow> pbns_frame ptr \<Rightarrow> pbns_view \<Rightarrow> pbns_recovery_ack ptr \<Rightarrow> 'e \<Rightarrow>
     pbns_status \<times> 'e pbns_recovery_stream ptr \<times> pbns_recovery_ack ptr \<times> 'e" where
  "pbns_recovery_stream_accept stream frame payload ack e =
     (let ack = map_option (\<lambda>_. zero_ack) ack in
      if stream = None \<or> frame = None \<or> \<not> view_is_valid payload \<or> ack = None then (PBNS_ERR_ARGUMENT, stream, ack, e)
      else
        let s = the stream; f = the frame;
            fail = (\<lambda>status e. case recovery_fail s e of (s, e) \<Rightarrow> (status, Some s, ack, e)) in
        if \<not> rs_initialized s \<or> rs_complete s \<or> rs_failed s then (PBNS_ERR_STATE, stream, ack, e)
        else if recovery_validate_frame s f \<noteq> PBNS_OK then fail (recovery_validate_frame s f) e
        else if f_type f = PBNS_MESSAGE_CANCEL \<or> f_type f = PBNS_MESSAGE_ERROR then fail PBNS_ERR_TRANSPORT e
        else if f_type f \<noteq> PBNS_MESSAGE_DATA then fail PBNS_ERR_MESSAGE_TYPE e
        else if v_len payload = 0 \<or> v_len payload > PBNS_RECOVERY_MANIFEST_CHUNK_SIZE \<or> rs_offset s > rs_image_size s
        then fail PBNS_ERR_FORMAT e
        else
          let remaining = rs_image_size s - rs_offset s;
              expected = (if remaining > PBNS_RECOVERY_MANIFEST_CHUNK_SIZE then PBNS_RECOVERY_MANIFEST_CHUNK_SIZE else remaining)
          in if expected = 0 \<or> v_len payload \<noteq> expected then fail PBNS_ERR_FORMAT e
             else
               case the (h_update (the (rs_hash_ops s))) e payload of
                 (status, e) \<Rightarrow>
                 if status \<noteq> PBNS_OK then fail status e
                 else
                   let s = s\<lparr>rs_mem := store_at (rs_mem s) (rs_offset s) (v_bytes payload),
                             rs_offset := rs_offset s + v_len payload,
                             rs_next_sequence := rs_next_sequence s + 1,
                             rs_records_since_ack := rs_records_since_ack s + 1\<rparr>
                   in if rs_records_since_ack s = PBNS_RECOVERY_ACK_WINDOW
                      then (PBNS_OK, Some (s\<lparr>rs_records_since_ack := 0\<rparr>),
                            Some \<lparr>ack_required = True, ack_next_sequence = rs_next_sequence s,
                                  ack_window = PBNS_RECOVERY_ACK_WINDOW\<rparr>, e)
                      else (PBNS_OK, Some s, ack, e))"

definition pbns_recovery_stream_complete ::
    "'e pbns_recovery_stream ptr \<Rightarrow> pbns_frame ptr \<Rightarrow> pbns_view \<Rightarrow> 'e \<Rightarrow> pbns_status \<times> 'e pbns_recovery_stream ptr \<times> 'e" where
  "pbns_recovery_stream_complete stream frame payload e =
     (if stream = None \<or> frame = None \<or> \<not> view_is_valid payload then (PBNS_ERR_ARGUMENT, stream, e)
      else
        let s = the stream; f = the frame;
            fail = (\<lambda>status e. case recovery_fail s e of (s, e) \<Rightarrow> (status, Some s, e)) in
        if \<not> rs_initialized s \<or> rs_complete s \<or> rs_failed s then (PBNS_ERR_STATE, stream, e)
        else if recovery_validate_frame s f \<noteq> PBNS_OK then fail (recovery_validate_frame s f) e
        else if f_type f \<noteq> PBNS_MESSAGE_COMPLETE \<or> v_len payload \<noteq> 0 then fail PBNS_ERR_MESSAGE_TYPE e
        else if rs_offset s \<noteq> rs_image_size s then fail PBNS_ERR_STATE e
        else
          case the (h_finish (the (rs_hash_ops s))) e (replicate PBNS_RECOVERY_MANIFEST_DIGEST_SIZE 0) of
            (status, digest, e) \<Rightarrow>
            if status \<noteq> PBNS_OK then fail status e
            else if \<not> digest_equal digest (rs_expected_digest s) then fail PBNS_ERR_AUTHENTICATION e
            else (PBNS_OK, Some (s\<lparr>rs_hash_active := False, rs_next_sequence := rs_next_sequence s + 1, rs_complete := True\<rparr>),
                  the (h_clear (the (rs_hash_ops s))) e))"

text \<open>The second result is what the reset leaves in the caller's pages.\<close>

definition pbns_recovery_stream_reset :: "'e pbns_recovery_stream ptr \<Rightarrow> 'e \<Rightarrow> 'e pbns_recovery_stream ptr \<times> bytes \<times> 'e" where
  "pbns_recovery_stream_reset stream e =
     (case stream of
        None \<Rightarrow> (None, [], e)
      | Some s \<Rightarrow>
        let mem = (if rs_pages s \<noteq> 0 \<and> rs_image_size s > 0 then replicate (rs_image_size s) 0 else rs_mem s);
            e = (if rs_hash_active s \<and> rs_hash_ops s \<noteq> None \<and> h_clear (the (rs_hash_ops s)) \<noteq> None
                 then the (h_clear (the (rs_hash_ops s))) e else e)
        in (Some zero_recovery_stream, mem, e))"

section \<open>Hashes\<close>

text \<open>
  \<open>hash_laws H absorbed digest_of\<close>: the hash callbacks compute \<open>digest_of\<close> of what was absorbed since
  the begin.
\<close>

definition hash_laws :: "'e pbns_recovery_hash_ops \<Rightarrow> ('e \<Rightarrow> bytes) \<Rightarrow> (bytes \<Rightarrow> bytes) \<Rightarrow> bool" where
  "hash_laws H absorbed digest_of \<longleftrightarrow>
     (\<forall>e e'. the (h_begin H) e = (PBNS_OK, e') \<longrightarrow> absorbed e' = []) \<and>
     (\<forall>e v e'. the (h_update H) e v = (PBNS_OK, e') \<longrightarrow> absorbed e' = absorbed e @ v_bytes v) \<and>
     (\<forall>e d d' e'. the (h_finish H) e d = (PBNS_OK, d', e') \<longrightarrow> d' = digest_of (absorbed e)) \<and>
     (\<forall>bs. length (digest_of bs) = PBNS_RECOVERY_MANIFEST_DIGEST_SIZE)"

lemma xor_zero: "a XOR b = (0 :: byte) \<longleftrightarrow> a = b"
  by (metis xor.assoc xor.left_neutral xor_self_eq)

lemma difference_zero: "difference left right n = 0 \<longleftrightarrow> (\<forall>i<n. left ! i = right ! i)"
proof -
  have "foldl (\<lambda>d i. d OR (left ! i XOR right ! i)) a [0..<n] = 0 \<longleftrightarrow> a = 0 \<and> (\<forall>i<n. left ! i = right ! i)" for a
    by (induction n) (auto simp: or_eq_0_iff xor_zero less_Suc_eq)
  then show ?thesis by (simp add: difference_def)
qed

lemma digest_equal_eq:
  "length left = 32 \<Longrightarrow> length right = 32 \<Longrightarrow> digest_equal left right \<longleftrightarrow> left = right"
  by (auto simp: digest_equal_def difference_zero recovery_constants list_eq_iff_nth_eq)

section \<open>Streams\<close>

text \<open>
  A stream in use: started on pages, a digest and a hash, then any frames accepted or refused.  \<open>ds\<close>
  are the payloads of the accepted ones.
\<close>

inductive recovery_session ::
    "'e pbns_recovery_hash_ops \<Rightarrow> pbns_buffer \<Rightarrow> bytes \<Rightarrow> 'e pbns_recovery_stream \<Rightarrow> 'e \<Rightarrow> bytes list \<Rightarrow> bool" for H pages digest where
  started: "pbns_recovery_stream_init (Some s0) rid pages (Some digest) (Some H) e0 = (PBNS_OK, Some s, e) \<Longrightarrow>
    recovery_session H pages digest s e []"
| received: "recovery_session H pages digest s e ds \<Longrightarrow>
    pbns_recovery_stream_accept (Some s) (Some f) payload (Some a) e = (st, Some s', a', e') \<Longrightarrow>
    recovery_session H pages digest s' e' (if st = PBNS_OK then ds @ [v_bytes payload] else ds)"

definition stream_holds :: "'e pbns_recovery_hash_ops \<Rightarrow> ('e \<Rightarrow> bytes) \<Rightarrow> pbns_buffer \<Rightarrow> bytes \<Rightarrow> 'e pbns_recovery_stream \<Rightarrow> 'e \<Rightarrow> bytes list \<Rightarrow> bool" where
  "stream_holds H absorbed pages digest s e ds \<longleftrightarrow>
     rs_initialized s \<and> \<not> rs_complete s \<and> rs_hash_ops s = Some H \<and> rs_expected_digest s = digest \<and> rs_image_size s = b_cap pages \<and>
     rs_offset s = length (concat ds) \<and> rs_offset s \<le> rs_image_size s \<and> take (rs_offset s) (rs_mem s) = concat ds \<and>
     unat (rs_next_sequence s) = length ds \<and> unat (rs_records_since_ack s) = length ds mod 8 \<and>
     (\<forall>d\<in>set (butlast ds). length d = 16384) \<and> (ds = [] \<or> length (last ds) = 16384 \<or> rs_offset s = rs_image_size s) \<and> (\<not> rs_failed s \<longrightarrow> absorbed e = concat ds)"

lemma recovery_fail_result: "recovery_fail s e = (s', e') \<Longrightarrow> \<exists>h. s' = s\<lparr>rs_failed := True, rs_hash_active := h\<rparr>"
  by (cases s) (auto simp: recovery_fail_def Let_def split: if_splits)

lemma accept_refused:
  assumes "pbns_recovery_stream_accept (Some s) (Some f) payload (Some a) e = (st, Some s', a', e')" and "st \<noteq> PBNS_OK"
  shows "s' = s \<and> e' = e \<or> (\<exists>h. s' = s\<lparr>rs_failed := True, rs_hash_active := h\<rparr>)"
  using assms by (auto simp: pbns_recovery_stream_accept_def Let_def dest!: recovery_fail_result split: if_splits prod.splits)

lemma accept_ok:
  assumes "pbns_recovery_stream_accept (Some s) (Some f) payload (Some a) e = (PBNS_OK, Some s', a', e')"
  shows "\<not> rs_failed s" "recovery_validate_frame s f = PBNS_OK" "f_type f = PBNS_MESSAGE_DATA"
    and "0 < v_len payload" "v_len payload \<le> 16384" "rs_offset s + v_len payload \<le> rs_image_size s"
    and "v_len payload = 16384 \<or> rs_offset s + v_len payload = rs_image_size s"
    and "the (h_update (the (rs_hash_ops s))) e payload = (PBNS_OK, e')"
    and "s' = s\<lparr>rs_mem := store_at (rs_mem s) (rs_offset s) (v_bytes payload), rs_offset := rs_offset s + v_len payload,
      rs_next_sequence := rs_next_sequence s + 1,
      rs_records_since_ack := (if rs_records_since_ack s + 1 = 8 then 0 else rs_records_since_ack s + 1)\<rparr>"
    and "a' = Some (if rs_records_since_ack s + 1 = 8
      then \<lparr>ack_required = True, ack_next_sequence = rs_next_sequence s + 1, ack_window = 8\<rparr> else zero_ack)"
  using assms
  by (auto simp: pbns_recovery_stream_accept_def Let_def recovery_constants split: if_splits prod.splits)

lemma validate_sequence:
  "recovery_validate_frame s f = PBNS_OK \<Longrightarrow> f_sequence f = rs_next_sequence s \<and> rs_next_sequence s \<noteq> - 1"
  by (auto simp: recovery_validate_frame_def split: if_splits)

lemma unat_succ: "(x :: u32) \<noteq> - 1 \<Longrightarrow> unat (x + 1) = unat x + 1"
  using not_max_word [of x] unat_add_nowrap [of x 1] by simp

lemma ack_counter:
  assumes "unat (r :: u32) = n mod 8"
  shows "r + 1 = 8 \<longleftrightarrow> (n + 1) mod 8 = 0" "unat (if r + 1 = 8 then 0 else r + 1) = (n + 1) mod 8"
proof -
  have "unat (r + 1) = n mod 8 + 1" using assms unat_add_nowrap [of r 1] by (simp add: mod_less_divisor [THEN less_trans])
  moreover have "r + 1 = 8 \<longleftrightarrow> unat (r + 1) = 8" by (simp add: word_unat_eq_iff)
  ultimately show "r + 1 = 8 \<longleftrightarrow> (n + 1) mod 8 = 0" "unat (if r + 1 = 8 then 0 else r + 1) = (n + 1) mod 8"
    by (simp_all, presburger+)
qed

lemma stream_holds_started:
  assumes "pbns_recovery_stream_init (Some s0) rid pages (Some digest) (Some H) e0 = (PBNS_OK, Some s, e)" and "hash_laws H absorbed digest_of"
  shows "stream_holds H absorbed pages digest s e []"
  using assms
  by (auto simp: pbns_recovery_stream_init_def zero_recovery_stream_def stream_holds_def hash_laws_def Let_def split: if_splits prod.splits)

lemma stream_holds_accepted:
  assumes inv: "stream_holds H absorbed pages digest s e ds" and laws: "hash_laws H absorbed digest_of"
    and acc: "pbns_recovery_stream_accept (Some s) (Some f) payload (Some a) e = (PBNS_OK, Some s', a', e')"
  shows "stream_holds H absorbed pages digest s' e' (ds @ [v_bytes payload])"
proof -
  note ok = accept_ok [OF acc] and st = inv [unfolded stream_holds_def]
  have held: "take (rs_offset s) (rs_mem s) = concat ds" using st by blast
  have "absorbed e' = absorbed e @ v_bytes payload" using laws ok(8) st unfolding hash_laws_def by auto
  moreover have "take (rs_offset s + v_len payload) (store_at (rs_mem s) (rs_offset s) (v_bytes payload)) = concat ds @ v_bytes payload"
    using take_store_at [of "rs_offset s" "v_bytes payload" "rs_mem s"] ok(6) held by simp
  moreover have "\<forall>d\<in>set (butlast (ds @ [v_bytes payload])). length d = 16384"
    using st ok(4,6) by (cases ds rule: rev_cases) (auto simp: butlast_append)
  moreover have "unat (rs_next_sequence s + 1) = length (ds @ [v_bytes payload])"
    using unat_succ validate_sequence [OF ok(2)] st by simp
  moreover have "unat (if rs_records_since_ack s + 1 = 8 then 0 else rs_records_since_ack s + 1) = length (ds @ [v_bytes payload]) mod 8"
    using ack_counter(2) st by simp
  ultimately show ?thesis
    using st ok(1,4,6,7) unfolding ok(9) stream_holds_def by auto
qed

lemma recovery_session_holds:
  assumes "recovery_session H pages digest s e ds" and laws: "hash_laws H absorbed digest_of"
  shows "stream_holds H absorbed pages digest s e ds"
  using assms(1)
proof induction
  case (started s0 rid e0 s e)
  then show ?case using stream_holds_started [OF _ laws] by simp
next
  case (received s e ds f payload a st s' a' e')
  show ?case
  proof (cases "st = PBNS_OK")
    case True
    then show ?thesis using stream_holds_accepted [OF received.IH laws] received.hyps(2) by simp
  next
    case False
    then show ?thesis using accept_refused [OF received.hyps(2)] received.IH by (auto simp: stream_holds_def)
  qed
qed

lemma complete_delivers:
  assumes inv: "stream_holds H absorbed pages digest s e ds" and laws: "hash_laws H absorbed digest_of" and "length digest = 32"
    and c: "pbns_recovery_stream_complete (Some s) (Some f) p e = (PBNS_OK, Some s', e')"
  shows "rs_complete s' \<and> rs_mem s' = concat ds \<and> length (concat ds) = b_cap pages \<and> digest_of (concat ds) = digest"
proof -
  note st = inv [unfolded stream_holds_def]
  have held: "take (rs_offset s) (rs_mem s) = concat ds" "rs_offset s = length (concat ds)" "rs_image_size s = b_cap pages" using st by blast+
  obtain hst d e1 where fin: "the (h_finish H) e (replicate 32 0) = (hst, d, e1)" by (metis prod_cases3)
  have ok: "\<not> rs_failed s" "rs_offset s = rs_image_size s" "hst = PBNS_OK" "digest_equal d digest" "rs_mem s' = rs_mem s" "rs_complete s'"
    using c st fin by (auto simp: pbns_recovery_stream_complete_def Let_def recovery_constants split: if_splits prod.splits)
  have "d = digest_of (concat ds)" using laws fin ok(1,3) st unfolding hash_laws_def by metis
  moreover have "length d = 32" using calculation laws by (simp add: hash_laws_def recovery_constants)
  ultimately have "digest_of (concat ds) = digest" using ok(4) assms(3) digest_equal_eq by metis
  then show ?thesis using ok held by simp
qed

lemma accept_reports:
  assumes inv: "stream_holds H absorbed pages digest s e ds"
    and acc: "pbns_recovery_stream_accept (Some s) (Some f) p (Some a) e = (PBNS_OK, Some s', Some a', e')"
  shows "f_type f = PBNS_MESSAGE_DATA \<and> unat (f_sequence f) = length ds \<and> (ack_required a' \<longleftrightarrow> 8 dvd length ds + 1) \<and>
    (ack_required a' \<longrightarrow> unat (ack_next_sequence a') = length ds + 1 \<and> ack_window a' = 8)"
proof -
  note ok = accept_ok [OF acc]
  have seq: "unat (rs_next_sequence s) = length ds" and ctr: "unat (rs_records_since_ack s) = length ds mod 8"
    using inv unfolding stream_holds_def by blast+
  show ?thesis
    using ok(3,10) ack_counter(1) [OF ctr] seq validate_sequence [OF ok(2)] unat_succ [of "rs_next_sequence s"]
    by (auto simp: zero_ack_def dvd_eq_mod_eq_0 split: if_splits)
qed

text \<open>C13: a recovery image is delivered whole.  Whatever frames a started stream has been given, when the
  completion succeeds the pages hold exactly the concatenation of the accepted payloads, as long as
  announced, with the expected digest; every accepted payload but the last is a full chunk; each accepted
  frame carries the next sequence number; and an acknowledgement is asked for exactly after every eighth
  of them, with the number of the next one.
\<close>

theorem recovery_stream_exact:
  assumes run: "recovery_session H pages digest s e ds" and laws: "hash_laws H absorbed digest_of" and "length digest = 32"
  shows "(\<forall>d\<in>set (butlast ds). length d = 16384) \<and>
    (\<forall>f p s' e'. pbns_recovery_stream_complete (Some s) (Some f) p e = (PBNS_OK, Some s', e') \<longrightarrow>
       rs_complete s' \<and> rs_mem s' = concat ds \<and> length (concat ds) = b_cap pages \<and> digest_of (concat ds) = digest) \<and>
    (\<forall>f p a s' a' e'. pbns_recovery_stream_accept (Some s) (Some f) p (Some a) e = (PBNS_OK, Some s', Some a', e') \<longrightarrow>
       f_type f = PBNS_MESSAGE_DATA \<and> unat (f_sequence f) = length ds \<and> (ack_required a' \<longleftrightarrow> 8 dvd length ds + 1) \<and>
       (ack_required a' \<longrightarrow> unat (ack_next_sequence a') = length ds + 1 \<and> ack_window a' = 8))"
proof -
  note inv = recovery_session_holds [OF run laws]
  have "\<forall>d\<in>set (butlast ds). length d = 16384" using inv unfolding stream_holds_def by blast
  then show ?thesis using complete_delivers [OF inv laws assms(3)] accept_reports [OF inv] by blast
qed

section \<open>Witness\<close>

definition example_hash :: "bytes pbns_recovery_hash_ops" where
  "example_hash = \<lparr>h_begin = Some (\<lambda>e. (PBNS_OK, [])), h_update = Some (\<lambda>e v. (PBNS_OK, e @ v_bytes v)),
     h_finish = Some (\<lambda>e d. (PBNS_OK, replicate 32 (of_nat (length e)), e)), h_clear = Some (\<lambda>e. [])\<rparr>"

definition example_pages :: pbns_buffer where
  "example_pages = \<lparr>b_ptr = 4096, b_len = 0, b_mem = [0, 0]\<rparr>"

definition example_stream :: "bytes pbns_recovery_stream" where
  "example_stream = zero_recovery_stream\<lparr>rs_pages := 4096, rs_mem := [0, 0], rs_expected_digest := replicate 32 2,
     rs_hash_ops := Some example_hash, rs_hash_active := True, rs_initialized := True\<rparr>"

definition example_data :: "pbns_message_type \<Rightarrow> u32 \<Rightarrow> pbns_frame" where
  "example_data t n = \<lparr>f_service = PBNS_SERVICE_RECOVERY_ARTIFACT, f_type = t, f_flags = 0, f_request_id = zero_request_id, f_sequence = n\<rparr>"

lemmas recovery_examples = example_hash_def example_pages_def example_stream_def example_data_def zero_recovery_stream_def

lemma example_hash_laws: "hash_laws example_hash (\<lambda>e. e) (\<lambda>bs. replicate 32 (of_nat (length bs)))"
  by (simp add: hash_laws_def example_hash_def recovery_constants)

lemma example_digest_nonzero: "digest_nonzero (replicate 32 2)"
  by code_simp

lemma example_recovery_started:
  "pbns_recovery_stream_init (Some zero_recovery_stream) zero_request_id example_pages (Some (replicate 32 2)) (Some example_hash) [] =
     (PBNS_OK, Some example_stream, [])"
  using example_digest_nonzero by (simp add: pbns_recovery_stream_init_def recovery_examples recovery_constants Let_def)

lemma example_recovery_received:
  "pbns_recovery_stream_accept (Some example_stream) (Some (example_data PBNS_MESSAGE_DATA 0)) \<lparr>v_ptr = 64, v_bytes = [4, 5]\<rparr> (Some zero_ack) [] =
     (PBNS_OK, Some (example_stream\<lparr>rs_mem := [4, 5], rs_offset := 2, rs_next_sequence := 1, rs_records_since_ack := 1\<rparr>), Some zero_ack, [4, 5])"
  by (simp add: pbns_recovery_stream_accept_def recovery_examples recovery_constants recovery_validate_frame_def request_equal_def
      difference_zero view_is_valid_def store_at_def Let_def)

theorem recovery_stream_exact_witness:
  "\<exists>s e. recovery_session example_hash example_pages (replicate 32 2) s e [[4, 5]] \<and>
     (\<exists>s' e'. pbns_recovery_stream_complete (Some s) (Some (example_data PBNS_MESSAGE_COMPLETE 1)) null_view e = (PBNS_OK, Some s', e') \<and>
        rs_mem s' = [4, 5])"
proof -
  let ?s = "example_stream\<lparr>rs_mem := [4, 5], rs_offset := 2, rs_next_sequence := 1, rs_records_since_ack := 1\<rparr>"
  have run: "recovery_session example_hash example_pages (replicate 32 2) ?s [4, 5] [[4, 5]]"
    using received [OF started [OF example_recovery_started] example_recovery_received] by simp
  have "digest_equal (replicate 32 2) (replicate 32 2)" by (simp add: digest_equal_eq)
  then obtain s' e' where "pbns_recovery_stream_complete (Some ?s) (Some (example_data PBNS_MESSAGE_COMPLETE 1)) null_view [4, 5] = (PBNS_OK, Some s', e')"
    by (simp add: pbns_recovery_stream_complete_def recovery_examples recovery_validate_frame_def request_equal_def
        difference_zero view_is_valid_def null_view_def Let_def)
  then show ?thesis using recovery_stream_exact [OF run example_hash_laws] run by fastforce
qed

end
