(* ===== verification/Spec2Isabelle.thy ===== *)
theory Spec2Isabelle
  imports Broker_Timing Broker_Transfers Byte_Pump Proxy_Control Network Uefi_Launcher Anti_Rollback Recovery_Stream
begin

text \<open>
  Verification of pbns, a pre-boot network service.  A UEFI client sends framed requests over a
  byte stream (USB to a Pico W proxy, or TLS) to a gateway, to obtain trusted time and recovery
  images and to attest and enrol the platform; a launcher boots the normal system and falls back
  to the recovery image.  Paths below are relative to the root of the sources.

  \<^bold>\<open>Parts and theories.\<close>

  \<^item> \<open>Pbns_Prelude\<close>: the status codes (\<open>include/pbns/status.h\<close>), views and buffers
    (\<open>include/pbns/buffer.h\<close>), overlap tests, big-endian fields, the loop combinator, the locale
    \<open>checksum\<close>, and the lemmas on lists and words that all theories share.
  \<^item> \<open>Crc32c\<close>, \<open>Cobs\<close>, \<open>Frame\<close> (\<open>src/core/crc32c.c\<close>, \<open>cobs.c\<close>, \<open>frame.c\<close>): the codecs of the wire
    format.  The table-driven checksum is the bitwise CRC-32C and detects every burst of 32 bits;
    the encoder and decoder refine a stuffing function without memory and indices; frames are
    decoded exactly when they are the layout of an admitted frame, and round trip.
  \<^item> \<open>Record_Reader\<close>, \<open>Stream_State\<close> (\<open>src/core/record_reader.c\<close>, \<open>stream.c\<close>): splitting the byte
    stream into records, in whatever chunks it arrives, and the order, identity and size checks
    on the messages of a request.
  \<^item> \<open>Utf8\<close>, \<open>Cbor\<close>: the text check of \<open>src/core/broker.c\<close> against the Unicode definition, and the
    encoder calls the broker makes into the vendored QCBOR library.
  \<^item> \<open>Broker\<close> (\<open>src/core/broker.c\<close>): every operation of the request broker as a function on the
    record \<open>pbns_broker\<close> and the environment of its transport and platform callbacks.
    \<open>Broker_Session\<close> holds the session invariant, the reachable states \<open>broker_reach\<close>, the locale
    \<open>broker_env\<close> of what a broker relies on, and the discipline of the transport calls;
    \<open>Broker_Exchange\<close> and \<open>Broker_Delivery\<close> relate a request to the bytes on the wire, in both
    directions (what success implies, and that a working peer gives success); \<open>Broker_Timing\<close>
    shows that every wait ends; \<open>Broker_Transfers\<close> treats bulk transfers, uploads and remote errors.
  \<^item> \<open>Boot_Config\<close>, \<open>Launcher\<close>, \<open>Uefi_Launcher\<close> (\<open>src/core/boot_config.c\<close>, \<open>src/core/launcher.c\<close>,
    \<open>uefi/Library/PbnsBootConfigLib\<close>, \<open>uefi/Applications/PBNSLauncher\<close>): the boot records, the
    boot policy over callbacks (locale \<open>launcher_platform\<close>), and the UEFI application that
    provides them over the firmware services.
  \<^item> \<open>Anti_Rollback\<close>, \<open>Recovery_Stream\<close> (\<open>src/core/anti_rollback.c\<close>, \<open>recovery_assurance.c\<close>,
    \<open>recovery_service_adapter.c\<close>, \<open>recovery_stream.c\<close>): the version counter in two slots that a
    failed write may tear, and the reception of a recovery image.
  \<^item> \<open>Byte_Ring\<close>, \<open>Byte_Pump\<close>, \<open>Proxy_Control\<close>, \<open>Network\<close> (\<open>pico/src\<close>): the proxy's ring buffer,
    which implements the locale \<open>byte_queue\<close>, the relay built on it, the provisioning gate and
    session with the small control modules, and the connection state machine.

  \<^bold>\<open>Modelling.\<close>  A struct is a record, an enum a datatype of its enumerators (a \<open>default\<close> branch
  for other integers has no counterpart), a fixed-width integer a word of that width, \<open>size_t\<close> a
  natural number with the bound \<open>SIZE_MAX\<close> tested where the code tests it.  A pointer that may be
  NULL is an option; a view or buffer carries its address and the contents of its memory, so that
  overlap tests and NULL tests are those of the code.  Functions return the status, the new
  values of what they write through pointers, and the environment.  Callbacks and code outside
  the sources (transports, clocks, random numbers, hashes, firmware services, the CBOR decoder)
  are parameters; what a theorem relies on of them is a named hypothesis (\<open>real_time\<close>,
  \<open>stores_variables\<close>, \<open>boot_current_is\<close>, \<open>paths_delimited\<close>, \<open>slot_store\<close>, \<open>hash_laws\<close>,
  \<open>pool_accounting\<close>) with an instance in the witness of the theorem.  Ghost logs beside the
  environment (\<open>logged\<close>, \<open>logged_net\<close> and the like) record the calls a component makes; a callback
  cannot see them.

  \<^bold>\<open>Loops.\<close>  Loops over data are structural recursion.  The receive loops of the broker are
  \<open>loop\<close>, a partial function whose value is \<open>None\<close> when they do not end; \<open>broker_waits_end\<close> shows
  that they do, and the theorems on requests state the result of the call.  The byte pump's batch
  runs as many steps as the code's own counter admits.  No fuel is used.

  \<^bold>\<open>Memory.\<close>  The broker's buffers are disjoint, as its initialisation checks.  The COBS functions
  and the frame decoder do not check for overlap of input and output; they are modelled for
  distinct memory, as their callers in the core arrange.  The boot record codecs, which do check,
  are modelled with the copies between overlapping ranges.

  \<^bold>\<open>Not modelled.\<close>  The clients and objects that are mostly calls into cryptographic, COSE, CBOR
  and TPM libraries (attestation, enrollment, trusted time, recovery manifest and requests), the
  parsers of firmware tables and event logs, the transports and drivers behind the callback
  records, console output, the other UEFI applications, the main loop and drivers of the proxy,
  the gateway (a separate program in Go), and build and test scripts.
\<close>

end
